(* ===== verification/Spar_Prelude.thy ===== *)
theory Spar_Prelude
  imports Main "HOL-Library.Monad_Syntax" "HOL-Library.Sublist"
begin

text \<open>
  The shared vocabulary of the development.

  Rust's \<^verbatim>\<open>u64\<close>, \<^verbatim>\<open>u32\<close>, \<^verbatim>\<open>u8\<close> and \<^verbatim>\<open>u128\<close> values are natural numbers here, with
  the width written out wherever the source can reach it: the saturating operations of the
  standard library (\<^verbatim>\<open>saturating_add\<close>, \<^verbatim>\<open>saturating_mul\<close>, \<^verbatim>\<open>saturating_sub\<close>), the
  \<open>if x > u64::MAX then u64::MAX else x as u64\<close> narrowing from \<^verbatim>\<open>u128\<close>, and
  \<^verbatim>\<open>u64::div_ceil\<close>. A value of the source satisfies \<open>x \<le> u64_max\<close>; the collection
  \<open>u64_range\<close> holds the lemmas that the operations stay in that range.

  The rest are lemmas on integer division with rounding (the Galois connection of
  \<open>div_ceil\<close>), on folds that compute minima and saturating sums, and the interface of the
  bounded fixed-point iteration that the scheduling analyses share.
\<close>

section \<open>Machine integers\<close>

type_synonym u8 = nat
type_synonym u32 = nat
type_synonym u64 = nat
type_synonym u128 = nat
type_synonym usize = nat

named_theorems u64_range \<open>closure of the 64-bit range under the operations of the model\<close>
named_theorems nc_mono \<open>monotonicity of the operations of the model\<close>

definition u64_max :: u64 where
  "u64_max = 18446744073709551615"

definition sat_add :: "u64 \<Rightarrow> u64 \<Rightarrow> u64" where
  "sat_add a b = (if a + b > u64_max then u64_max else a + b)"

definition sat_mul :: "u64 \<Rightarrow> u64 \<Rightarrow> u64" where
  "sat_mul a b = (if a * b > u64_max then u64_max else a * b)"

definition sat_sub :: "u64 \<Rightarrow> u64 \<Rightarrow> u64" where
  "sat_sub a b = (if b \<le> a then a - b else 0)"

definition narrow_u64 :: "u128 \<Rightarrow> u64" where
  "narrow_u64 x = (if x > u64_max then u64_max else x)"

text \<open>\<^verbatim>\<open>div_ceil\<close> as the standard library computes it. Callers guarantee \<open>b \<noteq> 0\<close> (or
  model the panic themselves).\<close>

definition div_ceil :: "nat \<Rightarrow> nat \<Rightarrow> nat" where
  "div_ceil a b = (if a mod b > 0 then a div b + 1 else a div b)"

lemma u64_max_pos [simp]: "0 < u64_max" "u64_max \<noteq> 0"
  by (simp_all add: u64_max_def)

lemma sat_add_min: "sat_add a b = min (a + b) u64_max"
  by (simp add: sat_add_def min_def)

lemma sat_mul_min: "sat_mul a b = min (a * b) u64_max"
  by (simp add: sat_mul_def min_def)

lemma narrow_u64_min: "narrow_u64 x = min x u64_max"
  by (simp add: narrow_u64_def min_def)

lemma sat_sub_diff [simp]: "sat_sub a b = a - b"
  by (simp add: sat_sub_def)

lemmas sat_simps = sat_add_min sat_mul_min narrow_u64_min

lemma sat_add_range [u64_range]: "sat_add a b \<le> u64_max"
  by (simp add: sat_add_min)

lemma sat_mul_range [u64_range]: "sat_mul a b \<le> u64_max"
  by (simp add: sat_mul_min)

lemma narrow_u64_range [u64_range]: "narrow_u64 a \<le> u64_max"
  by (simp add: narrow_u64_min)

lemma sat_add_mono [nc_mono]: "a \<le> a' \<Longrightarrow> b \<le> b' \<Longrightarrow> sat_add a b \<le> sat_add a' b'"
  by (auto simp: sat_add_min min_def)

lemma sat_mul_mono [nc_mono]: "a \<le> a' \<Longrightarrow> b \<le> b' \<Longrightarrow> sat_mul a b \<le> sat_mul a' b'"
  using mult_le_mono [of a a' b b'] by (auto simp: sat_mul_min min_def)

lemma narrow_u64_mono [nc_mono]: "a \<le> a' \<Longrightarrow> narrow_u64 a \<le> narrow_u64 a'"
  by (auto simp: narrow_u64_min min_def)

lemma sat_add_0 [simp]: "a \<le> u64_max \<Longrightarrow> sat_add a 0 = a" "a \<le> u64_max \<Longrightarrow> sat_add 0 a = a"
  by (simp_all add: sat_add_min)

lemma sat_add_le: "sat_add a b \<le> a + b"
  by (simp add: sat_add_min)

lemma sat_add_ge: "a \<le> u64_max \<Longrightarrow> a \<le> sat_add a b"
  by (simp add: sat_add_min)

lemma sat_add_exact: "a + b \<le> u64_max \<Longrightarrow> sat_add a b = a + b"
  by (simp add: sat_add_min)

lemma sat_mul_exact: "a * b \<le> u64_max \<Longrightarrow> sat_mul a b = a * b"
  by (simp add: sat_mul_min)

lemma sat_add_less_max: "sat_add a b < u64_max \<Longrightarrow> sat_add a b = a + b"
  by (auto simp: sat_add_min min_def split: if_splits)

lemma sat_mul_less_max: "sat_mul a b < u64_max \<Longrightarrow> sat_mul a b = a * b"
  by (auto simp: sat_mul_min min_def split: if_splits)


section \<open>Division with rounding\<close>

lemma div_ceil_le_iff: "0 < b \<Longrightarrow> div_ceil a b \<le> n \<longleftrightarrow> a \<le> n * b"
proof -
  assume b: "0 < b"
  show ?thesis
  proof (cases "a mod b > 0")
    case True
    have "a div b + 1 \<le> n \<longleftrightarrow> a div b < n" by auto
    also have "\<dots> \<longleftrightarrow> a < n * b" using b by (simp add: div_less_iff_less_mult)
    also have "\<dots> \<longleftrightarrow> a \<le> n * b" using True by (auto simp: le_less)
    finally show ?thesis using True by (simp add: div_ceil_def)
  next
    case False
    then have "a = a div b * b" by (metis add.right_neutral div_mult_mod_eq neq0_conv)
    then have "a \<le> n * b \<longleftrightarrow> a div b \<le> n"
      using b by (metis mult_le_cancel2)
    then show ?thesis using False by (simp add: div_ceil_def)
  qed
qed

lemma div_ceil_ge: "0 < b \<Longrightarrow> a \<le> div_ceil a b * b"
  using div_ceil_le_iff [of b a "div_ceil a b"] by simp

lemma div_ceil_mono [nc_mono]: "a \<le> a' \<Longrightarrow> div_ceil a b \<le> div_ceil a' b"
proof (cases "b = 0")
  case False
  assume "a \<le> a'"
  with False show ?thesis by (simp add: div_ceil_le_iff order_trans [OF _ div_ceil_ge])
qed (simp add: div_ceil_def)

lemma div_ceil_antimono: "0 < b \<Longrightarrow> b \<le> b' \<Longrightarrow> div_ceil a b' \<le> div_ceil a b"
proof -
  assume b: "0 < b" "b \<le> b'"
  have "a \<le> div_ceil a b * b" using b(1) by (rule div_ceil_ge)
  also have "\<dots> \<le> div_ceil a b * b'" using b(2) by simp
  finally show ?thesis using b by (simp add: div_ceil_le_iff)
qed

lemma div_ceil_0 [simp]: "div_ceil 0 b = 0"
  by (simp add: div_ceil_def)

lemma div_ceil_pos: "0 < b \<Longrightarrow> 0 < a \<Longrightarrow> 0 < div_ceil a b"
  using div_ceil_le_iff [of b a 0] by auto

lemma div_ceil_le_self: "0 < b \<Longrightarrow> div_ceil a b \<le> a"
  by (simp add: div_ceil_le_iff)

lemma div_superadd: "(a::nat) div k + b div k \<le> (a + b) div k"
  by (simp add: div_add1_eq [of a b k])

lemma div_subadd: "0 < k \<Longrightarrow> (a + b) div k \<le> (a::nat) div k + b div k + 1"
proof -
  assume k: "0 < k"
  have "a mod k + b mod k < 2 * k"
    using k by (metis add_less_mono mod_less_divisor mult_2)
  then have "(a mod k + b mod k) div k \<le> 1"
    using k by (simp add: less_Suc_eq_le [symmetric] div_less_iff_less_mult)
  then show ?thesis by (simp add: div_add1_eq [of a b k])
qed

lemma div_add_multiple: "0 < k \<Longrightarrow> s * k \<le> x \<Longrightarrow> s + a div k \<le> (x + a) div (k::nat)"
proof -
  assume k: "0 < k" and x: "s * k \<le> x"
  have "s + a div k = (s * k + a) div k" using k by simp
  also have "\<dots> \<le> (x + a) div k" using x by (simp add: div_le_mono)
  finally show ?thesis .
qed


section \<open>Folds over lists\<close>

text \<open>\<^verbatim>\<open>iter().min()\<close> and \<^verbatim>\<open>iter().max()\<close>: \<open>None\<close> on an empty iterator.\<close>

fun iter_min :: "nat list \<Rightarrow> nat option" where
  "iter_min [] = None"
| "iter_min (x # xs) = Some (fold min xs x)"

fun iter_max :: "nat list \<Rightarrow> nat option" where
  "iter_max [] = None"
| "iter_max (x # xs) = Some (fold max xs x)"

lemma fold_min_le: "fold min xs (x::nat) \<le> x"
proof (induction xs arbitrary: x)
  case (Cons z zs)
  from Cons.IH [of "min z x"] show ?case by simp
qed simp

lemma fold_min_in: "fold min xs (x::nat) \<in> set (x # xs)"
  by (induction xs arbitrary: x) (auto simp: min_def)

lemma fold_min_lower: "y \<in> set (x # xs) \<Longrightarrow> fold min xs (x::nat) \<le> y"
proof (induction xs arbitrary: x)
  case (Cons z zs)
  then show ?case
    using fold_min_le [of zs "min z x"] Cons.IH [of "min z x"] by auto
qed simp

lemma fold_max_in: "fold max xs (x::nat) \<in> set (x # xs)"
  by (induction xs arbitrary: x) (auto simp: max_def)

lemma fold_max_ge: "x \<le> fold max xs (x::nat)"
proof (induction xs arbitrary: x)
  case (Cons z zs)
  from Cons.IH [of "max z x"] show ?case by simp
qed simp

lemma fold_max_upper: "y \<in> set (x # xs) \<Longrightarrow> y \<le> fold max xs (x::nat)"
proof (induction xs arbitrary: x)
  case (Cons z zs)
  then show ?case
    using fold_max_ge [of "max z x" zs] Cons.IH [of "max z x"] by auto
qed simp

lemma iter_min_eq_Some: "iter_min xs = Some m \<longleftrightarrow> m \<in> set xs \<and> (\<forall>y \<in> set xs. m \<le> y)"
proof (cases xs)
  case (Cons x ys)
  then show ?thesis
    using fold_min_in [of ys x] fold_min_lower [of _ x ys]
    by (auto intro!: antisym simp del: list.set)
qed simp

lemma iter_max_eq_Some: "iter_max xs = Some m \<longleftrightarrow> m \<in> set xs \<and> (\<forall>y \<in> set xs. y \<le> m)"
proof (cases xs)
  case (Cons x ys)
  then show ?thesis
    using fold_max_in [of ys x] fold_max_upper [of _ x ys]
    by (auto intro!: antisym simp del: list.set)
qed simp

lemma iter_min_None [simp]: "iter_min xs = None \<longleftrightarrow> xs = []"
  by (cases xs) simp_all

lemma iter_max_None [simp]: "iter_max xs = None \<longleftrightarrow> xs = []"
  by (cases xs) simp_all

text \<open>A saturating accumulation is the saturated sum.\<close>

lemma fold_sat_add:
  "a \<le> u64_max \<Longrightarrow> fold (\<lambda>x acc. sat_add acc (f x)) xs a = min (a + sum_list (map f xs)) u64_max"
proof (induction xs arbitrary: a)
  case (Cons x xs)
  have "sat_add a (f x) \<le> u64_max" by (rule sat_add_range)
  from Cons.IH [OF this] show ?case by (simp add: sat_add_min min_def)
qed simp

text \<open>Saturating the terms of a sum first makes no difference once the sum is saturated.\<close>

lemma min_sum_list_min:
  "min (a + (\<Sum>x\<leftarrow>xs. min (f x) M) + b) M = min (a + (\<Sum>x\<leftarrow>xs. f x) + b) (M::nat)"
proof (induction xs arbitrary: a)
  case (Cons x xs)
  from Cons.IH [of "a + min (f x) M"] show ?case
    by (auto simp: min_def add.assoc)
qed simp

lemma min_sum_list_min2:
  "min (a + (\<Sum>x\<leftarrow>xs. min (f x) M) + (\<Sum>y\<leftarrow>ys. min (g y) M)) M
     = min (a + (\<Sum>x\<leftarrow>xs. f x) + (\<Sum>y\<leftarrow>ys. g y)) (M::nat)"
  using min_sum_list_min [of "a + (\<Sum>x\<leftarrow>xs. min (f x) M)" g M ys 0]
    min_sum_list_min [of a f M xs "\<Sum>y\<leftarrow>ys. g y"] by simp

text \<open>Indexing that panics out of range.\<close>

definition nth_opt :: "'a list \<Rightarrow> nat \<Rightarrow> 'a option" where
  "nth_opt xs i = (if i < length xs then Some (xs ! i) else None)"

lemma those_map_Some: "(\<And>x. x \<in> set xs \<Longrightarrow> f x = Some (g x)) \<Longrightarrow> those (map f xs) = Some (map g xs)"
  by (induction xs) auto

end
