(* ===== verification/Rust_Strings.thy ===== *)
theory Rust_Strings
  imports Spar_Prelude
begin

text \<open>
  The string operations of the Rust standard library that the program uses. A Rust \<^verbatim>\<open>&str\<close> is a
  \<open>string\<close> of characters with code points below 256. \<^verbatim>\<open>trim\<close>, \<^verbatim>\<open>split\<close>, \<^verbatim>\<open>split_once\<close>,
  \<^verbatim>\<open>find\<close>, \<^verbatim>\<open>strip_suffix\<close>, \<^verbatim>\<open>to_ascii_lowercase\<close>, \<^verbatim>\<open>eq_ignore_ascii_case\<close>, integer
  parsing (optional \<^verbatim>\<open>+\<close>, digits, overflow is an error) and formatting (\<^verbatim>\<open>{}\<close>,
  \<^verbatim>\<open>{:02X}\<close>) are written out, with the laws the parsers and the property tables rest on.
\<close>

section \<open>Operations\<close>

text \<open>\<^verbatim>\<open>char::is_whitespace\<close> on code points below 256.\<close>

definition is_whitespace :: "char \<Rightarrow> bool" where
  "is_whitespace c = (let n = of_char c :: nat in 9 \<le> n \<and> n \<le> 13 \<or> n = 32 \<or> n = 133 \<or> n = 160)"

definition trim :: "string \<Rightarrow> string" where
  "trim s = rev (dropWhile is_whitespace (rev (dropWhile is_whitespace s)))"

text \<open>\<^verbatim>\<open>str::split\<close> with a single character: always at least one piece.\<close>

fun split_char :: "char \<Rightarrow> string \<Rightarrow> string list" where
  "split_char sep [] = [[]]"
| "split_char sep (c # cs) =
     (if c = sep then [] # split_char sep cs
      else case split_char sep cs of p # ps \<Rightarrow> (c # p) # ps | [] \<Rightarrow> [[c]])"

definition to_digit :: "nat \<Rightarrow> char \<Rightarrow> nat option" where
  "to_digit radix c =
     (let n = of_char c :: nat;
          d = (if 48 \<le> n \<and> n \<le> 57 then n - 48
               else if 65 \<le> n \<and> n \<le> 90 then n - 55
               else if 97 \<le> n \<and> n \<le> 122 then n - 87
               else 36)
      in if d < radix then Some d else None)"

fun parse_digits :: "nat \<Rightarrow> nat \<Rightarrow> nat \<Rightarrow> string \<Rightarrow> nat option" where
  "parse_digits radix limit acc [] = Some acc"
| "parse_digits radix limit acc (c # cs) =
     (case to_digit radix c of
        None \<Rightarrow> None
      | Some d \<Rightarrow> if acc * radix + d > limit then None else parse_digits radix limit (acc * radix + d) cs)"

text \<open>\<^verbatim>\<open>from_str_radix\<close> of an unsigned type whose largest value is \<open>limit\<close>.\<close>

definition from_str_radix :: "nat \<Rightarrow> nat \<Rightarrow> string \<Rightarrow> nat option" where
  "from_str_radix radix limit s =
     (case s of
        [] \<Rightarrow> None
      | c # cs \<Rightarrow> if c = CHR ''+'' then (if cs = [] then None else parse_digits radix limit 0 cs)
                 else parse_digits radix limit 0 s)"

text \<open>\<^verbatim>\<open>u8::to_ascii_lowercase\<close> and the case-insensitive comparison built on it.\<close>

definition ascii_lower :: "char \<Rightarrow> char" where
  "ascii_lower c = (let n = of_char c :: nat in if 65 \<le> n \<and> n \<le> 90 then char_of (n + 32) else c)"

definition to_ascii_lowercase :: "string \<Rightarrow> string" where
  "to_ascii_lowercase s = map ascii_lower s"

definition eq_ignore_ascii_case :: "string \<Rightarrow> string \<Rightarrow> bool" where
  "eq_ignore_ascii_case s t \<longleftrightarrow> to_ascii_lowercase s = to_ascii_lowercase t"

text \<open>\<^verbatim>\<open>str::find\<close> of a non-empty pattern: the index of its first occurrence.\<close>

fun find_str :: "string \<Rightarrow> string \<Rightarrow> nat option" where
  "find_str pat [] = (if pat = [] then Some 0 else None)"
| "find_str pat (c # cs) = (if prefix pat (c # cs) then Some 0 else map_option Suc (find_str pat cs))"

definition split_once :: "string \<Rightarrow> string \<Rightarrow> (string \<times> string) option" where
  "split_once pat s = map_option (\<lambda>i. (take i s, drop (i + length pat) s)) (find_str pat s)"

definition strip_suffix :: "string \<Rightarrow> string \<Rightarrow> string option" where
  "strip_suffix suf s = (if suffix suf s then Some (take (length s - length suf) s) else None)"

text \<open>Formatting: decimal, and upper-case hexadecimal padded to two digits.\<close>

definition from_digit :: "nat \<Rightarrow> char" where
  "from_digit d = char_of (if d < 10 then 48 + d else 55 + d)"

fun show_radix :: "nat \<Rightarrow> nat \<Rightarrow> string" where
  "show_radix radix n =
     (if n < radix \<or> radix < 2 then [from_digit n]
      else show_radix radix (n div radix) @ [from_digit (n mod radix)])"

declare show_radix.simps [simp del]

definition show_hex02 :: "nat \<Rightarrow> string" where
  "show_hex02 n = (let s = show_radix 16 n in replicate (2 - length s) (CHR ''0'') @ s)"


section \<open>Laws\<close>

lemma split_char_no_sep: "sep \<notin> set a \<Longrightarrow> split_char sep a = [a]"
  by (induction a) auto

lemma split_char_append: "sep \<notin> set a \<Longrightarrow> split_char sep (a @ sep # b) = a # split_char sep b"
  by (induction a) auto

lemma trim_id: "\<forall>c \<in> set s. \<not> is_whitespace c \<Longrightarrow> trim s = s"
proof -
  assume s: "\<forall>c \<in> set s. \<not> is_whitespace c"
  have "dropWhile is_whitespace t = t" if "\<forall>c \<in> set t. \<not> is_whitespace c" for t
    using that by (cases t) auto
  from this [of s] this [of "rev s"] s show ?thesis by (simp add: trim_def)
qed

text \<open>Printed numbers are made of hexadecimal digits, which are none of the format's separators.\<close>

definition digits :: "nat \<Rightarrow> string \<Rightarrow> bool" where
  "digits radix s \<longleftrightarrow> s \<noteq> [] \<and> (\<forall>c \<in> set s. to_digit radix c \<noteq> None)"

lemma to_digit_from_digit: "d < radix \<Longrightarrow> radix \<le> 36 \<Longrightarrow> to_digit radix (from_digit d) = Some d"
  by (auto simp: to_digit_def from_digit_def Let_def)

lemma digit_not_special:
  assumes "to_digit radix c \<noteq> None" "radix \<le> 36"
  shows "\<not> is_whitespace c" "c \<noteq> CHR '':''" "c \<noteq> CHR '';''" "c \<noteq> CHR ''+''"
  using assms by (auto simp: to_digit_def is_whitespace_def Let_def split: if_splits)

lemma digits_show_radix: "2 \<le> radix \<Longrightarrow> radix \<le> 36 \<Longrightarrow> digits radix (show_radix radix n)"
proof (induction radix n rule: show_radix.induct)
  case (1 radix n)
  show ?case
  proof (cases "n < radix")
    case True
    then show ?thesis using 1 by (subst show_radix.simps) (simp add: digits_def to_digit_from_digit)
  next
    case False
    with 1 have "digits radix (show_radix radix (n div radix))" by simp
    then show ?thesis using 1 False
      by (subst show_radix.simps) (auto simp: digits_def to_digit_from_digit)
  qed
qed

lemma parse_digits_append:
  "parse_digits radix limit acc (s @ t) =
     (case parse_digits radix limit acc s of None \<Rightarrow> None | Some v \<Rightarrow> parse_digits radix limit v t)"
  by (induction s arbitrary: acc) (auto split: option.split)

lemma parse_digits_show:
  "2 \<le> radix \<Longrightarrow> radix \<le> 36 \<Longrightarrow> n \<le> limit \<Longrightarrow> parse_digits radix limit 0 (show_radix radix n) = Some n"
proof (induction radix n rule: show_radix.induct)
  case (1 radix n)
  show ?case
  proof (cases "n < radix")
    case True
    then show ?thesis using 1 by (subst show_radix.simps) (simp add: to_digit_from_digit)
  next
    case False
    with 1 have "parse_digits radix limit 0 (show_radix radix (n div radix)) = Some (n div radix)"
      using div_le_dividend order_trans by blast
    then show ?thesis using 1 False
      by (subst show_radix.simps) (simp add: parse_digits_append to_digit_from_digit)
  qed
qed

lemma from_str_radix_digits:
  assumes "digits radix s" "radix \<le> 36"
  shows "from_str_radix radix limit s = parse_digits radix limit 0 s"
  using assms digit_not_special(4) by (cases s) (auto simp: from_str_radix_def digits_def)

lemma digits_hex02: "digits 16 (show_hex02 n)"
proof -
  have "digits 16 (show_radix 16 n)" by (simp add: digits_show_radix)
  moreover have "to_digit 16 (CHR ''0'') = Some 0" by (simp add: to_digit_def)
  ultimately show ?thesis by (auto simp: show_hex02_def digits_def Let_def)
qed

lemma parse_digits_zeros: "parse_digits 16 limit 0 (replicate k (CHR ''0'') @ s) = parse_digits 16 limit 0 s"
  by (induction k) (simp_all add: to_digit_def)

lemma digits_free:
  assumes "digits radix s" "radix \<le> 36"
  shows "CHR '':'' \<notin> set s" "CHR '';'' \<notin> set s" "\<forall>c \<in> set s. \<not> is_whitespace c"
proof -
  have "\<not> is_whitespace c \<and> c \<noteq> CHR '':'' \<and> c \<noteq> CHR '';''" if "c \<in> set s" for c
    using digit_not_special [of radix c] assms that by (simp add: digits_def)
  then show "CHR '':'' \<notin> set s" "CHR '';'' \<notin> set s" "\<forall>c \<in> set s. \<not> is_whitespace c" by blast+
qed


lemma ascii_lower_idem [simp]: "ascii_lower (ascii_lower c) = ascii_lower c"
  by (auto simp: ascii_lower_def Let_def)

lemma to_ascii_lowercase_idem [simp]: "to_ascii_lowercase (to_ascii_lowercase s) = to_ascii_lowercase s"
  by (simp add: to_ascii_lowercase_def)

lemma to_ascii_lowercase_Nil [simp]: "to_ascii_lowercase [] = []"
  by (simp add: to_ascii_lowercase_def)

lemma trim_Nil [simp]: "trim [] = []"
  by (simp add: trim_def)

lemma trim_idem [simp]: "trim (trim s) = trim s"
proof -
  have hd: "dropWhile P (dropWhile P xs) = dropWhile P xs" for P :: "char \<Rightarrow> bool" and xs
    by (induction xs) auto
  let ?u = "rev (dropWhile is_whitespace s)"
  have "dropWhile is_whitespace (rev (dropWhile is_whitespace ?u)) = rev (dropWhile is_whitespace ?u)"
  proof (cases "dropWhile is_whitespace s")
    case (Cons c cs)
    then have "\<not> is_whitespace c" by (metis dropWhile_eq_Cons_conv)
    then have "dropWhile is_whitespace ?u = dropWhile is_whitespace (rev cs) @ [c]"
      using Cons by (simp add: dropWhile_append dropWhile_eq_Nil_conv)
    with \<open>\<not> is_whitespace c\<close> show ?thesis by simp
  next
    case Nil
    show ?thesis unfolding Nil by simp
  qed
  then show ?thesis by (simp add: trim_def hd)
qed

lemma find_str_SomeD: "find_str pat s = Some i \<Longrightarrow> prefix pat (drop i s)"
  by (induction s arbitrary: i) (auto split: if_splits)

text \<open>Evaluation of case folding and trimming on literals.\<close>

lemmas ascii_eval = to_ascii_lowercase_def eq_ignore_ascii_case_def ascii_lower_def char_of_def bit_0 Let_def

lemmas trim_eval = trim_def is_whitespace_def Let_def

lemma trim_ends: "s \<noteq> [] \<Longrightarrow> \<not> is_whitespace (hd s) \<Longrightarrow> \<not> is_whitespace (last s) \<Longrightarrow> trim s = s"
proof -
  assume s: "s \<noteq> []" "\<not> is_whitespace (hd s)" "\<not> is_whitespace (last s)"
  have keep: "dropWhile is_whitespace t = t" if "t \<noteq> []" "\<not> is_whitespace (hd t)" for t
    using that by (cases t) auto
  show "trim s = s" using keep [of s] keep [of "rev s"] s by (simp add: trim_def hd_rev)
qed

lemma suffix_append_literal: "length a \<le> length b \<Longrightarrow> suffix a (x @ b) \<longleftrightarrow> suffix a b"
  by (auto simp: suffix_append)

lemma strip_suffix_append: "strip_suffix b (x @ b) = Some x"
  by (simp add: strip_suffix_def suffix_def)

lemma strip_suffix_other: "length a \<le> length b \<Longrightarrow> \<not> suffix a b \<Longrightarrow> strip_suffix a (x @ b) = None"
  by (simp add: strip_suffix_def suffix_append_literal)

end
