(* ===== verification/Syntax_Kind.thy ===== *)
theory Syntax_Kind
  imports Rust_Strings "HOL-Library.Word"
begin

text \<open>
  The token and node kinds of the AADL front end, \<^verbatim>\<open>crates/spar-parser/src/syntax_kind.rs\<close>, and sets of
  them, \<^verbatim>\<open>token_set.rs\<close>. The enumeration is \<^verbatim>\<open>repr(u16)\<close> and its variants are consecutive from 0; a
  kind is represented by its discriminant, which the classification functions compare and the token sets
  use as a bit position.
\<close>

section \<open>Kinds\<close>

type_synonym syntax_kind = nat

abbreviation (input) TOMBSTONE :: syntax_kind where "TOMBSTONE \<equiv> 0"
abbreviation (input) EOF :: syntax_kind where "EOF \<equiv> 1"
abbreviation (input) ERROR :: syntax_kind where "ERROR \<equiv> 2"
abbreviation (input) WHITESPACE :: syntax_kind where "WHITESPACE \<equiv> 3"
abbreviation (input) COMMENT :: syntax_kind where "COMMENT \<equiv> 4"
abbreviation (input) SEMICOLON :: syntax_kind where "SEMICOLON \<equiv> 5"
abbreviation (input) COLON :: syntax_kind where "COLON \<equiv> 6"
abbreviation (input) COMMA :: syntax_kind where "COMMA \<equiv> 7"
abbreviation (input) DOT :: syntax_kind where "DOT \<equiv> 8"
abbreviation (input) DOT_DOT :: syntax_kind where "DOT_DOT \<equiv> 9"
abbreviation (input) L_PAREN :: syntax_kind where "L_PAREN \<equiv> 10"
abbreviation (input) R_PAREN :: syntax_kind where "R_PAREN \<equiv> 11"
abbreviation (input) L_CURLY :: syntax_kind where "L_CURLY \<equiv> 12"
abbreviation (input) R_CURLY :: syntax_kind where "R_CURLY \<equiv> 13"
abbreviation (input) L_BRACKET :: syntax_kind where "L_BRACKET \<equiv> 14"
abbreviation (input) R_BRACKET :: syntax_kind where "R_BRACKET \<equiv> 15"
abbreviation (input) ARROW :: syntax_kind where "ARROW \<equiv> 16"
abbreviation (input) BIDI_ARROW :: syntax_kind where "BIDI_ARROW \<equiv> 17"
abbreviation (input) FAT_ARROW :: syntax_kind where "FAT_ARROW \<equiv> 18"
abbreviation (input) PLUS_ARROW :: syntax_kind where "PLUS_ARROW \<equiv> 19"
abbreviation (input) PLUS :: syntax_kind where "PLUS \<equiv> 20"
abbreviation (input) MINUS :: syntax_kind where "MINUS \<equiv> 21"
abbreviation (input) STAR :: syntax_kind where "STAR \<equiv> 22"
abbreviation (input) SLASH :: syntax_kind where "SLASH \<equiv> 23"
abbreviation (input) COLON_COLON :: syntax_kind where "COLON_COLON \<equiv> 24"
abbreviation (input) ANNEX_OPEN :: syntax_kind where "ANNEX_OPEN \<equiv> 25"
abbreviation (input) ANNEX_CLOSE :: syntax_kind where "ANNEX_CLOSE \<equiv> 26"
abbreviation (input) HASH :: syntax_kind where "HASH \<equiv> 27"
abbreviation (input) DASH_BRACKET :: syntax_kind where "DASH_BRACKET \<equiv> 28"
abbreviation (input) BRACKET_ARROW :: syntax_kind where "BRACKET_ARROW \<equiv> 29"
abbreviation (input) INTEGER_LIT :: syntax_kind where "INTEGER_LIT \<equiv> 30"
abbreviation (input) REAL_LIT :: syntax_kind where "REAL_LIT \<equiv> 31"
abbreviation (input) STRING_LIT :: syntax_kind where "STRING_LIT \<equiv> 32"
abbreviation (input) IDENT :: syntax_kind where "IDENT \<equiv> 33"
abbreviation (input) PACKAGE_KW :: syntax_kind where "PACKAGE_KW \<equiv> 34"
abbreviation (input) PUBLIC_KW :: syntax_kind where "PUBLIC_KW \<equiv> 35"
abbreviation (input) PRIVATE_KW :: syntax_kind where "PRIVATE_KW \<equiv> 36"
abbreviation (input) WITH_KW :: syntax_kind where "WITH_KW \<equiv> 37"
abbreviation (input) END_KW :: syntax_kind where "END_KW \<equiv> 38"
abbreviation (input) NONE_KW :: syntax_kind where "NONE_KW \<equiv> 39"
abbreviation (input) RENAMES_KW :: syntax_kind where "RENAMES_KW \<equiv> 40"
abbreviation (input) SYSTEM_KW :: syntax_kind where "SYSTEM_KW \<equiv> 41"
abbreviation (input) PROCESS_KW :: syntax_kind where "PROCESS_KW \<equiv> 42"
abbreviation (input) THREAD_KW :: syntax_kind where "THREAD_KW \<equiv> 43"
abbreviation (input) GROUP_KW :: syntax_kind where "GROUP_KW \<equiv> 44"
abbreviation (input) PROCESSOR_KW :: syntax_kind where "PROCESSOR_KW \<equiv> 45"
abbreviation (input) VIRTUAL_KW :: syntax_kind where "VIRTUAL_KW \<equiv> 46"
abbreviation (input) BUS_KW :: syntax_kind where "BUS_KW \<equiv> 47"
abbreviation (input) MEMORY_KW :: syntax_kind where "MEMORY_KW \<equiv> 48"
abbreviation (input) DEVICE_KW :: syntax_kind where "DEVICE_KW \<equiv> 49"
abbreviation (input) SUBPROGRAM_KW :: syntax_kind where "SUBPROGRAM_KW \<equiv> 50"
abbreviation (input) DATA_KW :: syntax_kind where "DATA_KW \<equiv> 51"
abbreviation (input) ABSTRACT_KW :: syntax_kind where "ABSTRACT_KW \<equiv> 52"
abbreviation (input) IMPLEMENTATION_KW :: syntax_kind where "IMPLEMENTATION_KW \<equiv> 53"
abbreviation (input) EXTENDS_KW :: syntax_kind where "EXTENDS_KW \<equiv> 54"
abbreviation (input) PROTOTYPES_KW :: syntax_kind where "PROTOTYPES_KW \<equiv> 55"
abbreviation (input) FEATURES_KW :: syntax_kind where "FEATURES_KW \<equiv> 56"
abbreviation (input) FLOWS_KW :: syntax_kind where "FLOWS_KW \<equiv> 57"
abbreviation (input) CONNECTIONS_KW :: syntax_kind where "CONNECTIONS_KW \<equiv> 58"
abbreviation (input) MODES_KW :: syntax_kind where "MODES_KW \<equiv> 59"
abbreviation (input) PROPERTIES_KW :: syntax_kind where "PROPERTIES_KW \<equiv> 60"
abbreviation (input) SUBCOMPONENTS_KW :: syntax_kind where "SUBCOMPONENTS_KW \<equiv> 61"
abbreviation (input) ANNEX_KW :: syntax_kind where "ANNEX_KW \<equiv> 62"
abbreviation (input) CALLS_KW :: syntax_kind where "CALLS_KW \<equiv> 63"
abbreviation (input) INTERNAL_KW :: syntax_kind where "INTERNAL_KW \<equiv> 64"
abbreviation (input) IN_KW :: syntax_kind where "IN_KW \<equiv> 65"
abbreviation (input) OUT_KW :: syntax_kind where "OUT_KW \<equiv> 66"
abbreviation (input) PORT_KW :: syntax_kind where "PORT_KW \<equiv> 67"
abbreviation (input) EVENT_KW :: syntax_kind where "EVENT_KW \<equiv> 68"
abbreviation (input) ACCESS_KW :: syntax_kind where "ACCESS_KW \<equiv> 69"
abbreviation (input) PROVIDES_KW :: syntax_kind where "PROVIDES_KW \<equiv> 70"
abbreviation (input) REQUIRES_KW :: syntax_kind where "REQUIRES_KW \<equiv> 71"
abbreviation (input) FEATURE_KW :: syntax_kind where "FEATURE_KW \<equiv> 72"
abbreviation (input) PARAMETER_KW :: syntax_kind where "PARAMETER_KW \<equiv> 73"
abbreviation (input) INVERSE_KW :: syntax_kind where "INVERSE_KW \<equiv> 74"
abbreviation (input) OF_KW :: syntax_kind where "OF_KW \<equiv> 75"
abbreviation (input) FLOW_KW :: syntax_kind where "FLOW_KW \<equiv> 76"
abbreviation (input) SOURCE_KW :: syntax_kind where "SOURCE_KW \<equiv> 77"
abbreviation (input) SINK_KW :: syntax_kind where "SINK_KW \<equiv> 78"
abbreviation (input) PATH_KW :: syntax_kind where "PATH_KW \<equiv> 79"
abbreviation (input) INITIAL_KW :: syntax_kind where "INITIAL_KW \<equiv> 80"
abbreviation (input) MODE_KW :: syntax_kind where "MODE_KW \<equiv> 81"
abbreviation (input) TRANSITION_KW :: syntax_kind where "TRANSITION_KW \<equiv> 82"
abbreviation (input) CONSTANT_KW :: syntax_kind where "CONSTANT_KW \<equiv> 83"
abbreviation (input) APPLIES_KW :: syntax_kind where "APPLIES_KW \<equiv> 84"
abbreviation (input) TO_KW :: syntax_kind where "TO_KW \<equiv> 85"
abbreviation (input) INHERIT_KW :: syntax_kind where "INHERIT_KW \<equiv> 86"
abbreviation (input) DELTA_KW :: syntax_kind where "DELTA_KW \<equiv> 87"
abbreviation (input) IS_KW :: syntax_kind where "IS_KW \<equiv> 88"
abbreviation (input) ALL_KW :: syntax_kind where "ALL_KW \<equiv> 89"
abbreviation (input) BINDING_KW :: syntax_kind where "BINDING_KW \<equiv> 90"
abbreviation (input) CLASSIFIER_KW :: syntax_kind where "CLASSIFIER_KW \<equiv> 91"
abbreviation (input) REFERENCE_KW :: syntax_kind where "REFERENCE_KW \<equiv> 92"
abbreviation (input) RECORD_KW :: syntax_kind where "RECORD_KW \<equiv> 93"
abbreviation (input) COMPUTE_KW :: syntax_kind where "COMPUTE_KW \<equiv> 94"
abbreviation (input) TYPE_KW :: syntax_kind where "TYPE_KW \<equiv> 95"
abbreviation (input) SET_KW :: syntax_kind where "SET_KW \<equiv> 96"
abbreviation (input) RANGE_KW :: syntax_kind where "RANGE_KW \<equiv> 97"
abbreviation (input) UNITS_KW :: syntax_kind where "UNITS_KW \<equiv> 98"
abbreviation (input) ENUMERATION_KW :: syntax_kind where "ENUMERATION_KW \<equiv> 99"
abbreviation (input) LIST_KW :: syntax_kind where "LIST_KW \<equiv> 100"
abbreviation (input) AADLBOOLEAN_KW :: syntax_kind where "AADLBOOLEAN_KW \<equiv> 101"
abbreviation (input) AADLINTEGER_KW :: syntax_kind where "AADLINTEGER_KW \<equiv> 102"
abbreviation (input) AADLREAL_KW :: syntax_kind where "AADLREAL_KW \<equiv> 103"
abbreviation (input) AADLSTRING_KW :: syntax_kind where "AADLSTRING_KW \<equiv> 104"
abbreviation (input) PROPERTY_KW :: syntax_kind where "PROPERTY_KW \<equiv> 105"
abbreviation (input) TRUE_KW :: syntax_kind where "TRUE_KW \<equiv> 106"
abbreviation (input) FALSE_KW :: syntax_kind where "FALSE_KW \<equiv> 107"
abbreviation (input) NOT_KW :: syntax_kind where "NOT_KW \<equiv> 108"
abbreviation (input) AND_KW :: syntax_kind where "AND_KW \<equiv> 109"
abbreviation (input) OR_KW :: syntax_kind where "OR_KW \<equiv> 110"
abbreviation (input) REFINED_KW :: syntax_kind where "REFINED_KW \<equiv> 111"
abbreviation (input) SELF_KW :: syntax_kind where "SELF_KW \<equiv> 112"
abbreviation (input) INTERFACE_KW :: syntax_kind where "INTERFACE_KW \<equiv> 113"
abbreviation (input) FILE_KW :: syntax_kind where "FILE_KW \<equiv> 114"
abbreviation (input) SOURCE_FILE :: syntax_kind where "SOURCE_FILE \<equiv> 115"
abbreviation (input) AADL_PACKAGE :: syntax_kind where "AADL_PACKAGE \<equiv> 116"
abbreviation (input) PUBLIC_SECTION :: syntax_kind where "PUBLIC_SECTION \<equiv> 117"
abbreviation (input) PRIVATE_SECTION :: syntax_kind where "PRIVATE_SECTION \<equiv> 118"
abbreviation (input) WITH_CLAUSE :: syntax_kind where "WITH_CLAUSE \<equiv> 119"
abbreviation (input) NAME :: syntax_kind where "NAME \<equiv> 120"
abbreviation (input) QUALIFIED_NAME :: syntax_kind where "QUALIFIED_NAME \<equiv> 121"
abbreviation (input) NAME_LIST :: syntax_kind where "NAME_LIST \<equiv> 122"
abbreviation (input) PACKAGE_PROPERTIES :: syntax_kind where "PACKAGE_PROPERTIES \<equiv> 123"
abbreviation (input) RENAMES_CLAUSE :: syntax_kind where "RENAMES_CLAUSE \<equiv> 124"
abbreviation (input) COMPONENT_TYPE :: syntax_kind where "COMPONENT_TYPE \<equiv> 125"
abbreviation (input) COMPONENT_IMPL :: syntax_kind where "COMPONENT_IMPL \<equiv> 126"
abbreviation (input) COMPONENT_CATEGORY :: syntax_kind where "COMPONENT_CATEGORY \<equiv> 127"
abbreviation (input) TYPE_EXTENSION :: syntax_kind where "TYPE_EXTENSION \<equiv> 128"
abbreviation (input) IMPL_EXTENSION :: syntax_kind where "IMPL_EXTENSION \<equiv> 129"
abbreviation (input) REALIZATION :: syntax_kind where "REALIZATION \<equiv> 130"
abbreviation (input) PROTOTYPE_SECTION :: syntax_kind where "PROTOTYPE_SECTION \<equiv> 131"
abbreviation (input) PROTOTYPE :: syntax_kind where "PROTOTYPE \<equiv> 132"
abbreviation (input) PROTOTYPE_BINDING :: syntax_kind where "PROTOTYPE_BINDING \<equiv> 133"
abbreviation (input) PROTOTYPE_BINDING_LIST :: syntax_kind where "PROTOTYPE_BINDING_LIST \<equiv> 134"
abbreviation (input) FEATURE_SECTION :: syntax_kind where "FEATURE_SECTION \<equiv> 135"
abbreviation (input) DATA_PORT :: syntax_kind where "DATA_PORT \<equiv> 136"
abbreviation (input) EVENT_PORT :: syntax_kind where "EVENT_PORT \<equiv> 137"
abbreviation (input) EVENT_DATA_PORT :: syntax_kind where "EVENT_DATA_PORT \<equiv> 138"
abbreviation (input) PARAMETER :: syntax_kind where "PARAMETER \<equiv> 139"
abbreviation (input) DATA_ACCESS :: syntax_kind where "DATA_ACCESS \<equiv> 140"
abbreviation (input) BUS_ACCESS :: syntax_kind where "BUS_ACCESS \<equiv> 141"
abbreviation (input) SUBPROGRAM_ACCESS :: syntax_kind where "SUBPROGRAM_ACCESS \<equiv> 142"
abbreviation (input) SUBPROGRAM_GROUP_ACCESS :: syntax_kind where "SUBPROGRAM_GROUP_ACCESS \<equiv> 143"
abbreviation (input) FEATURE_GROUP :: syntax_kind where "FEATURE_GROUP \<equiv> 144"
abbreviation (input) ABSTRACT_FEATURE :: syntax_kind where "ABSTRACT_FEATURE \<equiv> 145"
abbreviation (input) FEATURE_GROUP_TYPE :: syntax_kind where "FEATURE_GROUP_TYPE \<equiv> 146"
abbreviation (input) DIRECTION :: syntax_kind where "DIRECTION \<equiv> 147"
abbreviation (input) SUBCOMPONENT_SECTION :: syntax_kind where "SUBCOMPONENT_SECTION \<equiv> 148"
abbreviation (input) SUBCOMPONENT :: syntax_kind where "SUBCOMPONENT \<equiv> 149"
abbreviation (input) CONNECTION_SECTION :: syntax_kind where "CONNECTION_SECTION \<equiv> 150"
abbreviation (input) PORT_CONNECTION :: syntax_kind where "PORT_CONNECTION \<equiv> 151"
abbreviation (input) ACCESS_CONNECTION :: syntax_kind where "ACCESS_CONNECTION \<equiv> 152"
abbreviation (input) FEATURE_GROUP_CONNECTION :: syntax_kind where "FEATURE_GROUP_CONNECTION \<equiv> 153"
abbreviation (input) FEATURE_CONNECTION :: syntax_kind where "FEATURE_CONNECTION \<equiv> 154"
abbreviation (input) PARAMETER_CONNECTION :: syntax_kind where "PARAMETER_CONNECTION \<equiv> 155"
abbreviation (input) CONNECTED_ELEMENT :: syntax_kind where "CONNECTED_ELEMENT \<equiv> 156"
abbreviation (input) FLOW_SPEC_SECTION :: syntax_kind where "FLOW_SPEC_SECTION \<equiv> 157"
abbreviation (input) FLOW_SPEC :: syntax_kind where "FLOW_SPEC \<equiv> 158"
abbreviation (input) FLOW_KIND :: syntax_kind where "FLOW_KIND \<equiv> 159"
abbreviation (input) FLOW_END :: syntax_kind where "FLOW_END \<equiv> 160"
abbreviation (input) FLOW_IMPL_SECTION :: syntax_kind where "FLOW_IMPL_SECTION \<equiv> 161"
abbreviation (input) FLOW_IMPL :: syntax_kind where "FLOW_IMPL \<equiv> 162"
abbreviation (input) END_TO_END_FLOW :: syntax_kind where "END_TO_END_FLOW \<equiv> 163"
abbreviation (input) FLOW_SEGMENT :: syntax_kind where "FLOW_SEGMENT \<equiv> 164"
abbreviation (input) MODE_SECTION :: syntax_kind where "MODE_SECTION \<equiv> 165"
abbreviation (input) MODE :: syntax_kind where "MODE \<equiv> 166"
abbreviation (input) MODE_TRANSITION :: syntax_kind where "MODE_TRANSITION \<equiv> 167"
abbreviation (input) MODE_TRIGGER :: syntax_kind where "MODE_TRIGGER \<equiv> 168"
abbreviation (input) PROPERTY_SECTION :: syntax_kind where "PROPERTY_SECTION \<equiv> 169"
abbreviation (input) PROPERTY_ASSOCIATION :: syntax_kind where "PROPERTY_ASSOCIATION \<equiv> 170"
abbreviation (input) PROPERTY_REF :: syntax_kind where "PROPERTY_REF \<equiv> 171"
abbreviation (input) APPLIES_TO :: syntax_kind where "APPLIES_TO \<equiv> 172"
abbreviation (input) CONTAINMENT_PATH :: syntax_kind where "CONTAINMENT_PATH \<equiv> 173"
abbreviation (input) IN_BINDING :: syntax_kind where "IN_BINDING \<equiv> 174"
abbreviation (input) MODAL_PROPERTY_VALUE :: syntax_kind where "MODAL_PROPERTY_VALUE \<equiv> 175"
abbreviation (input) PROPERTY_SET :: syntax_kind where "PROPERTY_SET \<equiv> 176"
abbreviation (input) PROPERTY_DEFINITION :: syntax_kind where "PROPERTY_DEFINITION \<equiv> 177"
abbreviation (input) PROPERTY_TYPE :: syntax_kind where "PROPERTY_TYPE \<equiv> 178"
abbreviation (input) PROPERTY_CONSTANT :: syntax_kind where "PROPERTY_CONSTANT \<equiv> 179"
abbreviation (input) PROPERTY_TYPE_DECL :: syntax_kind where "PROPERTY_TYPE_DECL \<equiv> 180"
abbreviation (input) PROPERTY_EXPRESSION :: syntax_kind where "PROPERTY_EXPRESSION \<equiv> 181"
abbreviation (input) BOOLEAN_VALUE :: syntax_kind where "BOOLEAN_VALUE \<equiv> 182"
abbreviation (input) INTEGER_VALUE :: syntax_kind where "INTEGER_VALUE \<equiv> 183"
abbreviation (input) REAL_VALUE :: syntax_kind where "REAL_VALUE \<equiv> 184"
abbreviation (input) STRING_VALUE :: syntax_kind where "STRING_VALUE \<equiv> 185"
abbreviation (input) RECORD_VALUE :: syntax_kind where "RECORD_VALUE \<equiv> 186"
abbreviation (input) RECORD_FIELD :: syntax_kind where "RECORD_FIELD \<equiv> 187"
abbreviation (input) LIST_VALUE :: syntax_kind where "LIST_VALUE \<equiv> 188"
abbreviation (input) RANGE_VALUE :: syntax_kind where "RANGE_VALUE \<equiv> 189"
abbreviation (input) DELTA_VALUE :: syntax_kind where "DELTA_VALUE \<equiv> 190"
abbreviation (input) UNIT_VALUE :: syntax_kind where "UNIT_VALUE \<equiv> 191"
abbreviation (input) BINARY_EXPR :: syntax_kind where "BINARY_EXPR \<equiv> 192"
abbreviation (input) REFERENCE_VALUE :: syntax_kind where "REFERENCE_VALUE \<equiv> 193"
abbreviation (input) CLASSIFIER_VALUE :: syntax_kind where "CLASSIFIER_VALUE \<equiv> 194"
abbreviation (input) COMPUTED_VALUE :: syntax_kind where "COMPUTED_VALUE \<equiv> 195"
abbreviation (input) FILE_REFERENCE :: syntax_kind where "FILE_REFERENCE \<equiv> 196"
abbreviation (input) CLASSIFIER_REF :: syntax_kind where "CLASSIFIER_REF \<equiv> 197"
abbreviation (input) ANNEX_SUBCLAUSE :: syntax_kind where "ANNEX_SUBCLAUSE \<equiv> 198"
abbreviation (input) ANNEX_LIBRARY :: syntax_kind where "ANNEX_LIBRARY \<equiv> 199"
abbreviation (input) ANNEX_TEXT :: syntax_kind where "ANNEX_TEXT \<equiv> 200"
abbreviation (input) ARRAY_DIMENSION :: syntax_kind where "ARRAY_DIMENSION \<equiv> 201"
abbreviation (input) ARRAY_SIZE :: syntax_kind where "ARRAY_SIZE \<equiv> 202"
abbreviation (input) CALL_SECTION :: syntax_kind where "CALL_SECTION \<equiv> 203"
abbreviation (input) CALL_SEQUENCE :: syntax_kind where "CALL_SEQUENCE \<equiv> 204"
abbreviation (input) SUBPROGRAM_CALL :: syntax_kind where "SUBPROGRAM_CALL \<equiv> 205"
abbreviation (input) INTERNAL_FEATURES_SECTION :: syntax_kind where "INTERNAL_FEATURES_SECTION \<equiv> 206"
abbreviation (input) PROCESSOR_FEATURES_SECTION :: syntax_kind where "PROCESSOR_FEATURES_SECTION \<equiv> 207"
abbreviation (input) EVENT_SOURCE :: syntax_kind where "EVENT_SOURCE \<equiv> 208"
abbreviation (input) EVENT_DATA_SOURCE :: syntax_kind where "EVENT_DATA_SOURCE \<equiv> 209"
abbreviation (input) PORT_PROXY :: syntax_kind where "PORT_PROXY \<equiv> 210"
abbreviation (input) SUBPROGRAM_PROXY :: syntax_kind where "SUBPROGRAM_PROXY \<equiv> 211"
abbreviation (input) REFINED_TO :: syntax_kind where "REFINED_TO \<equiv> 212"

definition is_trivia :: "syntax_kind \<Rightarrow> bool" where
  "is_trivia k \<longleftrightarrow> k = WHITESPACE \<or> k = COMMENT"

definition is_keyword :: "syntax_kind \<Rightarrow> bool" where
  "is_keyword k \<longleftrightarrow> PACKAGE_KW \<le> k \<and> k \<le> FILE_KW"

definition is_punct :: "syntax_kind \<Rightarrow> bool" where
  "is_punct k \<longleftrightarrow> SEMICOLON \<le> k \<and> k \<le> BRACKET_ARROW"

definition is_literal :: "syntax_kind \<Rightarrow> bool" where
  "is_literal k \<longleftrightarrow> k = INTEGER_LIT \<or> k = REAL_LIT \<or> k = STRING_LIT"

definition is_component_category_kw :: "syntax_kind \<Rightarrow> bool" where
  "is_component_category_kw k \<longleftrightarrow>
     k = SYSTEM_KW \<or> k = PROCESS_KW \<or> k = THREAD_KW \<or> k = PROCESSOR_KW \<or> k = VIRTUAL_KW \<or> k = BUS_KW
     \<or> k = MEMORY_KW \<or> k = DEVICE_KW \<or> k = SUBPROGRAM_KW \<or> k = DATA_KW \<or> k = ABSTRACT_KW"

definition keywords_table :: "(string \<times> syntax_kind) list" where
  "keywords_table = [
    (''package'', PACKAGE_KW), (''public'', PUBLIC_KW), (''private'', PRIVATE_KW), (''with'', WITH_KW),
    (''end'', END_KW), (''none'', NONE_KW), (''renames'', RENAMES_KW), (''system'', SYSTEM_KW),
    (''process'', PROCESS_KW), (''thread'', THREAD_KW), (''group'', GROUP_KW), (''processor'', PROCESSOR_KW),
    (''virtual'', VIRTUAL_KW), (''bus'', BUS_KW), (''memory'', MEMORY_KW), (''device'', DEVICE_KW),
    (''subprogram'', SUBPROGRAM_KW), (''data'', DATA_KW), (''abstract'', ABSTRACT_KW), (''implementation'', IMPLEMENTATION_KW),
    (''extends'', EXTENDS_KW), (''prototypes'', PROTOTYPES_KW), (''features'', FEATURES_KW), (''flows'', FLOWS_KW),
    (''connections'', CONNECTIONS_KW), (''modes'', MODES_KW), (''properties'', PROPERTIES_KW), (''subcomponents'', SUBCOMPONENTS_KW),
    (''annex'', ANNEX_KW), (''calls'', CALLS_KW), (''internal'', INTERNAL_KW), (''in'', IN_KW),
    (''out'', OUT_KW), (''port'', PORT_KW), (''event'', EVENT_KW), (''access'', ACCESS_KW),
    (''provides'', PROVIDES_KW), (''requires'', REQUIRES_KW), (''feature'', FEATURE_KW), (''parameter'', PARAMETER_KW),
    (''inverse'', INVERSE_KW), (''of'', OF_KW), (''flow'', FLOW_KW), (''source'', SOURCE_KW),
    (''sink'', SINK_KW), (''path'', PATH_KW), (''initial'', INITIAL_KW), (''mode'', MODE_KW),
    (''transition'', TRANSITION_KW), (''constant'', CONSTANT_KW), (''applies'', APPLIES_KW), (''to'', TO_KW),
    (''inherit'', INHERIT_KW), (''delta'', DELTA_KW), (''is'', IS_KW), (''all'', ALL_KW),
    (''binding'', BINDING_KW), (''classifier'', CLASSIFIER_KW), (''reference'', REFERENCE_KW), (''record'', RECORD_KW),
    (''compute'', COMPUTE_KW), (''type'', TYPE_KW), (''set'', SET_KW), (''range'', RANGE_KW),
    (''units'', UNITS_KW), (''enumeration'', ENUMERATION_KW), (''list'', LIST_KW), (''aadlboolean'', AADLBOOLEAN_KW),
    (''aadlinteger'', AADLINTEGER_KW), (''aadlreal'', AADLREAL_KW), (''aadlstring'', AADLSTRING_KW), (''property'', PROPERTY_KW),
    (''true'', TRUE_KW), (''false'', FALSE_KW), (''not'', NOT_KW), (''and'', AND_KW),
    (''or'', OR_KW), (''refined'', REFINED_KW), (''self'', SELF_KW), (''interface'', INTERFACE_KW),
    (''file'', FILE_KW)]"

definition from_keyword :: "string \<Rightarrow> syntax_kind option" where
  "from_keyword s = map_of keywords_table s"

section \<open>Token sets\<close>

unbundle bit_operations_syntax

record token_set =
  ts_lo :: "64 word"
  ts_hi :: "64 word"

definition token_set_EMPTY :: token_set where
  "token_set_EMPTY = \<lparr>ts_lo = 0, ts_hi = 0\<rparr>"

definition token_set_insert :: "syntax_kind \<Rightarrow> token_set \<Rightarrow> token_set" where
  "token_set_insert k s =
     (if k < 64 then s\<lparr>ts_lo := ts_lo s OR push_bit k 1\<rparr>
      else if k < 128 then s\<lparr>ts_hi := ts_hi s OR push_bit (k - 64) 1\<rparr>
      else s)"

definition token_set_new :: "syntax_kind list \<Rightarrow> token_set" where
  "token_set_new kinds = fold token_set_insert kinds token_set_EMPTY"

definition token_set_union :: "token_set \<Rightarrow> token_set \<Rightarrow> token_set" where
  "token_set_union a b = \<lparr>ts_lo = ts_lo a OR ts_lo b, ts_hi = ts_hi a OR ts_hi b\<rparr>"

definition token_set_contains :: "token_set \<Rightarrow> syntax_kind \<Rightarrow> bool" where
  "token_set_contains s k =
     (if k < 64 then ts_lo s AND push_bit k 1 \<noteq> 0
      else if k < 128 then ts_hi s AND push_bit (k - 64) 1 \<noteq> 0
      else False)"

lemma mask_bit_iff: "w AND push_bit n 1 \<noteq> (0 :: 64 word) \<longleftrightarrow> n < 64 \<and> bit w n"
  unfolding bit_eq_iff [where 'a = "64 word"] by (auto simp: bit_simps)

lemma contains_iff: "token_set_contains s k \<longleftrightarrow> (k < 64 \<and> bit (ts_lo s) k) \<or> (64 \<le> k \<and> k < 128 \<and> bit (ts_hi s) (k - 64))"
  unfolding token_set_contains_def mask_bit_iff by auto

lemma contains_EMPTY [simp]: "\<not> token_set_contains token_set_EMPTY k"
  by (simp add: contains_iff token_set_EMPTY_def)

lemma contains_insert: "token_set_contains (token_set_insert b s) k \<longleftrightarrow> token_set_contains s k \<or> (k = b \<and> b < 128)"
  by (auto simp: contains_iff token_set_insert_def bit_simps)

text \<open>A token set answers for the kinds it was built from, as long as they are among the first 128, which
  all token kinds are.\<close>

lemma contains_new: "token_set_contains (token_set_new ks) k \<longleftrightarrow> k \<in> set ks \<and> k < 128"
proof -
  have "token_set_contains (fold token_set_insert ks s) k \<longleftrightarrow> token_set_contains s k \<or> (k \<in> set ks \<and> k < 128)" for s
    by (induction ks arbitrary: s) (auto simp: contains_insert)
  then show ?thesis by (simp add: token_set_new_def)
qed

lemma contains_union: "token_set_contains (token_set_union a b) k \<longleftrightarrow> token_set_contains a k \<or> token_set_contains b k"
  by (auto simp: contains_iff token_set_union_def bit_simps)

end
