(* ===== verification/Aadl_Lexer.thy ===== *)
theory Aadl_Lexer
  imports Syntax_Kind
begin

text \<open>
  The lexer, \<^verbatim>\<open>crates/spar-parser/src/lexer.rs\<close>. The input is the list of its bytes: here a \<open>char\<close> is a
  byte. The cursor is the input and a position; a scanning function takes the position and returns the one
  it leaves the cursor at. \<^verbatim>\<open>&str\<close> slices panic off a character boundary, which is \<open>None\<close>; \<open>utf8\<close> is the
  invariant of the type \<^verbatim>\<open>str\<close>. The property shows that on every such input the lexer ends without a panic
  and splits the input into tokens without loss.
\<close>

section \<open>Bytes\<close>

abbreviation byte :: "char \<Rightarrow> nat" where
  "byte c \<equiv> of_char c"

definition is_continuation :: "char \<Rightarrow> bool" where
  "is_continuation c \<longleftrightarrow> 128 \<le> byte c \<and> byte c < 192"

definition char_width :: "char \<Rightarrow> nat" where
  "char_width c = (if byte c < 128 then 1 else if byte c < 224 then 2 else if byte c < 240 then 3 else 4)"

text \<open>The well-formed byte sequences of UTF-8: no overlong forms, no surrogates, nothing above U+10FFFF.\<close>

definition well_formed_char :: "char \<Rightarrow> string \<Rightarrow> bool" where
  "well_formed_char c cs \<longleftrightarrow>
     char_width c - 1 \<le> length cs \<and> list_all is_continuation (take (char_width c - 1) cs) \<and>
     (let b = byte c; b1 = byte (hd cs) in
      b < 128 \<or> 194 \<le> b \<and> b \<le> 244 \<and> (b = 224 \<longrightarrow> 160 \<le> b1) \<and> (b = 237 \<longrightarrow> b1 \<le> 159)
        \<and> (b = 240 \<longrightarrow> 144 \<le> b1) \<and> (b = 244 \<longrightarrow> b1 \<le> 143))"

function utf8 :: "string \<Rightarrow> bool" where
  "utf8 [] \<longleftrightarrow> True"
| "utf8 (c # cs) \<longleftrightarrow> well_formed_char c cs \<and> utf8 (drop (char_width c - 1) cs)"
  by pat_completeness auto
termination by (relation "measure length") (simp_all add: less_Suc_eq_le)

definition is_char_boundary :: "string \<Rightarrow> nat \<Rightarrow> bool" where
  "is_char_boundary s i \<longleftrightarrow> i = 0 \<or> i = length s \<or> (i < length s \<and> \<not> is_continuation (s ! i))"

definition slice :: "string \<Rightarrow> nat \<Rightarrow> nat \<Rightarrow> string option" where
  "slice s a b = (if a \<le> b \<and> is_char_boundary s a \<and> is_char_boundary s b then Some (take (b - a) (drop a s)) else None)"

section \<open>Cursor\<close>

definition peek :: "string \<Rightarrow> nat \<Rightarrow> nat \<Rightarrow> char" where
  "peek s i n = (if i + n < length s then s ! (i + n) else CHR 0x00)"

definition bump_char :: "string \<Rightarrow> nat \<Rightarrow> nat option" where
  "bump_char s i =
     (if i < length s then if is_char_boundary s i then Some (i + char_width (s ! i)) else None
      else Some i)"

text \<open>The loops \<^verbatim>\<open>while !c.is_eof() && p(c.current()) { c.bump() }\<close>.\<close>

function bump_while :: "(char \<Rightarrow> bool) \<Rightarrow> string \<Rightarrow> nat \<Rightarrow> nat" where
  "bump_while P s i = (if i < length s \<and> P (s ! i) then bump_while P s (Suc i) else i)"
  by auto
termination by (relation "measure (\<lambda>(P, s, i). length s - i)") auto

declare bump_while.simps [simp del]

section \<open>Scanning\<close>

definition is_space_byte :: "char \<Rightarrow> bool" where
  "is_space_byte c \<longleftrightarrow> byte c = 32 \<or> byte c = 9 \<or> byte c = 13 \<or> byte c = 10"

definition is_digit :: "char \<Rightarrow> bool" where
  "is_digit c \<longleftrightarrow> 48 \<le> byte c \<and> byte c \<le> 57"

definition is_ident_start :: "char \<Rightarrow> bool" where
  "is_ident_start c \<longleftrightarrow> 65 \<le> byte c \<and> byte c \<le> 90 \<or> 97 \<le> byte c \<and> byte c \<le> 122 \<or> c = CHR ''_''"

definition is_ident_continue :: "char \<Rightarrow> bool" where
  "is_ident_continue c \<longleftrightarrow> is_ident_start c \<or> is_digit c"

definition is_hex_digit :: "char \<Rightarrow> bool" where
  "is_hex_digit c \<longleftrightarrow> is_digit c \<or> 65 \<le> byte c \<and> byte c \<le> 70 \<or> 97 \<le> byte c \<and> byte c \<le> 102"

definition is_radix_digit :: "char \<Rightarrow> nat \<Rightarrow> bool" where
  "is_radix_digit c radix \<longleftrightarrow> to_digit radix c \<noteq> None"

definition scan_whitespace :: "string \<Rightarrow> nat \<Rightarrow> nat" where
  "scan_whitespace s i = bump_while is_space_byte s i"

definition scan_comment :: "string \<Rightarrow> nat \<Rightarrow> nat" where
  "scan_comment s i = bump_while (\<lambda>c. c \<noteq> CHR 0x0A) s (i + 2)"

function scan_string_loop :: "string \<Rightarrow> nat \<Rightarrow> nat" where
  "scan_string_loop s i =
     (if i < length s
      then if s ! i = CHR 0x22
           then if peek s i 1 = CHR 0x22 then scan_string_loop s (i + 2) else i + 1
           else scan_string_loop s (i + 1)
      else i)"
  by auto
termination by (relation "measure (\<lambda>(s, i). length s - i)") auto

declare scan_string_loop.simps [simp del]

definition scan_string :: "string \<Rightarrow> nat \<Rightarrow> nat" where
  "scan_string s i = scan_string_loop s (i + 1)"

definition at_byte :: "(char \<Rightarrow> bool) \<Rightarrow> string \<Rightarrow> nat \<Rightarrow> bool" where
  "at_byte P s i \<longleftrightarrow> i < length s \<and> P (s ! i)"

definition is_exponent :: "char \<Rightarrow> bool" where
  "is_exponent c \<longleftrightarrow> c = CHR ''e'' \<or> c = CHR ''E''"

text \<open>The exponent at an \<open>e\<close>: its sign and digits.\<close>

definition scan_exponent :: "string \<Rightarrow> nat \<Rightarrow> nat" where
  "scan_exponent s i =
     (let i = i + 1;
          i = (if at_byte (\<lambda>c. c = CHR ''+'' \<or> c = CHR ''-'') s i then i + 1 else i)
      in bump_while is_digit s i)"

definition radix_of :: "char \<Rightarrow> nat" where
  "radix_of c =
     (if c = CHR ''x'' \<or> c = CHR ''X'' then 16 else if c = CHR ''o'' \<or> c = CHR ''O'' then 8
      else if c = CHR ''b'' \<or> c = CHR ''B'' then 2 else 0)"

definition scan_based :: "string \<Rightarrow> nat \<Rightarrow> syntax_kind \<times> nat" where
  "scan_based s i =
     (let j = i + 1;
          k = bump_while (\<lambda>c. is_hex_digit c \<or> c = CHR ''.'' \<or> c = CHR ''_'') s j;
          is_real = list_ex (\<lambda>c. c = CHR ''.'') (take (k - j) (drop j s));
          k = (if at_byte (\<lambda>c. c = CHR ''#'') s k then k + 1 else k)
      in if at_byte is_exponent s k then (REAL_LIT, scan_exponent s k)
         else (if is_real then REAL_LIT else INTEGER_LIT, k))"

definition scan_number :: "string \<Rightarrow> nat \<Rightarrow> syntax_kind \<times> nat" where
  "scan_number s start =
     (let i = bump_while is_digit s start
      in if i - start = 1 \<and> s ! start = CHR ''0'' \<and> i < length s
            \<and> radix_of (s ! i) \<noteq> 0 \<and> is_radix_digit (peek s i 1) (radix_of (s ! i))
         then (ERROR, bump_while is_ident_continue s (i + 1))
         else if at_byte (\<lambda>c. c = CHR ''#'') s i then scan_based s i
         else if at_byte (\<lambda>c. c = CHR ''.'') s i \<and> peek s i 1 \<noteq> CHR ''.''
         then (let j = bump_while is_digit s (i + 1)
               in (REAL_LIT, if at_byte is_exponent s j then scan_exponent s j else j))
         else if at_byte is_exponent s i then (REAL_LIT, scan_exponent s i)
         else (INTEGER_LIT, bump_while (\<lambda>c. is_digit c \<or> c = CHR ''_'') s i))"

definition scan_ident_or_keyword :: "string \<Rightarrow> nat \<Rightarrow> nat \<Rightarrow> (syntax_kind \<times> nat) option" where
  "scan_ident_or_keyword s start i =
     (let j = bump_while is_ident_continue s i
      in map_option (\<lambda>text. (case from_keyword (to_ascii_lowercase text) of Some k \<Rightarrow> k | None \<Rightarrow> IDENT, j)) (slice s start j))"

section \<open>Tokens\<close>

text \<open>Punctuation, the longest first: its bytes and its kind.\<close>

definition punctuation :: "(string \<times> syntax_kind) list" where
  "punctuation = [(''{**'', ANNEX_OPEN), (''**}'', ANNEX_CLOSE), (''+=>'', PLUS_ARROW), ('']->'', BRACKET_ARROW),
    (''<->'', BIDI_ARROW), (''->'', ARROW), (''-['', DASH_BRACKET), (''=>'', FAT_ARROW), (''..'', DOT_DOT),
    (''::'', COLON_COLON), ('';'', SEMICOLON), ('':'', COLON), ('','', COMMA), (''.'', DOT), (''('', L_PAREN),
    ('')'', R_PAREN), (''{'', L_CURLY), (''}'', R_CURLY), (''['', L_BRACKET), ('']'', R_BRACKET), (''+'', PLUS),
    (''-'', MINUS), (''*'', STAR), (''/'', SLASH), (''#'', HASH)]"

definition scan_punct :: "string \<Rightarrow> nat \<Rightarrow> (syntax_kind \<times> nat) option" where
  "scan_punct s i =
     (case find (\<lambda>(text, k). take (length text) (drop i s) = text) punctuation of
        Some (text, k) \<Rightarrow> Some (k, i + length text)
      | None \<Rightarrow> map_option (Pair ERROR) (bump_char s i))"

definition scan_token :: "string \<Rightarrow> nat \<Rightarrow> ((syntax_kind \<times> string) \<times> nat) option" where
  "scan_token s i = do {
     let c = peek s i 0;
     (kind, j) \<leftarrow>
       (if is_space_byte c then Some (WHITESPACE, scan_whitespace s i)
        else if c = CHR ''-'' \<and> peek s i 1 = CHR ''-'' then Some (COMMENT, scan_comment s i)
        else if c = CHR 0x22 then Some (STRING_LIT, scan_string s i)
        else if is_digit c then Some (scan_number s i)
        else if is_ident_start c then scan_ident_or_keyword s i (i + 1)
        else scan_punct s i);
     text \<leftarrow> slice s i j;
     Some ((kind, text), j) }"

lemma bump_while_ge: "i \<le> bump_while P s i"
proof (induction P s i rule: bump_while.induct)
  case (1 P s i)
  then show ?case by (subst bump_while.simps) (auto dest: Suc_leD)
qed

lemma bump_while_step: "i < length s \<Longrightarrow> P (s ! i) \<Longrightarrow> Suc i \<le> bump_while P s i"
  by (subst bump_while.simps) (simp add: bump_while_ge)

lemma scan_string_loop_ge: "i \<le> scan_string_loop s i"
proof (induction s i rule: scan_string_loop.induct)
  case (1 s i)
  then show ?case by (subst scan_string_loop.simps) (auto dest: Suc_leD)
qed

lemma bump_while_less: "i < j \<Longrightarrow> i < bump_while P s j"
  using bump_while_ge less_le_trans by blast

lemma scan_exponent_less: "i \<le> j \<Longrightarrow> i < scan_exponent s j"
  by (simp add: scan_exponent_def Let_def bump_while_less)

lemmas scan_less = bump_while_less scan_exponent_less less_imp_le

lemma scan_based_less: "i \<le> j \<Longrightarrow> i < snd (scan_based s j)"
proof -
  assume "i \<le> j"
  then have "i < bump_while P s (Suc j)" for P by (simp add: bump_while_less)
  then show ?thesis by (auto simp: scan_based_def Let_def intro!: scan_exponent_less less_SucI intro: less_imp_le)
qed

lemma scan_number_less:
  assumes "i < length s" "is_digit (s ! i)"
  shows "i < snd (scan_number s i)"
proof -
  have "i < bump_while is_digit s i" using bump_while_step [OF assms(1), of is_digit] assms(2) by simp
  then show ?thesis by (auto simp: scan_number_def Let_def intro!: scan_less scan_based_less less_SucI)
qed

lemma scan_punct_ge:
  assumes "scan_punct s i = Some (k, j)" "i < length s"
  shows "i < j"
proof (cases "find (\<lambda>(text, k). take (length text) (drop i s) = text) punctuation")
  case None
  then show ?thesis using assms by (auto simp: scan_punct_def bump_char_def char_width_def split: if_splits)
next
  case (Some x)
  then have "x \<in> set punctuation" unfolding find_Some_iff by (metis nth_mem)
  then have "fst x \<noteq> []" by (auto simp: punctuation_def)
  then show ?thesis using assms Some by (auto simp: scan_punct_def split: prod.splits)
qed

lemma scan_token_progress:
  assumes "scan_token s i = Some (t, j)" "i < length s"
  shows "i < j"
  using assms bump_while_step [of i s is_space_byte] bump_while_ge [of "i + 2" "\<lambda>c. c \<noteq> CHR 0x0A" s]
    scan_string_loop_ge [of "i + 1" s] scan_number_less [of i s] bump_while_ge [of "i + 1" is_ident_continue s]
  by (auto simp: scan_token_def Let_def peek_def scan_whitespace_def scan_comment_def scan_string_def
      scan_ident_or_keyword_def bind_eq_Some_conv dest: scan_punct_ge split: if_splits)

function lex_from :: "string \<Rightarrow> nat \<Rightarrow> (syntax_kind \<times> string) list option" where
  "lex_from s i =
     (if i < length s
      then case scan_token s i of None \<Rightarrow> None | Some (t, j) \<Rightarrow> map_option (Cons t) (lex_from s j)
      else Some [])"
  by auto
termination by (relation "measure (\<lambda>(s, i). length s - i)") (auto dest: scan_token_progress)

definition lex :: "string \<Rightarrow> (syntax_kind \<times> string) list option" where
  "lex s = lex_from s 0"

function tokenize_from :: "string \<Rightarrow> nat \<Rightarrow> (syntax_kind \<times> nat) list option" where
  "tokenize_from s i =
     (if i < length s
      then case scan_token s i of
             None \<Rightarrow> None
           | Some ((kind, _), j) \<Rightarrow> map_option (Cons (kind, j - i)) (tokenize_from s j)
      else Some [])"
  by auto
termination by (relation "measure (\<lambda>(s, i). length s - i)") (auto dest: scan_token_progress)

definition tokenize :: "string \<Rightarrow> (syntax_kind \<times> nat) list option" where
  "tokenize s = tokenize_from s 0"

text \<open>\<^verbatim>\<open>LexedStr\<close>: the kind and the start of every token, the start cut to 32 bits.\<close>

function lexed_from :: "string \<Rightarrow> nat \<Rightarrow> (syntax_kind \<times> nat) list option" where
  "lexed_from s i =
     (if i < length s
      then case scan_token s i of
             None \<Rightarrow> None
           | Some ((kind, _), j) \<Rightarrow> map_option (Cons (kind, i mod 2 ^ 32)) (lexed_from s j)
      else Some [])"
  by auto
termination by (relation "measure (\<lambda>(s, i). length s - i)") (auto dest: scan_token_progress)

record lexed_str =
  ls_input :: string
  ls_tokens :: "(syntax_kind \<times> nat) list"

definition lexed_str_new :: "string \<Rightarrow> lexed_str option" where
  "lexed_str_new s = map_option (\<lambda>ts. \<lparr>ls_input = s, ls_tokens = ts\<rparr>) (lexed_from s 0)"

definition ls_text_range :: "lexed_str \<Rightarrow> nat \<Rightarrow> (nat \<times> nat) option" where
  "ls_text_range l index =
     (if index < length (ls_tokens l)
      then Some (snd (ls_tokens l ! index),
                 if index + 1 < length (ls_tokens l) then snd (ls_tokens l ! (index + 1)) else length (ls_input l))
      else None)"

definition ls_text :: "lexed_str \<Rightarrow> nat \<Rightarrow> string option" where
  "ls_text l index = Option.bind (ls_text_range l index) (\<lambda>(a, b). slice (ls_input l) a b)"

declare lex_from.simps [simp del] tokenize_from.simps [simp del] lexed_from.simps [simp del]

section \<open>Character boundaries\<close>

lemma continuation_not_lead: "well_formed_char c cs \<Longrightarrow> \<not> is_continuation c"
  by (auto simp: well_formed_char_def is_continuation_def Let_def)

lemma boundary_le: "is_char_boundary s i \<Longrightarrow> i \<le> length s"
  by (auto simp: is_char_boundary_def)

lemma boundary_0 [simp]: "is_char_boundary s 0"
  by (simp add: is_char_boundary_def)

lemma boundary_length [simp]: "is_char_boundary s (length s)"
  by (simp add: is_char_boundary_def)

lemma utf8_drop:
  assumes "utf8 s" "is_char_boundary s i"
  shows "utf8 (drop i s)"
  using assms
proof (induction s arbitrary: i rule: utf8.induct)
  case (2 c cs)
  let ?w = "char_width c"
  have w: "0 < ?w" "?w - 1 \<le> length cs" "list_all is_continuation (take (?w - 1) cs)" "utf8 (drop (?w - 1) cs)"
    using 2(2) by (auto simp: char_width_def well_formed_char_def)
  show ?case
  proof (cases "i < ?w")
    case True
    show ?thesis
    proof (cases i)
      case (Suc j)
      then have "j < ?w - 1" using True by simp
      then have "is_continuation (cs ! j)" "j < length cs" using w(2,3) by (auto simp: list_all_length)
      then show ?thesis using 2(3) Suc by (auto simp: is_char_boundary_def)
    qed (use 2(2) in simp)
  next
    case False
    then have eq: "drop i (c # cs) = drop (i - ?w) (drop (?w - 1) cs)" using w(1) by (cases i) auto
    have "is_char_boundary (drop (?w - 1) cs) (i - ?w)"
      using 2(3) False w(1,2) by (auto simp: is_char_boundary_def nth_Cons split: nat.splits)
    then show ?thesis using 2(1) [OF w(4)] eq by simp
  qed
qed simp

lemma utf8_next:
  assumes "utf8 s" "i < length s" "is_char_boundary s i"
  shows "is_char_boundary s (i + char_width (s ! i))"
proof -
  let ?w = "char_width (s ! i)"
  obtain r where r: "drop i s = s ! i # r" "r = drop (Suc i) s" using assms(2) Cons_nth_drop_Suc by metis
  then have u: "utf8 (s ! i # r)" using utf8_drop [OF assms(1,3)] by simp
  have w: "0 < ?w" "?w - 1 \<le> length r" using u by (auto simp: char_width_def well_formed_char_def)
  have "utf8 (drop (i + ?w) s)"
    using u w(1) r(2) by (simp add: add.commute)
  moreover have "i + ?w \<le> length s" using w r(2) assms(2) by simp
  ultimately show ?thesis
  proof (cases "i + ?w < length s")
    case True
    then obtain q where "drop (i + ?w) s = s ! (i + ?w) # q" using Cons_nth_drop_Suc by metis
    then show ?thesis using \<open>utf8 (drop (i + ?w) s)\<close> True continuation_not_lead by (auto simp: is_char_boundary_def)
  qed (simp add: is_char_boundary_def)
qed

text \<open>After an ASCII byte there is a boundary.\<close>

lemma boundary_after_ascii:
  assumes "utf8 s" "i < length s" "byte (s ! i) < 128"
  shows "is_char_boundary s (Suc i)"
proof -
  have "is_char_boundary s i" using assms(2,3) by (simp add: is_char_boundary_def is_continuation_def)
  then show ?thesis using utf8_next [OF assms(1,2)] assms(3) by (simp add: char_width_def)
qed

lemma bump_while_boundary:
  assumes "utf8 s" "\<And>c. P c \<Longrightarrow> byte c < 128"
  shows "is_char_boundary s i \<Longrightarrow> is_char_boundary s (bump_while P s i)"
  using assms
proof (induction P s i rule: bump_while.induct)
  case (1 P s i)
  then show ?case by (subst bump_while.simps) (auto intro: boundary_after_ascii)
qed

lemma bump_while_stop:
  "i \<le> length s \<Longrightarrow> bump_while P s i = length s \<or> (bump_while P s i < length s \<and> \<not> P (s ! bump_while P s i))"
proof (induction P s i rule: bump_while.induct)
  case (1 P s i)
  then show ?case by (cases "i < length s \<and> P (s ! i)") (simp_all add: bump_while.simps [of P s i], linarith)
qed

lemma scan_comment_boundary: "i + 2 \<le> length s \<Longrightarrow> is_char_boundary s (scan_comment s i)"
  using bump_while_stop [of "i + 2" s "\<lambda>c. c \<noteq> CHR 0x0A"]
  by (auto simp: scan_comment_def is_char_boundary_def is_continuation_def)

lemma scan_string_loop_boundary: "utf8 s \<Longrightarrow> i \<le> length s \<Longrightarrow> is_char_boundary s (scan_string_loop s i)"
proof (induction s i rule: scan_string_loop.induct)
  case (1 s i)
  then show ?case
    by (subst scan_string_loop.simps) (auto simp: peek_def split: if_splits intro: boundary_after_ascii)
qed

lemma ascii_bytes:
  "is_space_byte c \<Longrightarrow> byte c < 128" "is_digit c \<Longrightarrow> byte c < 128" "is_ident_start c \<Longrightarrow> byte c < 128"
  "is_ident_continue c \<Longrightarrow> byte c < 128" "is_hex_digit c \<Longrightarrow> byte c < 128" "is_exponent c \<Longrightarrow> byte c < 128"
  "radix_of c \<noteq> 0 \<Longrightarrow> byte c < 128"
  by (auto simp: is_space_byte_def is_digit_def is_ident_start_def is_ident_continue_def is_hex_digit_def is_exponent_def
      radix_of_def split: if_splits)

lemma at_byte_boundary: "utf8 s \<Longrightarrow> at_byte P s i \<Longrightarrow> (\<And>c. P c \<Longrightarrow> byte c < 128) \<Longrightarrow> is_char_boundary s (Suc i)"
  by (auto simp: at_byte_def intro: boundary_after_ascii)

lemma scan_exponent_boundary:
  assumes "utf8 s" "at_byte is_exponent s i"
  shows "is_char_boundary s (scan_exponent s i)"
proof -
  have "is_char_boundary s (Suc i)" using assms ascii_bytes(6) by (rule at_byte_boundary)
  then show ?thesis using assms(1)
    by (auto simp: scan_exponent_def Let_def intro!: bump_while_boundary elim: at_byte_boundary dest: ascii_bytes)
qed

lemma scan_based_boundary:
  assumes "utf8 s" "at_byte (\<lambda>c. c = CHR ''#'') s i"
  shows "is_char_boundary s (snd (scan_based s i))"
proof -
  let ?k = "bump_while (\<lambda>c. is_hex_digit c \<or> c = CHR ''.'' \<or> c = CHR ''_'') s (Suc i)"
  have "is_char_boundary s (Suc i)" using assms by (rule at_byte_boundary) simp
  then have k: "is_char_boundary s ?k" using assms(1) by (intro bump_while_boundary) (auto dest: ascii_bytes)
  moreover have "is_char_boundary s (Suc ?k)" if "at_byte (\<lambda>c. c = CHR ''#'') s ?k"
    using assms(1) that by (rule at_byte_boundary) simp
  ultimately show ?thesis using scan_exponent_boundary [OF assms(1)] by (simp add: scan_based_def Let_def)
qed

lemma scan_number_boundary:
  assumes "utf8 s" "i < length s" "is_digit (s ! i)"
  shows "is_char_boundary s (snd (scan_number s i))"
proof -
  let ?i = "bump_while is_digit s i"
  have asc: "\<And>c. is_digit c \<Longrightarrow> byte c < 128" "\<And>c. is_ident_continue c \<Longrightarrow> byte c < 128"
    by (rule ascii_bytes, assumption)+
  have "is_char_boundary s i"
    using assms(2,3) by (simp add: is_char_boundary_def is_continuation_def is_digit_def)
  then have i: "is_char_boundary s ?i" by (intro bump_while_boundary [OF assms(1)]) (auto dest: asc)
  have "is_char_boundary s (bump_while is_ident_continue s (Suc ?i))" if "?i < length s" "radix_of (s ! ?i) \<noteq> 0"
    using boundary_after_ascii [OF assms(1) that(1) ascii_bytes(7) [OF that(2)]] by (intro bump_while_boundary [OF assms(1)]) (auto dest: asc)
  moreover have "is_char_boundary s (bump_while is_digit s (Suc ?i))" if "at_byte (\<lambda>c. c = CHR ''.'') s ?i"
    using at_byte_boundary [OF assms(1) that] by (intro bump_while_boundary [OF assms(1)]) (auto dest: asc)
  moreover have "is_char_boundary s (bump_while (\<lambda>c. is_digit c \<or> c = CHR ''_'') s ?i)"
    by (rule bump_while_boundary [OF assms(1) _ i]) (auto dest: asc)
  ultimately show ?thesis
    using scan_exponent_boundary [OF assms(1)] scan_based_boundary [OF assms(1)] by (auto simp: scan_number_def Let_def)
qed

section \<open>Properties\<close>

lemma punctuation_ascii: "(text, k) \<in> set punctuation \<Longrightarrow> text \<noteq> [] \<and> byte (last text) < 128 \<and> ERROR \<le> k \<and> k \<le> FILE_KW"
  by (auto simp: punctuation_def)

lemma scan_punct_ok:
  assumes "utf8 s" "is_char_boundary s i" "i < length s"
  shows "\<exists>k j. scan_punct s i = Some (k, j) \<and> is_char_boundary s j \<and> ERROR \<le> k \<and> k \<le> FILE_KW"
proof (cases "find (\<lambda>(text, k). take (length text) (drop i s) = text) punctuation")
  case None
  then show ?thesis using assms utf8_next [OF assms(1,3,2)] by (auto simp: scan_punct_def bump_char_def)
next
  case (Some x)
  then obtain w k where x: "x = (w, k)" "(w, k) \<in> set punctuation" "take (length w) (drop i s) = w"
    unfolding find_Some_iff by (metis (mono_tags, lifting) nth_mem old.prod.case surj_pair)
  note pt = punctuation_ascii [OF x(2)]
  let ?j = "i + (length w - 1)"
  have n: "length w \<le> length s - i" using x(3) by (metis length_drop length_take min.cobounded1)
  have "last w = s ! ?j"
    using pt x(3) n by (metis add_leD2 diff_less drop_drop last_conv_nth length_greater_0_conv less_one nth_drop nth_take
        le_add_diff_inverse2 assms(3) less_imp_le)
  then have "is_char_boundary s (Suc ?j)" using pt n assms(1,3) by (intro boundary_after_ascii) (auto simp: Suc_le_eq)
  then show ?thesis using Some x pt by (cases w) (auto simp: scan_punct_def)
qed

lemma keyword_kinds: "from_keyword t = Some k \<Longrightarrow> ERROR \<le> k \<and> k \<le> FILE_KW"
proof -
  have "\<forall>(t, k) \<in> set keywords_table. ERROR \<le> k \<and> k \<le> FILE_KW" by (simp add: keywords_table_def)
  then show "from_keyword t = Some k \<Longrightarrow> ERROR \<le> k \<and> k \<le> FILE_KW" by (auto simp: from_keyword_def dest: map_of_SomeD)
qed

lemma scan_number_kind: "fst (scan_number s i) \<in> {ERROR, INTEGER_LIT, REAL_LIT}"
  by (simp add: scan_number_def scan_based_def Let_def)

lemma scan_token_ok:
  assumes "utf8 s" "is_char_boundary s i" "i < length s"
  shows "\<exists>k j. scan_token s i = Some ((k, take (j - i) (drop i s)), j) \<and> i < j \<and> is_char_boundary s j \<and> ERROR \<le> k \<and> k \<le> FILE_KW"
proof -
  let ?c = "s ! i"
  have fin: ?thesis if "scan_token s i = Option.bind (slice s i j) (\<lambda>text. Some ((k, text), j))" "i \<le> j" "is_char_boundary s j"
    "ERROR \<le> k \<and> k \<le> FILE_KW" for k j
  proof -
    have "scan_token s i = Some ((k, take (j - i) (drop i s)), j)" using that assms(2) by (simp add: slice_def)
    then show ?thesis using scan_token_progress assms(3) that by blast
  qed
  note [simp] = scan_token_def peek_def assms(3) Let_def
  consider (space) "is_space_byte ?c" | (comment) "\<not> is_space_byte ?c" "?c = CHR ''-''" "peek s i 1 = CHR ''-''"
    | (quote) "\<not> is_space_byte ?c" "?c = CHR 0x22" | (digit) "\<not> is_space_byte ?c" "is_digit ?c"
    | (ident) "\<not> is_space_byte ?c" "is_ident_start ?c"
    | (punct) "\<not> is_space_byte ?c" "\<not> (?c = CHR ''-'' \<and> peek s i 1 = CHR ''-'')" "?c \<noteq> CHR 0x22" "\<not> is_digit ?c" "\<not> is_ident_start ?c"
    by blast
  then show ?thesis
  proof cases
    case space
    have "is_char_boundary s (scan_whitespace s i)"
      unfolding scan_whitespace_def by (rule bump_while_boundary [OF assms(1) _ assms(2)]) (rule ascii_bytes)
    then show ?thesis using space by (intro fin [of "scan_whitespace s i" WHITESPACE]) (auto simp: scan_whitespace_def bump_while_ge)
  next
    case comment
    then show ?thesis by (intro fin [of "scan_comment s i" COMMENT] scan_comment_boundary)
        (auto simp: scan_comment_def bump_while_less less_imp_le split: if_splits)
  next
    case quote
    have "i + 1 \<le> scan_string s i" unfolding scan_string_def by (rule scan_string_loop_ge)
    moreover have "is_char_boundary s (scan_string s i)"
      unfolding scan_string_def using assms(1,3) by (intro scan_string_loop_boundary) (auto simp: Suc_le_eq)
    ultimately show ?thesis using quote by (intro fin [of "scan_string s i" STRING_LIT]) (auto simp: is_space_byte_def)
  next
    case digit
    moreover have "?c \<noteq> CHR ''-''" "?c \<noteq> CHR 0x22" using digit by (auto simp: is_digit_def)
    moreover have "ERROR \<le> fst (scan_number s i) \<and> fst (scan_number s i) \<le> FILE_KW" using scan_number_kind [of s i] by auto
    ultimately show ?thesis using scan_number_boundary [OF assms(1,3)] scan_number_less [OF assms(3)]
      by (intro fin [of "snd (scan_number s i)" "fst (scan_number s i)"]) (simp_all add: case_prod_beta less_imp_le)
  next
    case ident
    let ?j = "bump_while is_ident_continue s (Suc i)"
    let ?text = "take (?j - i) (drop i s)"
    let ?k = "case from_keyword (to_ascii_lowercase ?text) of Some k \<Rightarrow> k | None \<Rightarrow> IDENT"
    have "is_char_boundary s (Suc i)" using ident by (intro boundary_after_ascii [OF assms(1,3)] ascii_bytes(3))
    then have j: "is_char_boundary s ?j" by (rule bump_while_boundary [OF assms(1), rotated]) (rule ascii_bytes)
    have le: "i \<le> ?j" using bump_while_less [of i "Suc i" is_ident_continue s] by simp
    have k: "ERROR \<le> ?k \<and> ?k \<le> FILE_KW" using keyword_kinds by (simp split: option.split)
    have "slice s i ?j = Some ?text" using j le assms(2) by (simp add: slice_def)
    moreover have "?c \<noteq> CHR ''-''" "?c \<noteq> CHR 0x22" "\<not> is_digit ?c" using ident by (auto simp: is_ident_start_def is_digit_def)
    ultimately show ?thesis using ident j le k by (intro fin [of ?j ?k]) (simp_all add: scan_ident_or_keyword_def)
  next
    case punct
    obtain k j where kj: "scan_punct s i = Some (k, j)" "is_char_boundary s j" "ERROR \<le> k \<and> k \<le> FILE_KW"
      using scan_punct_ok [OF assms] by blast
    then show ?thesis using punct scan_punct_ge [OF kj(1) assms(3)] by (intro fin [of j k]) auto
  qed
qed

lemma utf8_take:
  assumes "utf8 s" "is_char_boundary s i"
  shows "utf8 (take i s)"
  using assms
proof (induction s arbitrary: i rule: utf8.induct)
  case (2 c cs)
  let ?w = "char_width c"
  have w: "0 < ?w" "well_formed_char c cs" "utf8 (drop (?w - 1) cs)" using 2(2) by (auto simp: char_width_def)
  show ?case
  proof (cases "i < ?w")
    case True
    show ?thesis
    proof (cases i)
      case (Suc j)
      then have "j < ?w - 1" using True by simp
      then have "is_continuation (cs ! j)" "j < length cs" using w(2) by (auto simp: list_all_length well_formed_char_def)
      moreover have "i \<noteq> length (c # cs)" using \<open>j < length cs\<close> Suc by simp
      ultimately show ?thesis using 2(3) Suc by (auto simp: is_char_boundary_def)
    qed simp
  next
    case False
    have "is_char_boundary (drop (?w - 1) cs) (i - ?w)"
      using 2(3) False w by (auto simp: is_char_boundary_def nth_Cons well_formed_char_def split: nat.splits)
    from 2(1) [OF w(3) this] have u: "utf8 (take (i - ?w) (drop (?w - 1) cs))" .
    have eq: "take i (c # cs) = c # take (i - 1) cs" using False w(1) by (cases i) auto
    have "drop (?w - 1) (take (i - 1) cs) = take (i - ?w) (drop (?w - 1) cs)" using False w(1) by (simp add: drop_take)
    moreover have "well_formed_char c (take (i - 1) cs)"
    proof -
      have "take (?w - 1) (take (i - 1) cs) = take (?w - 1) cs" using False by (simp add: min_absorb1)
      moreover have "?w - 1 \<noteq> 0 \<Longrightarrow> hd (take (i - 1) cs) = hd cs" using False by (cases cs) (auto simp: take_Cons' )
      moreover have "byte c < 128 \<longleftrightarrow> ?w - 1 = 0" by (simp add: char_width_def)
      ultimately show ?thesis using w(2) False by (cases "byte c < 128") (auto simp: well_formed_char_def Let_def)
    qed
    ultimately show ?thesis using u by (simp add: eq)
  qed
qed simp

lemma utf8_between:
  assumes "utf8 s" "is_char_boundary s i" "is_char_boundary s j" "i \<le> j"
  shows "utf8 (take (j - i) (drop i s))"
proof (rule utf8_take [OF utf8_drop [OF assms(1,2)]])
  show "is_char_boundary (drop i s) (j - i)" using assms(3,4) by (auto simp: is_char_boundary_def)
qed

text \<open>The start of every token, from the lengths of the tokens.\<close>

fun starts :: "nat \<Rightarrow> nat list \<Rightarrow> nat list" where
  "starts i [] = []"
| "starts i (n # ns) = i # starts (i + n) ns"

lemma length_starts [simp]: "length (starts i ns) = length ns"
  by (induction ns arbitrary: i) auto

lemma starts_nth: "n < length ns \<Longrightarrow> starts i ns ! n = i + sum_list (take n ns)"
  by (induction ns arbitrary: i n) (auto simp: nth_Cons split: nat.splits)

definition token_ok :: "syntax_kind \<times> string \<Rightarrow> bool" where
  "token_ok t \<longleftrightarrow> ERROR \<le> fst t \<and> fst t \<le> FILE_KW \<and> snd t \<noteq> [] \<and> utf8 (snd t)"

lemma lex_from_ok:
  assumes "utf8 s"
  shows "is_char_boundary s i \<Longrightarrow> \<exists>toks. lex_from s i = Some toks \<and> concat (map snd toks) = drop i s \<and> list_all token_ok toks
    \<and> tokenize_from s i = Some (map (\<lambda>(k, t). (k, length t)) toks)
    \<and> lexed_from s i = Some (map2 (\<lambda>(k, t) j. (k, j mod 2 ^ 32)) toks (starts i (map (length \<circ> snd) toks)))"
proof (induction "length s - i" arbitrary: i rule: less_induct)
  case less
  show ?case
  proof (cases "i < length s")
    case True
    then obtain k j where t: "scan_token s i = Some ((k, take (j - i) (drop i s)), j)" "i < j" "is_char_boundary s j"
      "ERROR \<le> k" "k \<le> FILE_KW" using scan_token_ok [OF assms less.prems] by blast
    have j: "j \<le> length s" using t(3) by (rule boundary_le)
    have "length s - j < length s - i" using t(2) True by simp
    from less.hyps [OF this t(3)] obtain toks where toks: "lex_from s j = Some toks" "concat (map snd toks) = drop j s" "list_all token_ok toks"
      "tokenize_from s j = Some (map (\<lambda>(k, t). (k, length t)) toks)"
      "lexed_from s j = Some (map2 (\<lambda>(k, t) j. (k, j mod 2 ^ 32)) toks (starts j (map (length \<circ> snd) toks)))" by blast
    have "take (j - i) (drop i s) @ drop j s = drop i s" using t(2) by (metis append_take_drop_id drop_drop le_add_diff_inverse2 less_imp_le)
    moreover have "token_ok (k, take (j - i) (drop i s))"
      using t True utf8_between [OF assms less.prems t(3)] by (simp add: token_ok_def)
    moreover have "length (take (j - i) (drop i s)) = j - i" using j t(2) by simp
    ultimately show ?thesis using True t(1,2) toks
      by (simp add: lex_from.simps [of s i] tokenize_from.simps [of s i] lexed_from.simps [of s i] del: length_take)
  next
    case False
    then show ?thesis using less.prems boundary_le [of s i]
      by (intro exI [of _ "[]"]) (simp add: lex_from.simps tokenize_from.simps lexed_from.simps)
  qed
qed

lemma sum_lengths: "sum_list (map (length \<circ> snd) toks) = length (concat (map snd toks))"
  by (simp add: length_concat comp_def)

lemma concat_slice:
  assumes "n < length ts" "s = concat ts"
  shows "take (length (ts ! n)) (drop (length (concat (take n ts))) s) = ts ! n"
proof -
  have "s = concat (take n ts) @ ts ! n @ concat (drop (Suc n) ts)"
    using assms by (metis append_take_drop_id concat.simps(2) concat_append Cons_nth_drop_Suc)
  then show ?thesis by simp
qed

lemma token_boundary:
  assumes "s = concat ts" "\<forall>t \<in> set ts. t \<noteq> [] \<and> utf8 t"
  shows "is_char_boundary s (length (concat (take n ts)))"
proof (cases "n < length ts")
  case True
  then obtain c cs where c: "ts ! n = c # cs" "utf8 (c # cs)" using assms(2) by (metis nth_mem neq_Nil_conv)
  have "s = concat (take n ts) @ c # cs @ concat (drop (Suc n) ts)"
    using True assms(1) c(1) by (metis append_take_drop_id concat.simps(2) concat_append Cons_nth_drop_Suc append_Cons)
  then show ?thesis using c(2) by (auto simp: is_char_boundary_def nth_append dest: continuation_not_lead)
qed (simp add: assms(1))

lemma token_slice:
  assumes "s = concat ts" "\<forall>t \<in> set ts. t \<noteq> [] \<and> utf8 t" "n < length ts"
  shows "slice s (length (concat (take n ts))) (length (concat (take (Suc n) ts))) = Some (ts ! n)"
proof -
  have "length (concat (take (Suc n) ts)) = length (concat (take n ts)) + length (ts ! n)"
    using assms(3) by (simp add: take_Suc_conv_app_nth)
  then show ?thesis using token_boundary [OF assms(1,2), of n] token_boundary [OF assms(1,2), of "Suc n"] concat_slice [OF assms(3,1)]
    by (simp add: slice_def)
qed

text \<open>C6. The lexer loses nothing and never panics: on every valid string it returns a list of tokens whose
  texts put together are the input. Every text is a non-empty valid string, every kind is a token kind, the
  allocation-free variant gives the same kinds with the lengths of the texts, and the indexed variant gives
  back every text by its number as long as the offsets fit 32 bits.\<close>

theorem lex_lossless:
  assumes "utf8 s"
  shows "\<exists>toks. lex s = Some toks \<and> concat (map snd toks) = s \<and> (\<forall>t \<in> set toks. token_ok t)
    \<and> tokenize s = Some (map (\<lambda>(k, t). (k, length t)) toks)
    \<and> (length s < 2 ^ 32 \<longrightarrow> (\<exists>l. lexed_str_new s = Some l \<and> length (ls_tokens l) = length toks
         \<and> (\<forall>n < length toks. fst (ls_tokens l ! n) = fst (toks ! n) \<and> ls_text l n = Some (snd (toks ! n)))))"
proof -
  obtain toks where t: "lex_from s 0 = Some toks" "concat (map snd toks) = s" "list_all token_ok toks"
    "tokenize_from s 0 = Some (map (\<lambda>(k, t). (k, length t)) toks)"
    "lexed_from s 0 = Some (map2 (\<lambda>(k, t) j. (k, j mod 2 ^ 32)) toks (starts 0 (map (length \<circ> snd) toks)))"
    using lex_from_ok [OF assms boundary_0] by (metis drop_0)
  let ?ts = "map snd toks" and ?l = "\<lparr>ls_input = s, ls_tokens = map2 (\<lambda>(k, t) j. (k, j mod 2 ^ 32)) toks (starts 0 (map (length \<circ> snd) toks))\<rparr>"
  have ok: "\<forall>t \<in> set ?ts. t \<noteq> [] \<and> utf8 t" using t(3) by (auto simp: list_all_iff token_ok_def)
  have st: "starts 0 (map (length \<circ> snd) toks) ! n = length (concat (take n ?ts))" if "n < length toks" for n
    using that by (simp add: starts_nth take_map length_concat comp_def)
  have "fst (ls_tokens ?l ! n) = fst (toks ! n) \<and> ls_text ?l n = Some (snd (toks ! n))"
    if len: "length s < 2 ^ 32" and n: "n < length toks" for n
  proof -
    have small: "length (concat (take m ?ts)) < 2 ^ 32" for m
      using boundary_le [OF token_boundary [OF t(2) [symmetric] ok]] len by (rule le_less_trans)
    have "length (concat (take (Suc n) ?ts)) = length s" if "\<not> Suc n < length toks"
      using that n t(2) by simp
    then have "ls_text_range ?l n = Some (length (concat (take n ?ts)), length (concat (take (Suc n) ?ts)))"
      using n st small by (simp add: ls_text_range_def case_prod_beta)
    then show ?thesis using n token_slice [OF t(2) [symmetric] ok, of n] by (simp add: ls_text_def case_prod_beta)
  qed
  moreover have "lexed_str_new s = Some ?l" using t(5) by (simp add: lexed_str_new_def)
  ultimately show ?thesis using t by (simp add: lex_def tokenize_def list_all_iff)
qed

lemmas lex_eval = lex_from.simps scan_token_def scan_whitespace_def scan_comment_def scan_ident_or_keyword_def scan_punct_def
  bump_while.simps peek_def slice_def is_char_boundary_def is_continuation_def is_space_byte_def is_digit_def is_ident_start_def
  is_ident_continue_def punctuation_def from_keyword_def keywords_table_def ascii_eval

text \<open>An identifier, a comment with a letter of two bytes, a keyword in capitals.\<close>

theorem lex_lossless_witness:
  "\<exists>toks. lex (''x--'' @ [CHR 0xC3, CHR 0xA9, CHR 0x0A] @ ''END;'') = Some toks
    \<and> concat (map snd toks) = ''x--'' @ [CHR 0xC3, CHR 0xA9, CHR 0x0A] @ ''END;''
    \<and> map fst toks = [IDENT, COMMENT, WHITESPACE, END_KW, SEMICOLON]"
proof -
  let ?s = "''x--'' @ [CHR 0xC3, CHR 0xA9, CHR 0x0A] @ ''END;''"
  have "utf8 ?s" by (simp add: well_formed_char_def char_width_def is_continuation_def)
  from lex_lossless [OF this] obtain toks where toks: "lex ?s = Some toks" "concat (map snd toks) = ?s" by blast
  moreover have "map_option (map fst) (lex ?s) = Some [IDENT, COMMENT, WHITESPACE, END_KW, SEMICOLON]"
    by (simp add: lex_def lex_eval)
  ultimately show ?thesis by simp
qed

end
