(* ===== verification/Parser_Events.thy ===== *)
theory Parser_Events
  imports Aadl_Lexer
begin

text \<open>
  The event parser, \<^verbatim>\<open>crates/spar-parser/src/parser.rs\<close>, \<^verbatim>\<open>event.rs\<close> and \<^verbatim>\<open>marker.rs\<close>: the state the grammar
  functions share, the tokens they look at and consume, the markers that open and close syntax nodes.
  Grammar functions map a state to the next one; \<open>None\<close> is a panic (a failed assertion of \<^verbatim>\<open>bump\<close>, an index
  out of range, \<^verbatim>\<open>unreachable!\<close>) or a loop that does not end. \<^verbatim>\<open>start\<close> hands the marker to a continuation, so
  a node is a block that ends with \<^verbatim>\<open>complete\<close>. Event positions are natural numbers: the source keeps them in
  32 bits, which differs from four billion events on.

  The second half is the contract of the grammar: \<open>advances p p'\<close> says that a function has consumed tokens,
  recorded exactly these and otherwise appended well-nested events, and the \<open>exec\<close> rules derive it from the
  text of a function.
\<close>

section \<open>State\<close>

text \<open>The messages of the grammar, with what they print.\<close>

datatype parse_message =
    Expected syntax_kind
  | Msg string
  | DuplicateSection string
  | DisallowedSubcomponent string string
  | DisallowedFeature string string
  | QualifiedRealization string string string string
  | MissingConnectionEnds
  | InvalidFeatureDirection
  | RadixLiteral

datatype event =
    Start syntax_kind "nat option"
  | Token syntax_kind nat
  | Finish
  | ErrorEvent parse_message
  | Tombstone

record parser =
  ps_tokens :: "(syntax_kind \<times> nat) list"
  ps_indices :: "nat list"
  ps_pos :: nat
  ps_events :: "event list"
  ps_source :: string
  ps_starts :: "nat list"

definition non_trivia :: "(syntax_kind \<times> nat) list \<Rightarrow> nat list" where
  "non_trivia tokens = filter (\<lambda>i. \<not> is_trivia (fst (tokens ! i))) [0..<length tokens]"

definition parser_new :: "(syntax_kind \<times> nat) list \<Rightarrow> string \<Rightarrow> parser" where
  "parser_new tokens source = \<lparr>ps_tokens = tokens, ps_indices = non_trivia tokens, ps_pos = 0, ps_events = [],
     ps_source = source, ps_starts = starts 0 (map snd tokens)\<rparr>"

section \<open>Looking at tokens\<close>

text \<open>The indices come from \<open>non_trivia\<close> and are those of tokens.\<close>

definition kind_at :: "parser \<Rightarrow> nat \<Rightarrow> syntax_kind" where
  "kind_at p i = fst (ps_tokens p ! (ps_indices p ! i))"

definition nth_kind :: "parser \<Rightarrow> nat \<Rightarrow> syntax_kind" where
  "nth_kind p n = (if ps_pos p + n \<ge> length (ps_indices p) then EOF else kind_at p (ps_pos p + n))"

abbreviation current :: "parser \<Rightarrow> syntax_kind" where
  "current p \<equiv> nth_kind p 0"

definition at :: "parser \<Rightarrow> syntax_kind \<Rightarrow> bool" where
  "at p kind \<longleftrightarrow> current p = kind"

definition at_end :: "parser \<Rightarrow> bool" where
  "at_end p \<longleftrightarrow> ps_pos p \<ge> length (ps_indices p)"

definition at_name :: "parser \<Rightarrow> bool" where
  "at_name p \<longleftrightarrow> at p IDENT \<or> is_keyword (current p) \<and> nth_kind p 1 = COLON"

definition token_text :: "parser \<Rightarrow> nat \<Rightarrow> string option" where
  "token_text p i =
     (let t = ps_indices p ! i; start = ps_starts p ! t in slice (ps_source p) start (start + snd (ps_tokens p ! t)))"

definition nth_text :: "parser \<Rightarrow> nat \<Rightarrow> string option" where
  "nth_text p n = (if ps_pos p + n \<ge> length (ps_indices p) then Some [] else token_text p (ps_pos p + n))"

definition at_contextual_kw :: "parser \<Rightarrow> string \<Rightarrow> bool option" where
  "at_contextual_kw p w = (if at_end p then Some False else map_option (\<lambda>t. t = w) (token_text p (ps_pos p)))"

section \<open>Events\<close>

definition push_event :: "event \<Rightarrow> parser \<Rightarrow> parser" where
  "push_event e p = p\<lparr>ps_events := ps_events p @ [e]\<rparr>"

definition do_bump :: "syntax_kind \<Rightarrow> parser \<Rightarrow> parser" where
  "do_bump kind p = (push_event (Token kind 1) p)\<lparr>ps_pos := ps_pos p + 1\<rparr>"

definition bump :: "syntax_kind \<Rightarrow> parser \<Rightarrow> parser option" where
  "bump kind p = (if at p kind then Some (do_bump kind p) else None)"

definition bump_any :: "parser \<Rightarrow> parser" where
  "bump_any p = (if current p = EOF then p else do_bump (current p) p)"

definition error :: "parse_message \<Rightarrow> parser \<Rightarrow> parser" where
  "error msg p = push_event (ErrorEvent msg) p"

definition eat :: "syntax_kind \<Rightarrow> parser \<Rightarrow> bool \<times> parser" where
  "eat kind p = (if at p kind then (True, do_bump kind p) else (False, p))"

definition expect :: "syntax_kind \<Rightarrow> parser \<Rightarrow> bool \<times> parser" where
  "expect kind p = (case eat kind p of (True, p) \<Rightarrow> (True, p) | (False, p) \<Rightarrow> (False, error (Expected kind) p))"

section \<open>Markers\<close>

definition start :: "parser \<Rightarrow> (nat \<Rightarrow> parser \<Rightarrow> 'r option) \<Rightarrow> 'r option" where
  "start p k = k (length (ps_events p)) (push_event (Start TOMBSTONE None) p)"

definition complete :: "nat \<Rightarrow> syntax_kind \<Rightarrow> parser \<Rightarrow> parser option" where
  "complete m kind p =
     (case nth_opt (ps_events p) m of
        Some (Start _ fp) \<Rightarrow> Some (push_event Finish (p\<lparr>ps_events := (ps_events p)[m := Start kind fp]\<rparr>))
      | _ \<Rightarrow> None)"

definition abandon :: "nat \<Rightarrow> parser \<Rightarrow> parser option" where
  "abandon m p =
     (if ps_events p = [] then None
      else if m = length (ps_events p) - 1
      then if last (ps_events p) = Start TOMBSTONE None then Some (p\<lparr>ps_events := butlast (ps_events p)\<rparr>) else None
      else if m < length (ps_events p) then Some (p\<lparr>ps_events := (ps_events p)[m := Tombstone]\<rparr>)
      else None)"

text \<open>The marker of the new parent of a completed node; \<^verbatim>\<open>forward_parent\<close> is the distance to its event.\<close>

definition precede :: "nat \<Rightarrow> parser \<Rightarrow> (nat \<Rightarrow> parser \<Rightarrow> 'r option) \<Rightarrow> 'r option" where
  "precede c p k = start p (\<lambda>m p.
     case nth_opt (ps_events p) c of
       Some (Start kind _) \<Rightarrow> k m (p\<lparr>ps_events := (ps_events p)[c := Start kind (Some (m - c))]\<rparr>)
     | _ \<Rightarrow> None)"

section \<open>Loops\<close>

text \<open>The loops of the grammar: the body says whether to go on.\<close>

partial_function (option) repeat_loop :: "('s \<Rightarrow> (bool \<times> 's) option) \<Rightarrow> 's \<Rightarrow> 's option" where
  "repeat_loop body s = Option.bind (body s) (\<lambda>(go, s). if go then repeat_loop body s else Some s)"

declare repeat_loop.simps [code]

definition while_loop :: "(parser \<Rightarrow> bool) \<Rightarrow> (parser \<Rightarrow> parser option) \<Rightarrow> parser \<Rightarrow> parser option" where
  "while_loop b body = repeat_loop (\<lambda>p. if b p then map_option (Pair True) (body p) else Some (False, p))"

text \<open>\<^verbatim>\<open>while p.eat(kind) { ... }\<close>.\<close>

definition eat_loop :: "syntax_kind \<Rightarrow> (parser \<Rightarrow> parser option) \<Rightarrow> parser \<Rightarrow> parser option" where
  "eat_loop kind body = while_loop (\<lambda>p. at p kind) (\<lambda>p. body (snd (eat kind p)))"

definition err_recover :: "parse_message \<Rightarrow> token_set \<Rightarrow> parser \<Rightarrow> parser option" where
  "err_recover msg recovery p =
     (if at p EOF \<or> token_set_contains recovery (current p) then Some (error msg p)
      else start p (\<lambda>m p. do {
        let p = error msg p;
        let p = bump_any p;
        p \<leftarrow> while_loop (\<lambda>p. \<not> at_end p \<and> \<not> token_set_contains recovery (current p)) (\<lambda>p. Some (bump_any p)) p;
        complete m ERROR p }))"

definition err_and_bump :: "parse_message \<Rightarrow> parser \<Rightarrow> parser option" where
  "err_and_bump msg p = err_recover msg token_set_EMPTY p"

section \<open>Well-nested events\<close>

fun shape :: "event \<Rightarrow> int" where
  "shape (Start _ _) = 1"
| "shape Finish = - 1"
| "shape _ = 0"

definition depth :: "event list \<Rightarrow> int" where
  "depth es = sum_list (map shape es)"

fun is_start :: "event \<Rightarrow> bool" where
  "is_start (Start _ _) = True"
| "is_start _ = False"

fun forward :: "event \<Rightarrow> nat option" where
  "forward (Start _ f) = f"
| "forward _ = None"

text \<open>Every forward parent is a later \<open>Start\<close> of the list, and no two events share one.\<close>

definition forwards_ok :: "event list \<Rightarrow> bool" where
  "forwards_ok D \<longleftrightarrow>
     (\<forall>i d. i < length D \<longrightarrow> forward (D ! i) = Some d \<longrightarrow> 0 < d \<and> i + d < length D \<and> is_start (D ! (i + d)))
   \<and> (\<forall>i j d e. i < length D \<longrightarrow> j < length D \<longrightarrow> forward (D ! i) = Some d \<longrightarrow> forward (D ! j) = Some e \<longrightarrow> i + d = j + e \<longrightarrow> i = j)"

definition nested :: "event list \<Rightarrow> bool" where
  "nested D \<longleftrightarrow> (\<forall>n. 0 \<le> depth (take n D)) \<and> depth D = 0 \<and> (\<forall>f. Start TOMBSTONE f \<notin> set D) \<and> forwards_ok D"

lemma depth_simps [simp]: "depth [] = 0" "depth (e # es) = shape e + depth es" "depth (es @ fs) = depth es + depth fs"
  by (simp_all add: depth_def)

lemma forwards_okD:
  assumes "forwards_ok D" "i < length D" "forward (D ! i) = Some d"
  shows "0 < d \<and> i + d < length D \<and> is_start (D ! (i + d))"
  using assms unfolding forwards_ok_def by blast

lemma forwards_ok_inj:
  assumes "forwards_ok D" "i < length D" "j < length D" "forward (D ! i) = Some d" "forward (D ! j) = Some e" "i + d = j + e"
  shows "i = j"
  using assms unfolding forwards_ok_def by blast

lemma forwards_ok_append:
  assumes "forwards_ok A" "forwards_ok B"
  shows "forwards_ok (A @ B)"
  unfolding forwards_ok_def
proof (intro conjI allI impI)
  have tgt: "(i < length A \<longrightarrow> i + d < length A) \<and> (\<not> i < length A \<longrightarrow> length A \<le> i + d) \<and> 0 < d \<and> i + d < length (A @ B) \<and> is_start ((A @ B) ! (i + d))"
    if "i < length (A @ B)" "forward ((A @ B) ! i) = Some d" for i d
  proof (cases "i < length A")
    case True
    then show ?thesis using forwards_okD [OF assms(1) True, of d] that by (simp add: nth_append)
  next
    case False
    then have "i - length A < length B" using that(1) by auto
    from forwards_okD [OF assms(2) this, of d] have "0 < d \<and> i + d < length A + length B \<and> is_start (B ! (i + d - length A))"
      using False that by (auto simp: nth_append)
    then show ?thesis using False by (simp add: nth_append)
  qed
  show "0 < d" "i + d < length (A @ B)" "is_start ((A @ B) ! (i + d))"
    if "i < length (A @ B)" "forward ((A @ B) ! i) = Some d" for i d
    using tgt [OF that] by blast+
  show "i = j" if "i < length (A @ B)" "j < length (A @ B)" "forward ((A @ B) ! i) = Some d" "forward ((A @ B) ! j) = Some e" "i + d = j + e"
    for i j d e
  proof (cases "i < length A")
    case True
    then have "j < length A" using tgt [OF that(1,3)] tgt [OF that(2,4)] that(5) by linarith
    then show ?thesis using True that forwards_ok_inj [OF assms(1) True] by (simp add: nth_append)
  next
    case False
    then have j: "\<not> j < length A" using tgt [OF that(1,3)] tgt [OF that(2,4)] that(5) by linarith
    have "i - length A = j - length A"
    proof (rule forwards_ok_inj [OF assms(2)])
      show "i - length A < length B" "j - length A < length B" using False j that(1,2) by auto
      show "forward (B ! (i - length A)) = Some d" "forward (B ! (j - length A)) = Some e"
        using False j that(3,4) by (simp_all add: nth_append)
      show "i - length A + d = j - length A + e" using False j that(5) by linarith
    qed
    then show ?thesis using False j by linarith
  qed
qed

lemma forwards_ok_single: "forward e = None \<Longrightarrow> forwards_ok [e]"
  by (simp add: forwards_ok_def)

lemma nested_Nil [simp]: "nested []"
  by (simp add: nested_def forwards_ok_def)

lemma nested_single: "shape e = 0 \<Longrightarrow> nested [e]"
  by (cases e) (auto simp: nested_def forwards_ok_single take_Cons' )

lemma nested_append: "nested A \<Longrightarrow> nested B \<Longrightarrow> nested (A @ B)"
  by (auto simp: nested_def forwards_ok_append)

text \<open>Events may be added before the \<open>Finish\<close> of a node.\<close>

lemma forwards_ok_butlast:
  assumes "forwards_ok (X @ [Finish])"
  shows "forwards_ok X"
  unfolding forwards_ok_def
proof (intro conjI allI impI)
  have tgt: "0 < d \<and> i + d < length X \<and> is_start (X ! (i + d))" if "i < length X" "forward (X ! i) = Some d" for i d
  proof -
    have "0 < d \<and> i + d < length (X @ [Finish]) \<and> is_start ((X @ [Finish]) ! (i + d))"
      using forwards_okD [OF assms, of i d] that by (simp add: nth_append)
    then show ?thesis by (cases "i + d < length X") (auto simp: nth_append less_Suc_eq)
  qed
  then show "0 < d" "i + d < length X" "is_start (X ! (i + d))" if "i < length X" "forward (X ! i) = Some d" for i d
    using that by blast+
  show "i = j" if "i < length X" "j < length X" "forward (X ! i) = Some d" "forward (X ! j) = Some e" "i + d = j + e" for i j d e
    using forwards_ok_inj [OF assms, of i j d e] that by (simp add: nth_append)
qed

lemma nested_insert:
  assumes "nested (X @ [Finish])" "nested D"
  shows "nested (X @ D @ [Finish])"
proof -
  have X: "0 \<le> depth (take n X)" "depth X = 1" for n
    using assms(1) unfolding nested_def by (force dest: spec [of _ "min n (length X)"] simp: min_def split: if_splits)+
  have "0 \<le> depth (take n (X @ D @ [Finish]))" for n
    using X assms(2) by (cases "n - length X - length D") (auto simp: nested_def)
  moreover have "forwards_ok (X @ D @ [Finish])"
    using assms by (intro forwards_ok_append) (auto simp: nested_def forwards_ok_butlast forwards_ok_single)
  ultimately show ?thesis using X(2) assms by (auto simp: nested_def)
qed

lemma nested_node: "k \<noteq> TOMBSTONE \<Longrightarrow> nested D \<Longrightarrow> nested (Start k None # D @ [Finish])"
  using nested_insert [of "[Start k None]" D]
  by (simp add: nested_def take_Cons' forwards_ok_append [of "[_]" "[_]", simplified] forwards_ok_single)

text \<open>A completed node may get a parent that starts after it.\<close>

lemma nested_precede:
  assumes "nested (A @ Start k f # B)" "k2 \<noteq> TOMBSTONE"
  shows "nested (A @ Start k (Some (Suc (length B))) # B @ [Start k2 None, Finish])"
proof -
  let ?D = "A @ Start k f # B" and ?E = "A @ Start k (Some (Suc (length B))) # B @ [Start k2 None, Finish]"
  have sh: "map shape (take n ?E) = map shape (take n (?D @ [Start k2 None, Finish]))" for n
    unfolding take_map [symmetric] by simp
  have "0 \<le> depth (take n (?D @ [Start k2 None, Finish]))" for n
    using nested_append [OF assms(1) nested_node [OF assms(2) nested_Nil]] by (simp add: nested_def)
  then have "0 \<le> depth (take n ?E)" for n unfolding depth_def sh .
  moreover have "forwards_ok ?E" unfolding forwards_ok_def
  proof (intro conjI allI impI)
    have ok: "forwards_ok ?D" using assms(1) by (simp add: nested_def)
    have old: "i < length ?D \<and> (if i = length A then d = Suc (length B) else forward (?D ! i) = Some d)"
      if "i < length ?E" "forward (?E ! i) = Some d" for i d
      using that by (auto simp: nth_append nth_Cons split: nat.splits if_splits)
    have tgt: "0 < d \<and> i + d < length ?E \<and> is_start (?E ! (i + d)) \<and> (if i = length A then i + d = length ?D else i + d < length ?D)"
      if "i < length ?E" "forward (?E ! i) = Some d" for i d
    proof (cases "i = length A")
      case True
      then have "d = Suc (length B)" using old [OF that] by simp
      then show ?thesis using True by (simp add: nth_append)
    next
      case False
      then have "0 < d \<and> i + d < length ?D \<and> is_start (?D ! (i + d))"
        using old [OF that] forwards_okD [OF ok, of i d] by simp
      then show ?thesis using False by (auto simp: nth_append nth_Cons split: nat.splits)
    qed
    show "0 < d" "i + d < length ?E" "is_start (?E ! (i + d))" if "i < length ?E" "forward (?E ! i) = Some d" for i d
      using tgt [OF that] by blast+
    show "i = j" if ij: "i < length ?E" "j < length ?E" "forward (?E ! i) = Some d" "forward (?E ! j) = Some e" "i + d = j + e" for i j d e
    proof (cases "i = length A \<or> j = length A")
      case True
      then show ?thesis using tgt [OF ij(1,3)] tgt [OF ij(2,4)] ij(5) by (auto split: if_splits)
    next
      case False
      then show ?thesis using old [OF ij(1,3)] old [OF ij(2,4)] forwards_ok_inj [OF ok, of i j d e] ij(5) by simp
    qed
  qed
  ultimately show ?thesis using assms by (auto simp: nested_def)
qed

section \<open>The contract of a grammar function\<close>

fun leaf_kind :: "event \<Rightarrow> syntax_kind list" where
  "leaf_kind (Token k n) = replicate n k"
| "leaf_kind _ = []"

definition leaf_kinds :: "event list \<Rightarrow> syntax_kind list" where
  "leaf_kinds es = concat (map leaf_kind es)"

lemma leaf_kinds_simps [simp]: "leaf_kinds [] = []" "leaf_kinds (e # es) = leaf_kind e @ leaf_kinds es"
  "leaf_kinds (es @ fs) = leaf_kinds es @ leaf_kinds fs"
  by (simp_all add: leaf_kinds_def)

text \<open>All indices and slices are valid, no token is the end of file.\<close>

definition parser_ok :: "parser \<Rightarrow> bool" where
  "parser_ok p \<longleftrightarrow> ps_pos p \<le> length (ps_indices p) \<and>
     (\<forall>i < length (ps_indices p). kind_at p i \<noteq> EOF \<and> token_text p i \<noteq> None)"

definition same_input :: "parser \<Rightarrow> parser \<Rightarrow> bool" where
  "same_input p p' \<longleftrightarrow> ps_tokens p' = ps_tokens p \<and> ps_indices p' = ps_indices p \<and> ps_source p' = ps_source p \<and> ps_starts p' = ps_starts p"

definition advances :: "parser \<Rightarrow> parser \<Rightarrow> bool" where
  "advances p p' \<longleftrightarrow> same_input p p' \<and> ps_pos p \<le> ps_pos p' \<and> ps_pos p' \<le> length (ps_indices p)
     \<and> (\<exists>D. ps_events p' = ps_events p @ D \<and> nested D \<and> leaf_kinds D = map (kind_at p) [ps_pos p..<ps_pos p'])"

lemma same_input_reads:
  "same_input p p' \<Longrightarrow> kind_at p' = kind_at p" "same_input p p' \<Longrightarrow> token_text p' = token_text p"
  by (auto simp: same_input_def kind_at_def token_text_def fun_eq_iff)

lemma advances_ok: "parser_ok p \<Longrightarrow> advances p p' \<Longrightarrow> parser_ok p'"
  by (auto simp: parser_ok_def advances_def same_input_reads) (auto simp: same_input_def)

lemma advances_refl: "parser_ok p \<Longrightarrow> advances p p"
  by (auto simp: advances_def same_input_def parser_ok_def)

lemma advances_pos: "advances p p' \<Longrightarrow> ps_pos p \<le> ps_pos p'"
  by (simp add: advances_def)

lemma advances_indices: "advances p p' \<Longrightarrow> ps_indices p' = ps_indices p"
  by (simp add: advances_def same_input_def)

lemma advances_trans:
  assumes "advances p q" "advances q r"
  shows "advances p r"
proof -
  obtain D E where "ps_events q = ps_events p @ D" "nested D" "leaf_kinds D = map (kind_at p) [ps_pos p..<ps_pos q]"
    "ps_events r = ps_events q @ E" "nested E" "leaf_kinds E = map (kind_at q) [ps_pos q..<ps_pos r]"
    using assms unfolding advances_def by auto
  moreover have "kind_at q = kind_at p" using assms(1) by (simp add: advances_def same_input_reads)
  moreover have "[ps_pos p..<ps_pos r] = [ps_pos p..<ps_pos q] @ [ps_pos q..<ps_pos r]"
    using advances_pos [OF assms(1)] advances_pos [OF assms(2)] by (metis le_add_diff_inverse upt_add_eq_append)
  ultimately show ?thesis using assms nested_append [of D E]
    by (auto simp: advances_def same_input_def)
qed

text \<open>The node of the marker \<open>m\<close> is open since \<open>p0\<close>: whatever kind it gets, completing it now is a step of
  the contract.\<close>

definition inside :: "parser \<Rightarrow> nat \<Rightarrow> parser \<Rightarrow> bool" where
  "inside p0 m p \<longleftrightarrow> (\<forall>k. k \<noteq> TOMBSTONE \<longrightarrow> (\<exists>p'. complete m k p = Some p' \<and> advances p0 p'))"

lemma complete_SomeD:
  assumes "complete m k p = Some p'"
  shows "\<exists>l f. m < length (ps_events p) \<and> ps_events p ! m = Start l f
    \<and> p' = p\<lparr>ps_events := (ps_events p)[m := Start k f] @ [Finish]\<rparr>"
  using assms by (auto simp: complete_def nth_opt_def push_event_def split: if_splits event.splits)

lemma inside_same: "inside p0 m p \<Longrightarrow> same_input p0 p \<and> ps_pos p0 \<le> ps_pos p \<and> ps_pos p \<le> length (ps_indices p0)"
  unfolding inside_def by (drule spec [of _ ERROR]) (auto dest!: complete_SomeD simp: advances_def same_input_def)

lemma inside_splits:
  assumes "inside p0 m p"
  obtains l f where "m < length (ps_events p)" "ps_events p ! m = Start l f"
    "\<And>k. k \<noteq> TOMBSTONE \<Longrightarrow> \<exists>X. (ps_events p)[m := Start k f] = ps_events p0 @ X \<and> nested (X @ [Finish])
      \<and> leaf_kinds X = map (kind_at p0) [ps_pos p0..<ps_pos p]"
proof -
  have ex: "\<exists>l f D. m < length (ps_events p) \<and> ps_events p ! m = Start l f \<and> (ps_events p)[m := Start k f] @ [Finish] = ps_events p0 @ D
      \<and> nested D \<and> leaf_kinds D = map (kind_at p0) [ps_pos p0..<ps_pos p]" if "k \<noteq> TOMBSTONE" for k
    using assms that unfolding inside_def by (auto dest!: spec [of _ k] complete_SomeD simp: advances_def)
  obtain l f where lf: "m < length (ps_events p)" "ps_events p ! m = Start l f" using ex [of ERROR] by auto
  show thesis
  proof (rule that [OF lf])
    fix k :: syntax_kind assume k: "k \<noteq> TOMBSTONE"
    then obtain D where D: "(ps_events p)[m := Start k f] @ [Finish] = ps_events p0 @ D" "nested D"
      "leaf_kinds D = map (kind_at p0) [ps_pos p0..<ps_pos p]" using ex [OF k] lf by auto
    have "D \<noteq> []"
    proof
      assume "D = []"
      then have p0: "ps_events p0 = (ps_events p)[m := Start k f] @ [Finish]" using D by simp
      have "Suc k \<noteq> TOMBSTONE" by simp
      then obtain D' where "(ps_events p)[m := Start (Suc k) f] @ [Finish] = ps_events p0 @ D'" using ex [of "Suc k"] lf by auto
      then have "(ps_events p)[m := Start (Suc k) f] = (ps_events p)[m := Start k f]" using p0 by simp
      then show False using lf(1) by (metis event.inject(1) n_not_Suc_n nth_list_update_eq)
    qed
    then obtain X where "D = X @ [Finish]" using D(1) by (metis append_butlast_last_id last_appendR last_snoc)
    then show "\<exists>X. (ps_events p)[m := Start k f] = ps_events p0 @ X \<and> nested (X @ [Finish])
      \<and> leaf_kinds X = map (kind_at p0) [ps_pos p0..<ps_pos p]" using D by auto
  qed
qed

lemma inside_advances:
  assumes "inside p0 m p" "advances p q"
  shows "inside p0 m q"
  unfolding inside_def
proof (intro allI impI)
  fix k :: syntax_kind assume "k \<noteq> TOMBSTONE"
  then obtain l f X where m: "m < length (ps_events p)" "ps_events p ! m = Start l f"
    and X: "(ps_events p)[m := Start k f] = ps_events p0 @ X" "nested (X @ [Finish])" "leaf_kinds X = map (kind_at p0) [ps_pos p0..<ps_pos p]"
    using inside_splits [OF assms(1)] by metis
  obtain D where D: "ps_events q = ps_events p @ D" "nested D" "leaf_kinds D = map (kind_at p) [ps_pos p..<ps_pos q]"
    using assms(2) by (auto simp: advances_def)
  have c: "complete m k q = Some (q\<lparr>ps_events := (ps_events p)[m := Start k f] @ D @ [Finish]\<rparr>)"
    using m D(1) by (simp add: complete_def nth_opt_def nth_append list_update_append push_event_def)
  have s: "same_input p0 p" "ps_pos p0 \<le> ps_pos p" using inside_same [OF assms(1)] by auto
  have "[ps_pos p0..<ps_pos q] = [ps_pos p0..<ps_pos p] @ [ps_pos p..<ps_pos q]"
    using s(2) advances_pos [OF assms(2)] by (metis le_add_diff_inverse upt_add_eq_append)
  moreover have "kind_at p = kind_at p0" using s(1) by (rule same_input_reads)
  ultimately have "leaf_kinds (X @ D @ [Finish]) = map (kind_at p0) [ps_pos p0..<ps_pos q]" using X(3) D(3) by simp
  then have "advances p0 (q\<lparr>ps_events := (ps_events p)[m := Start k f] @ D @ [Finish]\<rparr>)"
    using s assms(2) X(1) nested_insert [OF X(2) D(2)] by (auto simp: advances_def same_input_def)
  then show "\<exists>p'. complete m k q = Some p' \<and> advances p0 p'" using c by blast
qed

lemma nth_kind_push [simp]: "nth_kind (push_event e p) n = nth_kind p n"
  by (simp add: nth_kind_def push_event_def kind_at_def)

lemma at_push [simp]: "at (push_event e p) k = at p k" "at_end (push_event e p) = at_end p" "at_name (push_event e p) = at_name p"
  "ps_pos (push_event e p) = ps_pos p"
  by (simp_all add: at_def at_end_def at_name_def, simp_all add: push_event_def)

lemma nth_kind_error [simp]: "nth_kind (error m p) n = nth_kind p n" "at (error m p) k = at p k" "ps_pos (error m p) = ps_pos p"
  by (simp_all add: error_def)

lemma nth_kind_bump [simp]: "nth_kind (do_bump k p) n = nth_kind p (Suc n)" "ps_pos (do_bump k p) = Suc (ps_pos p)"
  by (simp_all add: do_bump_def push_event_def nth_kind_def kind_at_def)

lemma at_before_end: "at p k \<Longrightarrow> k \<noteq> EOF \<Longrightarrow> ps_pos p < length (ps_indices p) \<and> kind_at p (ps_pos p) = k"
  by (auto simp: at_def nth_kind_def split: if_splits)

lemma advances_error: "parser_ok p \<Longrightarrow> advances p (error m p)"
  by (auto simp: advances_def error_def push_event_def same_input_def parser_ok_def nested_single)

lemma advances_bump: "at p k \<Longrightarrow> k \<noteq> EOF \<Longrightarrow> advances p (do_bump k p)"
  using at_before_end [of p k] by (auto simp: advances_def do_bump_def push_event_def same_input_def nested_single)

lemma advances_bump_any: "parser_ok p \<Longrightarrow> advances p (bump_any p)"
  using advances_bump [of p "current p"] by (auto simp: bump_any_def advances_refl at_def)

lemma bump_any_pos: "current p \<noteq> EOF \<Longrightarrow> ps_pos (bump_any p) = Suc (ps_pos p)"
  by (simp add: bump_any_def)

lemma not_at_end: "parser_ok p \<Longrightarrow> \<not> at_end p \<longleftrightarrow> current p \<noteq> EOF"
  by (auto simp: at_end_def nth_kind_def parser_ok_def)

lemma advances_eat: "parser_ok p \<Longrightarrow> k \<noteq> EOF \<Longrightarrow> advances p (snd (eat k p))"
  by (simp add: eat_def advances_refl advances_bump)

lemma advances_expect: "parser_ok p \<Longrightarrow> k \<noteq> EOF \<Longrightarrow> advances p (snd (expect k p))"
  by (simp add: expect_def eat_def advances_error advances_bump split: bool.splits)

lemma inside_start:
  assumes "parser_ok p"
  shows "inside p (length (ps_events p)) (push_event (Start TOMBSTONE None) p)"
proof -
  have "advances p (p\<lparr>ps_events := ps_events p @ [Start k None, Finish]\<rparr>)" if "k \<noteq> TOMBSTONE" for k
    using assms nested_node [OF that nested_Nil] by (auto simp: advances_def same_input_def parser_ok_def)
  then show ?thesis by (simp add: inside_def complete_def nth_opt_def push_event_def)
qed

text \<open>A completed node of the events since \<open>p0\<close>, which may still get a parent.\<close>

definition completed :: "parser \<Rightarrow> nat \<Rightarrow> parser \<Rightarrow> bool" where
  "completed p0 c p \<longleftrightarrow> length (ps_events p0) \<le> c \<and> c < length (ps_events p) \<and> is_start (ps_events p ! c)"

lemma inside_precede:
  assumes "advances p0 p" "completed p0 c p"
  obtains q where "inside p0 (length (ps_events p)) q" "ps_pos q = ps_pos p" "\<And>n. nth_kind q n = nth_kind p n" "same_input p q"
    "\<And>k. precede c p k = k (length (ps_events p)) q"
proof -
  let ?m = "length (ps_events p)"
  obtain D where D: "ps_events p = ps_events p0 @ D" "nested D" "leaf_kinds D = map (kind_at p0) [ps_pos p0..<ps_pos p]"
    using assms(1) by (auto simp: advances_def)
  define i where "i = c - length (ps_events p0)"
  have i: "i < length D" "c = length (ps_events p0) + i" using assms(2) D(1) by (auto simp: completed_def i_def)
  then obtain k f where kf: "D ! i = Start k f" using assms(2) D(1) by (cases "D ! i") (auto simp: completed_def nth_append)
  define A B where "A = take i D" and "B = drop (Suc i) D"
  have AB: "D = A @ Start k f # B" "length A = i" using i(1) kf id_take_nth_drop [OF i(1)] by (auto simp: A_def B_def)
  define q where "q = p\<lparr>ps_events := ps_events p0 @ A @ Start k (Some (?m - c)) # B @ [Start TOMBSTONE None]\<rparr>"
  have mc: "?m - c = Suc (length B)" using D(1) AB i(2) by simp
  show thesis
  proof (rule that [of q])
    show "precede c p h = h ?m q" for h :: "nat \<Rightarrow> parser \<Rightarrow> 'r option"
      using D(1) AB i(2) by (simp add: precede_def start_def push_event_def nth_opt_def nth_append list_update_append q_def)
    show "inside p0 ?m q" unfolding inside_def
    proof (intro allI impI)
      fix l :: syntax_kind assume l: "l \<noteq> TOMBSTONE"
      have "complete ?m l q = Some (p\<lparr>ps_events := ps_events p0 @ A @ Start k (Some (Suc (length B))) # B @ [Start l None, Finish]\<rparr>)"
        using D(1) AB mc by (simp add: complete_def nth_opt_def nth_append list_update_append push_event_def q_def)
      moreover have "nested (A @ Start k (Some (Suc (length B))) # B @ [Start l None, Finish])"
        using D(2) l unfolding AB(1) by (rule nested_precede)
      ultimately show "\<exists>p'. complete ?m l q = Some p' \<and> advances p0 p'"
        using assms(1) D(3) AB(1) by (auto simp: advances_def same_input_def)
    qed
  qed (simp_all add: q_def same_input_def nth_kind_def kind_at_def)
qed

section \<open>Rules\<close>

text \<open>\<open>exec p0 ctx n p X\<close>: from the state \<open>p\<close>, which continues \<open>p0\<close> with the node of \<open>ctx\<close> open, if any, the rest
  \<open>X\<close> of a function returns, keeps the contract with \<open>p0\<close> and reaches position \<open>n\<close>.\<close>

definition reached :: "parser \<Rightarrow> nat option \<Rightarrow> parser \<Rightarrow> bool" where
  "reached p0 ctx p \<longleftrightarrow> (case ctx of None \<Rightarrow> advances p0 p | Some m \<Rightarrow> inside p0 m p)"

definition exec :: "parser \<Rightarrow> nat option \<Rightarrow> nat \<Rightarrow> parser \<Rightarrow> parser option \<Rightarrow> bool" where
  "exec p0 ctx n p X \<longleftrightarrow> (parser_ok p0 \<longrightarrow> reached p0 ctx p \<longrightarrow> (\<exists>p'. X = Some p' \<and> advances p0 p' \<and> n \<le> ps_pos p'))"

abbreviation keeps :: "nat \<Rightarrow> parser \<Rightarrow> parser option \<Rightarrow> bool" where
  "keeps n p X \<equiv> exec p None n p X"

lemma reached_advances: "reached p0 ctx p \<Longrightarrow> advances p q \<Longrightarrow> reached p0 ctx q"
  by (auto simp: reached_def intro: advances_trans inside_advances split: option.splits)

lemma reached_ok: "parser_ok p0 \<Longrightarrow> reached p0 ctx p \<Longrightarrow> parser_ok p"
proof (cases ctx)
  case (Some m)
  assume "parser_ok p0" "reached p0 ctx p"
  then have "same_input p0 p" "ps_pos p \<le> length (ps_indices p0)" "parser_ok p0" using Some inside_same by (auto simp: reached_def)
  then show ?thesis using same_input_reads [of p0 p] by (simp add: parser_ok_def same_input_def)
qed (auto simp: reached_def intro: advances_ok)

lemma exec_ok: "(parser_ok p \<Longrightarrow> exec p0 ctx n p X) \<Longrightarrow> exec p0 ctx n p X"
  using reached_ok by (auto simp: exec_def)

lemma exec_Some: "n \<le> ps_pos p \<Longrightarrow> exec p0 None n p (Some p)"
  by (simp add: exec_def reached_def)

lemma exec_step: "advances p q \<Longrightarrow> exec p0 ctx n q X \<Longrightarrow> exec p0 ctx n p X"
  using reached_advances by (auto simp: exec_def)

lemma exec_complete: "k \<noteq> TOMBSTONE \<Longrightarrow> n \<le> ps_pos p \<Longrightarrow> exec p0 (Some m) n p (complete m k p)"
  by (auto simp: exec_def reached_def inside_def dest!: spec [of _ k]) (auto dest!: complete_SomeD)

lemma exec_bind:
  assumes "keeps l p x" "\<And>q. parser_ok q \<Longrightarrow> advances p q \<Longrightarrow> l \<le> ps_pos q \<Longrightarrow> exec p0 ctx n q (f q)"
  shows "exec p0 ctx n p (Option.bind x f)"
proof (rule exec_ok)
  assume ok: "parser_ok p"
  then obtain q where "x = Some q" "advances p q" "l \<le> ps_pos q"
    using assms(1) advances_refl by (auto simp: exec_def reached_def)
  then show ?thesis using exec_step assms(2) advances_ok [OF ok] by fastforce
qed

lemma exec_keeps: "keeps n p x \<Longrightarrow> exec p0 None n p x"
proof (rule exec_ok)
  assume "keeps n p x" "parser_ok p"
  then show ?thesis by (auto simp: exec_def reached_def advances_refl intro: advances_trans)
qed

lemma exec_if: "(b \<Longrightarrow> exec p0 ctx n p X) \<Longrightarrow> (\<not> b \<Longrightarrow> exec p0 ctx n p Y) \<Longrightarrow> exec p0 ctx n p (if b then X else Y)"
  by simp

lemma exec_bump: "at p k \<Longrightarrow> k \<noteq> EOF \<Longrightarrow> exec p0 ctx n (do_bump k p) (f (do_bump k p)) \<Longrightarrow> exec p0 ctx n p (Option.bind (bump k p) f)"
  using exec_step [OF advances_bump] by (simp add: bump_def)

lemma exec_bump_last: "at p k \<Longrightarrow> k \<noteq> EOF \<Longrightarrow> n \<le> Suc (ps_pos p) \<Longrightarrow> exec p0 None n p (bump k p)"
  using exec_step [OF advances_bump exec_Some] by (simp add: bump_def)

lemma exec_pure:
  assumes "parser_ok p \<Longrightarrow> advances p q" "parser_ok q \<Longrightarrow> advances p q \<Longrightarrow> exec p0 ctx n q X"
  shows "exec p0 ctx n p X"
proof (rule exec_ok)
  assume ok: "parser_ok p"
  show ?thesis by (rule exec_step [OF assms(1) [OF ok] assms(2) [OF advances_ok [OF ok assms(1) [OF ok]] assms(1) [OF ok]]])
qed

lemma exec_error: "exec p0 ctx n (error m p) (f (error m p)) \<Longrightarrow> exec p0 ctx n p (Let (error m p) f)"
  unfolding Let_def by (rule exec_pure [OF advances_error])

lemma exec_error_last: "n \<le> ps_pos p \<Longrightarrow> exec p0 None n p (Some (error m p))"
  by (rule exec_pure [OF advances_error [where m = m]]) (simp_all add: exec_Some)

lemma exec_expect:
  assumes "k \<noteq> EOF" "\<And>q. parser_ok q \<Longrightarrow> advances p q \<Longrightarrow> exec p0 ctx n q (f q)"
  shows "exec p0 ctx n p (Let (snd (expect k p)) f)"
  unfolding Let_def by (rule exec_pure [OF advances_expect [OF _ assms(1)] assms(2)])

lemma exec_expect_last: "k \<noteq> EOF \<Longrightarrow> n \<le> ps_pos p \<Longrightarrow> exec p0 None n p (Some (snd (expect k p)))"
  by (rule exec_pure [OF advances_expect]) (auto intro: exec_Some le_trans dest: advances_pos)

lemma exec_eat:
  assumes "k \<noteq> EOF" "\<And>q. parser_ok q \<Longrightarrow> advances p q \<Longrightarrow> exec p0 ctx n q (f q)"
  shows "exec p0 ctx n p (Let (snd (eat k p)) f)"
  unfolding Let_def by (rule exec_pure [OF advances_eat [OF _ assms(1)] assms(2)])

lemma exec_eat_case:
  assumes "k \<noteq> EOF" "at p k \<Longrightarrow> exec p0 ctx n (do_bump k p) (f True (do_bump k p))" "\<not> at p k \<Longrightarrow> exec p0 ctx n p (f False p)"
  shows "exec p0 ctx n p (Let (eat k p) (case_prod f))"
  using assms exec_step [OF advances_bump] by (auto simp: eat_def)

lemma exec_bump_any:
  assumes "\<And>q. parser_ok q \<Longrightarrow> advances p q \<Longrightarrow> (current p \<noteq> EOF \<Longrightarrow> Suc (ps_pos p) \<le> ps_pos q) \<Longrightarrow> exec p0 ctx n q (f q)"
  shows "exec p0 ctx n p (Let (bump_any p) f)"
  unfolding Let_def by (rule exec_pure [OF advances_bump_any assms]) (simp_all add: bump_any_pos)

lemma exec_bump_any_last:
  assumes "n \<le> ps_pos p \<or> current p \<noteq> EOF \<and> n \<le> Suc (ps_pos p)"
  shows "exec p0 None n p (Some (bump_any p))"
proof (rule exec_pure [OF advances_bump_any])
  assume "advances p (bump_any p)"
  then show "exec p0 None n (bump_any p) (Some (bump_any p))"
    using assms bump_any_pos [of p] advances_pos [of p "bump_any p"] by (intro exec_Some) auto
qed simp

lemma exec_start:
  assumes "\<And>m q. q = push_event (Start TOMBSTONE None) p \<Longrightarrow> m = length (ps_events p) \<Longrightarrow> parser_ok q \<Longrightarrow> exec p (Some m) n q (body m q)"
  shows "keeps n p (start p body)"
proof -
  let ?q = "push_event (Start TOMBSTONE None) p"
  have "parser_ok ?q" if "parser_ok p" using that by (simp add: parser_ok_def push_event_def kind_at_def token_text_def)
  then show ?thesis using assms [of ?q "length (ps_events p)"] inside_start by (auto simp: exec_def reached_def start_def)
qed

text \<open>A loop whose body consumes a token whenever it goes on ends.\<close>

lemma repeat_loop_ends:
  assumes step: "\<And>s. I s \<Longrightarrow> \<exists>go s'. body s = Some (go, s') \<and> I s' \<and> (go \<longrightarrow> pos s < (pos s' :: nat))"
    and bound: "\<And>s. I s \<Longrightarrow> pos s \<le> N"
  shows "I s \<Longrightarrow> \<exists>s'. repeat_loop body s = Some s' \<and> I s'"
proof (induction "N - pos s" arbitrary: s rule: less_induct)
  case less
  obtain go s' where s': "body s = Some (go, s')" "I s'" "go \<longrightarrow> pos s < pos s'"
    using step [OF less.prems] by blast
  show ?case
  proof (cases go)
    case True
    then have "N - pos s' < N - pos s" using s'(3) bound [OF s'(2)] by simp
    from less.hyps [OF this s'(2)] obtain s'' where "repeat_loop body s' = Some s''" "I s''" by blast
    moreover have "repeat_loop body s = repeat_loop body s'" using s'(1) True by (subst repeat_loop.simps) simp
    ultimately show ?thesis by simp
  next
    case False
    then show ?thesis using s' by (subst repeat_loop.simps) auto
  qed
qed

lemma repeat_loop_exit:
  assumes "repeat_loop body s = Some s'"
  shows "\<exists>t. body t = Some (False, s')"
proof (rule repeat_loop.raw_induct [where P = "\<lambda>body s s'. \<exists>t. body t = Some (False, s')", OF _ assms])
  fix loop body s s'
  assume 1: "\<And>body s s'. loop body s = Some s' \<Longrightarrow> \<exists>t. body t = Some (False, s')"
    "Option.bind (body s) (\<lambda>(go, s). if go then loop body s else Some s) = Some s'"
  obtain go t where t: "body s = Some (go, t)" using 1(2) by (cases "body s") auto
  show "\<exists>t. body t = Some (False, s')"
  proof (cases go)
    case True
    then have "loop body t = Some s'" using 1(2) t by simp
    then show ?thesis by (rule 1(1))
  next
    case False
    then have "t = s'" using 1(2) t by simp
    then show ?thesis using False t by auto
  qed
qed

lemma repeat_loop_total:
  assumes step: "\<And>s. parser_ok (st s) \<Longrightarrow> I s \<Longrightarrow>
      \<exists>go s'. body s = Some (go, s') \<and> advances (st s) (st s') \<and> I s' \<and> (go \<longrightarrow> ps_pos (st s) < ps_pos (st s'))"
    and "parser_ok (st s)" "I s"
  shows "\<exists>s'. repeat_loop body s = Some s' \<and> advances (st s) (st s') \<and> I s'"
proof (rule repeat_loop_ends [where pos = "\<lambda>t. ps_pos (st t)" and N = "length (ps_indices (st s))"])
  fix t assume t: "advances (st s) (st t) \<and> I t"
  then have "parser_ok (st t)" using advances_ok [OF assms(2)] by simp
  from step [OF this] t obtain go t' where "body t = Some (go, t')" "advances (st t) (st t')" "I t'" "go \<longrightarrow> ps_pos (st t) < ps_pos (st t')"
    by blast
  then show "\<exists>go s'. body t = Some (go, s') \<and> (advances (st s) (st s') \<and> I s') \<and> (go \<longrightarrow> ps_pos (st t) < ps_pos (st s'))"
    using t advances_trans by blast
qed (use assms(2,3) advances_refl in \<open>auto simp: advances_def\<close>)

lemma exec_repeat:
  assumes "\<And>q. parser_ok q \<Longrightarrow> advances p q \<Longrightarrow>
      \<exists>go q'. body q = Some (go, q') \<and> advances q q' \<and> (go \<longrightarrow> ps_pos q < ps_pos q')"
  shows "keeps (ps_pos p) p (repeat_loop body p)"
proof -
  have "\<exists>q. repeat_loop body p = Some q \<and> advances p q \<and> advances p q" if "parser_ok p"
    using repeat_loop_total [of "\<lambda>q. q" "\<lambda>q. advances p q" body p] assms that advances_refl [OF that]
    by (metis (no_types, lifting) advances_trans)
  then show ?thesis by (auto simp: exec_def dest: advances_pos)
qed

lemma exec_while:
  assumes "\<And>q. parser_ok q \<Longrightarrow> advances p q \<Longrightarrow> b q \<Longrightarrow> keeps (Suc (ps_pos q)) q (body q)"
  shows "keeps (ps_pos p) p (while_loop b body p)"
  unfolding while_loop_def
proof (rule exec_repeat)
  fix q assume q: "parser_ok q" "advances p q"
  show "\<exists>go q'. (if b q then map_option (Pair True) (body q) else Some (False, q)) = Some (go, q') \<and> advances q q' \<and> (go \<longrightarrow> ps_pos q < ps_pos q')"
  proof (cases "b q")
    case True
    then have "keeps (Suc (ps_pos q)) q (body q)" using assms q by blast
    then show ?thesis using True q(1) by (auto simp: exec_def reached_def advances_refl Suc_le_eq)
  qed (use q in \<open>auto simp: advances_refl\<close>)
qed

lemma exec_eat_loop:
  assumes "k \<noteq> EOF" "\<And>q. parser_ok q \<Longrightarrow> advances p q \<Longrightarrow> keeps (ps_pos q) q (body q)"
  shows "keeps (ps_pos p) p (eat_loop k body p)"
  unfolding eat_loop_def
proof (rule exec_while)
  fix q assume q: "parser_ok q" "advances p q" "at q k"
  have a: "advances q (do_bump k q)" using q(3) assms(1) by (rule advances_bump)
  then have "keeps (Suc (ps_pos q)) (do_bump k q) (body (do_bump k q))"
    using assms(2) [of "do_bump k q"] advances_ok [OF q(1) a] advances_trans [OF q(2) a] by simp
  then show "keeps (Suc (ps_pos q)) q (body (snd (eat k q)))" 
    using q(3) exec_step [OF a exec_keeps] by (simp add: eat_def)
qed

lemma exec_err_recover:
  assumes "at p EOF \<or> token_set_contains r (current p) \<Longrightarrow> n \<le> ps_pos p" "n \<le> Suc (ps_pos p)"
  shows "keeps n p (err_recover msg r p)"
  unfolding err_recover_def
proof (intro exec_if exec_error_last exec_start exec_error exec_bump_any)
  fix m q' q assume "\<not> (at p EOF \<or> token_set_contains r (current p))" "q = push_event (Start TOMBSTONE None) p"
    "current (error msg q) \<noteq> EOF \<Longrightarrow> Suc (ps_pos (error msg q)) \<le> ps_pos q'" "parser_ok q'"
  then have "n \<le> ps_pos q'" using assms(2) by (auto simp: at_def intro: le_trans)
  then show "exec p (Some m) n q' (Option.bind (while_loop (\<lambda>p. \<not> at_end p \<and> \<not> token_set_contains r (current p)) (\<lambda>p. Some (bump_any p)) q') (complete m ERROR))"
    by (intro exec_bind [OF exec_while] exec_complete exec_bump_any_last) (auto simp: not_at_end)
qed (use assms in auto)

lemma exec_err_and_bump: "n \<le> ps_pos p \<or> current p \<noteq> EOF \<and> n \<le> Suc (ps_pos p) \<Longrightarrow> keeps n p (err_and_bump msg p)"
  unfolding err_and_bump_def by (rule exec_err_recover) (auto simp: at_def)

text \<open>Most calls only need that the callee does not go back.\<close>

lemma exec_call:
  assumes "keeps (ps_pos p) p x" "\<And>q. parser_ok q \<Longrightarrow> advances p q \<Longrightarrow> exec p0 ctx n q (f q)"
  shows "exec p0 ctx n p (Option.bind x f)"
  using assms(1) by (rule exec_bind) (rule assms(2))

lemma exec_mono: "exec p0 ctx l p x \<Longrightarrow> n \<le> l \<Longrightarrow> exec p0 ctx n p x"
  by (auto simp: exec_def)

lemma exec_last: "keeps l p x \<Longrightarrow> n \<le> l \<Longrightarrow> exec p0 None n p x"
  by (rule exec_mono [OF exec_keeps])

lemma map_snd_Pair [simp]: "map_option snd (map_option (Pair b) x) = x"
  by (cases x) simp_all

lemma map_snd_if [simp]: "map_option snd (if b then x else y) = (if b then map_option snd x else map_option snd y)"
  by simp


lemma at_bump [simp]: "at (do_bump l p) k \<longleftrightarrow> nth_kind p 1 = k"
  by (simp add: at_def)

text \<open>The body of a loop with a way out.\<close>

definition goes :: "parser \<Rightarrow> parser \<Rightarrow> (bool \<times> parser) option \<Rightarrow> bool" where
  "goes p0 p X \<longleftrightarrow> (parser_ok p0 \<longrightarrow> advances p0 p \<longrightarrow>
     (\<exists>go p'. X = Some (go, p') \<and> advances p0 p' \<and> (go \<longrightarrow> Suc (ps_pos p0) \<le> ps_pos p')))"

lemma exec_repeat_goes: "n \<le> ps_pos p \<Longrightarrow> (\<And>q. parser_ok q \<Longrightarrow> advances p q \<Longrightarrow> goes q q (body q)) \<Longrightarrow> exec p0 None n p (repeat_loop body p)"
  by (rule exec_last [OF exec_repeat]) (auto simp: goes_def advances_refl Suc_le_eq)

lemma goes_on: "exec p0 None (Suc (ps_pos p0)) p x \<Longrightarrow> goes p0 p (map_option (Pair True) x)"
  by (auto simp: goes_def exec_def reached_def)

lemma goes_stop: "exec p0 None (ps_pos p0) p (Some x) \<Longrightarrow> goes p0 p (Some (False, x))"
  by (auto simp: goes_def exec_def reached_def)

lemma goes_leave: "exec p0 None (ps_pos p0) p x \<Longrightarrow> goes p0 p (map_option (Pair False) x)"
  by (auto simp: goes_def exec_def reached_def)

lemma goes_if: "(b \<Longrightarrow> goes p0 p X) \<Longrightarrow> (\<not> b \<Longrightarrow> goes p0 p Y) \<Longrightarrow> goes p0 p (if b then X else Y)"
  by simp

lemma goes_bump: "at p k \<Longrightarrow> k \<noteq> EOF \<Longrightarrow> goes p0 (do_bump k p) (f (do_bump k p)) \<Longrightarrow> goes p0 p (Option.bind (bump k p) f)"
  using advances_trans [OF _ advances_bump] by (auto simp: bump_def goes_def)

lemma goes_call:
  assumes "keeps (ps_pos p) p x" "\<And>q. parser_ok q \<Longrightarrow> advances p q \<Longrightarrow> goes p0 q (f q)"
  shows "goes p0 p (Option.bind x f)"
  unfolding goes_def
proof (intro impI)
  assume p: "parser_ok p0" "advances p0 p"
  then obtain q where "x = Some q" "advances p q" using assms(1) advances_ok [OF p] advances_refl by (auto simp: exec_def reached_def)
  then show "\<exists>go p'. Option.bind x f = Some (go, p') \<and> advances p0 p' \<and> (go \<longrightarrow> Suc (ps_pos p0) \<le> ps_pos p')"
    using assms(2) [of q] p advances_ok [OF p] advances_trans [OF p(2)] advances_ok [of p q] by (auto simp: goes_def)
qed

lemmas goes_rules = goes_if goes_bump goes_on goes_stop goes_leave

lemmas exec_loops = exec_last [OF exec_while] exec_last [OF exec_eat_loop]

lemma exec_eat_last: "k \<noteq> EOF \<Longrightarrow> n \<le> ps_pos p \<Longrightarrow> exec p0 None n p (Some (snd (eat k p)))"
  by (rule exec_pure [OF advances_eat]) (auto intro: exec_Some le_trans dest: advances_pos)

lemma exec_let: "exec p0 ctx n p (f p) \<Longrightarrow> exec p0 ctx n p (Let p f)"
  by simp

lemma exec_let_if:
  "(b \<Longrightarrow> exec p0 ctx n p (Let x f)) \<Longrightarrow> (\<not> b \<Longrightarrow> exec p0 ctx n p (Let y f)) \<Longrightarrow> exec p0 ctx n p (Let (if b then x else y) f)"
  by simp

lemma map_snd_bind: "map_option snd (Option.bind x f) = Option.bind x (\<lambda>p. map_option snd (f p))"
  by (cases x) auto

lemma exec_call_pair:
  assumes "keeps (ps_pos p) p (map_option snd x)"
    "\<And>k q. x = Some (k, q) \<Longrightarrow> parser_ok q \<Longrightarrow> advances p q \<Longrightarrow> exec p0 ctx n q (f k q)"
  shows "exec p0 ctx n p (Option.bind x (\<lambda>(k, q). f k q))"
proof (rule exec_ok)
  assume ok: "parser_ok p"
  then obtain k q where q: "x = Some (k, q)" "advances p q"
    using assms(1) advances_refl by (auto simp: exec_def reached_def)
  show ?thesis unfolding q(1) by (simp, rule exec_step [OF q(2) assms(2) [OF q(1) advances_ok [OF ok q(2)] q(2)]])
qed

lemma exec_expect_case:
  assumes "k \<noteq> EOF" "at p k \<Longrightarrow> exec p0 ctx n (do_bump k p) (f (do_bump k p))"
    "\<not> at p k \<Longrightarrow> exec p0 ctx n (error (Expected k) p) (f (error (Expected k) p))"
  shows "exec p0 ctx n p (Let (snd (expect k p)) f)"
  using assms exec_step [OF advances_bump] exec_pure [OF advances_error] by (cases "at p k") (auto simp: expect_def eat_def)

lemma exec_abandon:
  assumes "advances (push_event (Start TOMBSTONE None) p) q" "m = length (ps_events p)" "n \<le> ps_pos q"
  shows "exec p ctx n q (abandon m q)"
  unfolding exec_def
proof (intro impI)
  assume ok: "parser_ok p"
  obtain D where D: "ps_events q = ps_events p @ Start TOMBSTONE None # D" "nested D"
    "leaf_kinds D = map (kind_at p) [ps_pos p..<ps_pos q]" "same_input p q" "ps_pos p \<le> ps_pos q" "ps_pos q \<le> length (ps_indices p)"
    using assms(1) by (auto simp: advances_def push_event_def same_input_def kind_at_def fun_eq_iff)
  have "nested (Tombstone # D)" using nested_append [OF nested_single [of Tombstone] D(2)] by simp
  then have "advances p (q\<lparr>ps_events := ps_events p @ Tombstone # D\<rparr>)" "advances p (q\<lparr>ps_events := ps_events p @ D\<rparr>)"
    using D by (auto simp: advances_def same_input_def)
  moreover have "abandon m q = Some (if D = [] then q\<lparr>ps_events := ps_events p @ D\<rparr> else q\<lparr>ps_events := ps_events p @ Tombstone # D\<rparr>)"
    using D(1) assms(2) by (auto simp: abandon_def butlast_append nth_append list_update_append)
  ultimately show "\<exists>p'. abandon m q = Some p' \<and> advances p p' \<and> n \<le> ps_pos p'" using assms(3) by auto
qed

lemmas exec_rules = exec_start exec_complete exec_if exec_bump exec_bump_last exec_error exec_error_last
  exec_expect exec_expect_last exec_eat exec_eat_case exec_eat_last exec_bump_any exec_bump_any_last exec_Some exec_let exec_let_if

text \<open>What a list of items promises when its items do: one item, then more behind separators.\<close>

locale grammar_item =
  fixes item :: "parser \<Rightarrow> parser option"
  assumes item_keeps: "keeps (ps_pos p) p (item p)"
begin

lemma separated_keeps:
  assumes "k \<noteq> EOF" "n \<le> ps_pos p"
  shows "exec p0 None n p (Option.bind (item p) (eat_loop k item))"
proof (rule exec_call [OF item_keeps])
  fix q assume "advances p q"
  then show "exec p0 None n q (eat_loop k item q)"
    using assms advances_pos [of p q] by (intro exec_last [OF exec_eat_loop] item_keeps) auto
qed

end

text \<open>C16. \<^verbatim>\<open>err_and_bump\<close>, documented to record an error and to consume the current token, consumes all tokens up
  to the end of the file, as its recovery set is empty: whatever the state, the parser is at the end afterwards.\<close>

theorem err_and_bump_swallows:
  assumes "parser_ok p"
  shows "\<exists>q. err_and_bump msg p = Some q \<and> at_end q \<and> leaf_kinds (ps_events q) = leaf_kinds (ps_events p) @ map (kind_at p) [ps_pos p..<length (ps_indices p)]"
proof -
  obtain q where q: "err_and_bump msg p = Some q" "advances p q"
    using exec_err_and_bump [of "ps_pos p" p msg] assms by (auto simp: exec_def reached_def advances_refl)
  have okq: "parser_ok q" by (rule advances_ok [OF assms q(2)])
  have "at_end q"
  proof (cases "at p EOF")
    case True
    then show ?thesis using q(1) not_at_end [OF assms] by (auto simp: err_and_bump_def err_recover_def at_def error_def)
  next
    case False
    let ?body = "\<lambda>p. if \<not> at_end p \<and> \<not> token_set_contains token_set_EMPTY (current p) then map_option (Pair True) (Some (bump_any p)) else Some (False, p)"
    obtain r where r: "repeat_loop ?body (bump_any (error msg (push_event (Start TOMBSTONE None) p))) = Some r" "complete (length (ps_events p)) ERROR r = Some q"
      using q(1) False by (auto simp: err_and_bump_def err_recover_def start_def while_loop_def bind_eq_Some_conv)
    obtain t where "?body t = Some (False, r)" using repeat_loop_exit [OF r(1)] by blast
    then have "at_end r" by (auto split: if_splits)
    then show ?thesis using complete_SomeD [OF r(2)] by (auto simp: at_end_def)
  qed
  then show ?thesis using q advances_indices [OF q(2)] okq by (auto simp: advances_def at_end_def parser_ok_def)
qed

text \<open>The first token of three is unexpected; the other two go with it.\<close>

theorem err_and_bump_swallows_witness:
  "\<exists>q. err_and_bump (Msg ''unexpected'') (parser_new [(SEMICOLON, 1), (PACKAGE_KW, 7), (SEMICOLON, 1)] '';package;'') = Some q \<and> at_end q
    \<and> leaf_kinds (ps_events q) = [SEMICOLON, PACKAGE_KW, SEMICOLON]"
proof -
  have "parser_ok (parser_new [(SEMICOLON, 1), (PACKAGE_KW, 7), (SEMICOLON, 1)] '';package;'')" by code_simp
  from err_and_bump_swallows [OF this, of "Msg ''unexpected''"] show ?thesis
    by (auto simp: parser_new_def non_trivia_def is_trivia_def upt_rec kind_at_def)
qed

end
