(* ===== verification/Grammar_Names.thy ===== *)
theory Grammar_Names
  imports Parser_Events
begin

text \<open>
  The grammar shared by all declarations, \<^verbatim>\<open>crates/spar-parser/src/grammar/mod.rs\<close> and \<^verbatim>\<open>categories.rs\<close>, and
  the mode references of \<^verbatim>\<open>modes.rs\<close>: names, component categories, classifier references with their
  prototype bindings, \<^verbatim>\<open>in modes\<close>. Classifier references and prototype bindings call each other; the depth of
  the calls is bounded by a fuel argument, and a fuel above the number of tokens left is enough.
\<close>

section \<open>Categories\<close>

datatype grammar_category =
    CatAbstract | CatBus | CatData | CatDevice | CatMemory | CatProcess | CatProcessor | CatSubprogram
  | CatSubprogramGroup | CatSystem | CatThread | CatThreadGroup | CatVirtualBus | CatVirtualProcessor

primrec category_as_str :: "grammar_category \<Rightarrow> string" where
  "category_as_str CatAbstract = ''abstract''"
| "category_as_str CatBus = ''bus''"
| "category_as_str CatData = ''data''"
| "category_as_str CatDevice = ''device''"
| "category_as_str CatMemory = ''memory''"
| "category_as_str CatProcess = ''process''"
| "category_as_str CatProcessor = ''processor''"
| "category_as_str CatSubprogram = ''subprogram''"
| "category_as_str CatSubprogramGroup = ''subprogram group''"
| "category_as_str CatSystem = ''system''"
| "category_as_str CatThread = ''thread''"
| "category_as_str CatThreadGroup = ''thread group''"
| "category_as_str CatVirtualBus = ''virtual bus''"
| "category_as_str CatVirtualProcessor = ''virtual processor''"

definition peek_category :: "syntax_kind \<Rightarrow> syntax_kind \<Rightarrow> grammar_category option" where
  "peek_category cur next =
     (if cur = ABSTRACT_KW then Some CatAbstract
      else if cur = BUS_KW then Some CatBus
      else if cur = DATA_KW then Some CatData
      else if cur = DEVICE_KW then Some CatDevice
      else if cur = MEMORY_KW then Some CatMemory
      else if cur = PROCESS_KW then Some CatProcess
      else if cur = PROCESSOR_KW then Some CatProcessor
      else if cur = SYSTEM_KW then Some CatSystem
      else if cur = THREAD_KW then Some (if next = GROUP_KW then CatThreadGroup else CatThread)
      else if cur = SUBPROGRAM_KW then Some (if next = GROUP_KW then CatSubprogramGroup else CatSubprogram)
      else if cur = VIRTUAL_KW \<and> next = BUS_KW then Some CatVirtualBus
      else if cur = VIRTUAL_KW \<and> next = PROCESSOR_KW then Some CatVirtualProcessor
      else None)"

primrec allowed_in :: "grammar_category \<Rightarrow> grammar_category list" where
  "allowed_in CatAbstract = [CatAbstract, CatBus, CatData, CatDevice, CatMemory, CatProcess, CatProcessor, CatSubprogram,
     CatSubprogramGroup, CatSystem, CatThread, CatThreadGroup, CatVirtualBus, CatVirtualProcessor]"
| "allowed_in CatBus = [CatAbstract, CatVirtualBus]"
| "allowed_in CatData = [CatAbstract, CatData, CatSubprogram]"
| "allowed_in CatDevice = [CatAbstract, CatBus, CatData, CatVirtualBus]"
| "allowed_in CatMemory = [CatAbstract, CatBus, CatMemory, CatVirtualBus]"
| "allowed_in CatProcess = [CatAbstract, CatData, CatSubprogram, CatSubprogramGroup, CatThread, CatThreadGroup]"
| "allowed_in CatProcessor = [CatAbstract, CatBus, CatMemory, CatVirtualBus, CatVirtualProcessor]"
| "allowed_in CatSubprogram = [CatAbstract, CatData, CatSubprogram]"
| "allowed_in CatSubprogramGroup = [CatAbstract, CatData, CatSubprogram, CatSubprogramGroup]"
| "allowed_in CatSystem = [CatAbstract, CatBus, CatData, CatDevice, CatMemory, CatProcess, CatProcessor, CatSubprogram,
     CatSubprogramGroup, CatSystem, CatVirtualBus, CatVirtualProcessor]"
| "allowed_in CatThread = [CatAbstract, CatData, CatSubprogram, CatSubprogramGroup]"
| "allowed_in CatThreadGroup = [CatAbstract, CatData, CatSubprogram, CatSubprogramGroup, CatThread, CatThreadGroup]"
| "allowed_in CatVirtualBus = [CatAbstract, CatVirtualBus]"
| "allowed_in CatVirtualProcessor = [CatAbstract, CatVirtualBus, CatVirtualProcessor]"

definition may_contain :: "grammar_category \<Rightarrow> grammar_category \<Rightarrow> bool" where
  "may_contain container sub \<longleftrightarrow> sub \<in> set (allowed_in container)"

datatype feature_kind = BusAccess | ParameterFeature

primrec feature_kind_as_str :: "feature_kind \<Rightarrow> string" where
  "feature_kind_as_str BusAccess = ''bus access''"
| "feature_kind_as_str ParameterFeature = ''parameter''"

primrec may_have_feature :: "grammar_category \<Rightarrow> feature_kind \<Rightarrow> bool" where
  "may_have_feature CatAbstract k \<longleftrightarrow> k = BusAccess"
| "may_have_feature CatBus k \<longleftrightarrow> k = BusAccess"
| "may_have_feature CatData k \<longleftrightarrow> False"
| "may_have_feature CatDevice k \<longleftrightarrow> k = BusAccess"
| "may_have_feature CatMemory k \<longleftrightarrow> k = BusAccess"
| "may_have_feature CatProcess k \<longleftrightarrow> False"
| "may_have_feature CatProcessor k \<longleftrightarrow> k = BusAccess"
| "may_have_feature CatSubprogram k \<longleftrightarrow> k = ParameterFeature"
| "may_have_feature CatSubprogramGroup k \<longleftrightarrow> False"
| "may_have_feature CatSystem k \<longleftrightarrow> k = BusAccess"
| "may_have_feature CatThread k \<longleftrightarrow> False"
| "may_have_feature CatThreadGroup k \<longleftrightarrow> False"
| "may_have_feature CatVirtualBus k \<longleftrightarrow> k = BusAccess"
| "may_have_feature CatVirtualProcessor k \<longleftrightarrow> k = BusAccess"

section \<open>Names and classifier references\<close>

text \<open>\<^verbatim>\<open>if p.at(kind) { p.bump(kind) }\<close>.\<close>

definition bump_if :: "syntax_kind \<Rightarrow> parser \<Rightarrow> parser option" where
  "bump_if kind p = (if at p kind then bump kind p else Some p)"

definition at_ident_or_kw :: "parser \<Rightarrow> bool" where
  "at_ident_or_kw p \<longleftrightarrow> at p IDENT \<or> is_keyword (current p)"

definition bump_as_ident :: "parser \<Rightarrow> parser option" where
  "bump_as_ident p = (if at p IDENT then bump IDENT p else Some (bump_any p))"

definition component_category :: "parser \<Rightarrow> (bool \<times> parser) option" where
  "component_category p =
     (if \<not> is_component_category_kw (current p) then Some (False, p)
      else map_option (Pair True) (start p (\<lambda>m p. do {
        p \<leftarrow> (if current p = VIRTUAL_KW
              then do {
                p \<leftarrow> bump VIRTUAL_KW p;
                (if current p = BUS_KW then bump BUS_KW p
                 else if current p = PROCESSOR_KW then bump PROCESSOR_KW p
                 else Some (error (Msg ''expected `bus` or `processor` after `virtual`'') p)) }
              else if current p = THREAD_KW then do { p \<leftarrow> bump THREAD_KW p; bump_if GROUP_KW p }
              else if current p = SUBPROGRAM_KW then do { p \<leftarrow> bump SUBPROGRAM_KW p; bump_if GROUP_KW p }
              else if is_component_category_kw (current p) then Some (bump_any p)
              else None);
        complete m COMPONENT_CATEGORY p })))"

abbreviation category_node :: "parser \<Rightarrow> parser option" where
  "category_node p \<equiv> map_option snd (component_category p)"

definition direction_of_binding :: "parser \<Rightarrow> parser option" where
  "direction_of_binding p =
     (if at p IN_KW \<or> at p OUT_KW \<or> at p PROVIDES_KW \<or> at p REQUIRES_KW
      then start p (\<lambda>d p. do {
        p \<leftarrow> (if at p IN_KW then do { p \<leftarrow> bump IN_KW p; bump_if OUT_KW p }
              else if at p OUT_KW then bump OUT_KW p
              else Some (bump_any p));
        complete d DIRECTION p })
      else Some p)"

definition binding_kind :: "parser \<Rightarrow> parser option" where
  "binding_kind p =
     (if at p DATA_KW \<and> nth_kind p 1 = PORT_KW then do { p \<leftarrow> bump DATA_KW p; bump PORT_KW p }
      else if at p EVENT_KW \<and> nth_kind p 1 = DATA_KW then do { p \<leftarrow> bump EVENT_KW p; p \<leftarrow> bump DATA_KW p; Some (snd (eat PORT_KW p)) }
      else if at p EVENT_KW \<and> nth_kind p 1 = PORT_KW then do { p \<leftarrow> bump EVENT_KW p; bump PORT_KW p }
      else if at p EVENT_KW then bump EVENT_KW p
      else if at p DATA_KW \<and> nth_kind p 1 = ACCESS_KW then do { p \<leftarrow> bump DATA_KW p; bump ACCESS_KW p }
      else if at p BUS_KW \<and> nth_kind p 1 = ACCESS_KW then do { p \<leftarrow> bump BUS_KW p; bump ACCESS_KW p }
      else if at p FEATURE_KW then do { p \<leftarrow> bump FEATURE_KW p; bump_if GROUP_KW p }
      else if is_component_category_kw (current p) then category_node p
      else if at p PORT_KW then bump PORT_KW p
      else if at p ACCESS_KW then bump ACCESS_KW p
      else Some p)"

text \<open>The classifier reference inside a binding is the argument \<open>cref\<close>.\<close>

definition prototype_binding :: "(parser \<Rightarrow> parser option) \<Rightarrow> parser \<Rightarrow> parser option" where
  "prototype_binding cref p = start p (\<lambda>m p. do {
     p \<leftarrow> bump_as_ident p;
     let p = snd (expect FAT_ARROW p);
     p \<leftarrow> direction_of_binding p;
     p \<leftarrow> binding_kind p;
     p \<leftarrow> (if at_ident_or_kw p \<and> \<not> at p R_PAREN \<and> \<not> at p COMMA then cref p else Some p);
     complete m PROTOTYPE_BINDING p })"

definition prototype_binding_list :: "(parser \<Rightarrow> parser option) \<Rightarrow> parser \<Rightarrow> parser option" where
  "prototype_binding_list cref p = start p (\<lambda>m p. do {
     p \<leftarrow> bump L_PAREN p;
     p \<leftarrow> (if at_ident_or_kw p
           then do { p \<leftarrow> prototype_binding cref p; eat_loop COMMA (prototype_binding cref) p }
           else Some p);
     let p = snd (expect R_PAREN p);
     complete m PROTOTYPE_BINDING_LIST p })"

primrec classifier_ref_upto :: "nat \<Rightarrow> parser \<Rightarrow> (bool \<times> parser) option" where
  "classifier_ref_upto 0 p = None"
| "classifier_ref_upto (Suc n) p =
     (if \<not> at_ident_or_kw p then Some (False, p)
      else map_option (Pair True) (start p (\<lambda>m p. do {
        p \<leftarrow> bump_as_ident p;
        p \<leftarrow> while_loop (\<lambda>p. at p COLON_COLON) (\<lambda>p. do {
               p \<leftarrow> bump COLON_COLON p;
               (if at_ident_or_kw p then bump_as_ident p
                else Some (error (Msg ''expected identifier after `::`'') p)) }) p;
        p \<leftarrow> (if at p DOT
              then do {
                p \<leftarrow> bump DOT p;
                (if at_ident_or_kw p then bump_as_ident p
                 else Some (error (Msg ''expected implementation name after `.`'') p)) }
              else Some p);
        p \<leftarrow> (if at p L_PAREN then prototype_binding_list (\<lambda>p. map_option snd (classifier_ref_upto n p)) p else Some p);
        complete m CLASSIFIER_REF p })))"

definition classifier_ref :: "parser \<Rightarrow> (bool \<times> parser) option" where
  "classifier_ref p = classifier_ref_upto (Suc (length (ps_indices p))) p"

abbreviation classifier_node :: "parser \<Rightarrow> parser option" where
  "classifier_node p \<equiv> map_option snd (classifier_ref p)"

definition name :: "parser \<Rightarrow> (bool \<times> parser) option" where
  "name p =
     (if \<not> at p IDENT then Some (False, error (Msg ''expected name'') p)
      else map_option (Pair True) (start p (\<lambda>m p. do {
        p \<leftarrow> bump IDENT p;
        p \<leftarrow> repeat_loop (\<lambda>p.
               if at p COLON_COLON
               then do {
                 p \<leftarrow> bump COLON_COLON p;
                 (if at p IDENT then map_option (Pair True) (bump IDENT p)
                  else Some (False, error (Msg ''expected identifier after `::`'') p)) }
               else Some (False, p)) p;
        complete m NAME p })))"

abbreviation name_node :: "parser \<Rightarrow> parser option" where
  "name_node p \<equiv> map_option snd (name p)"

section \<open>Modes\<close>

definition mode_or_mapping :: "parser \<Rightarrow> parser option" where
  "mode_or_mapping p =
     (if at_ident_or_kw p
      then let p = bump_any p;
               (mapped, p) = eat FAT_ARROW p
           in if mapped \<and> at_ident_or_kw p then Some (bump_any p) else Some p
      else Some p)"

definition in_modes :: "parser \<Rightarrow> parser option" where
  "in_modes p =
     (if at p IN_KW \<and> nth_kind p 1 = MODES_KW
      then do {
        p \<leftarrow> bump IN_KW p;
        p \<leftarrow> bump MODES_KW p;
        let p = snd (expect L_PAREN p);
        p \<leftarrow> (if at_ident_or_kw p
              then do { p \<leftarrow> mode_or_mapping p; eat_loop COMMA mode_or_mapping p }
              else Some p);
        Some (snd (expect R_PAREN p)) }
      else Some p)"

section \<open>The contract\<close>

declare One_nat_def [simp del] One_nat_def [symmetric, simp]

lemma keyword_not_EOF [simp]: "is_keyword k \<Longrightarrow> k \<noteq> EOF" "is_component_category_kw k \<Longrightarrow> k \<noteq> EOF"
  by (auto simp: is_keyword_def is_component_category_kw_def)

lemma at_ident_not_EOF [simp]: "at_ident_or_kw p \<Longrightarrow> current p \<noteq> EOF"
  by (auto simp: at_ident_or_kw_def at_def)

lemma bump_if_keeps: "k \<noteq> EOF \<Longrightarrow> n \<le> ps_pos p \<Longrightarrow> exec p0 None n p (bump_if k p)"
  unfolding bump_if_def by (intro exec_rules) auto

lemma bump_as_ident_keeps: "n \<le> ps_pos p \<or> at_ident_or_kw p \<and> n \<le> Suc (ps_pos p) \<Longrightarrow> exec p0 None n p (bump_as_ident p)"
  unfolding bump_as_ident_def by (intro exec_rules) auto

lemma component_category_keeps:
  assumes "n \<le> ps_pos p \<or> is_component_category_kw (current p) \<and> n \<le> Suc (ps_pos p)"
  shows "exec p0 None n p (category_node p)"
proof (rule exec_last [OF _ order_refl])
  show "keeps n p (category_node p)"
    unfolding component_category_def map_snd_if map_snd_Pair option.map prod.sel
    using assms by (intro exec_rules exec_bind [where l = n] bump_if_keeps) (auto simp: at_def)
qed

lemma direction_of_binding_keeps: "n \<le> ps_pos p \<Longrightarrow> exec p0 None n p (direction_of_binding p)"
  unfolding direction_of_binding_def
  by (intro exec_rules exec_last [OF exec_start] exec_call bump_if_keeps) (auto dest!: advances_pos)

lemma binding_kind_keeps: "n \<le> ps_pos p \<Longrightarrow> exec p0 None n p (binding_kind p)"
  unfolding binding_kind_def
  by (intro exec_rules component_category_keeps bump_if_keeps exec_pure [OF advances_eat [where k = PORT_KW]]) (auto dest!: advances_pos)

text \<open>The fuel of a state is enough when it exceeds the number of tokens left.\<close>

definition enough_fuel :: "nat \<Rightarrow> parser \<Rightarrow> bool" where
  "enough_fuel n p \<longleftrightarrow> length (ps_indices p) - ps_pos p < n"

lemma enough_fuel_push [simp]: "enough_fuel n (push_event e p) = enough_fuel n p"
  by (simp add: enough_fuel_def push_event_def)

lemma advances_reads: "advances p q \<Longrightarrow> ps_pos p \<le> ps_pos q \<and> (\<forall>n. enough_fuel n p \<longrightarrow> enough_fuel n q)
    \<and> (ps_pos p < ps_pos q \<longrightarrow> (\<forall>n. enough_fuel (Suc n) p \<longrightarrow> enough_fuel n q))"
  by (auto simp: advances_def same_input_def enough_fuel_def)

lemma enough_fuel_less: "advances p q \<Longrightarrow> Suc (ps_pos p) \<le> ps_pos q \<Longrightarrow> enough_fuel (Suc n) p \<Longrightarrow> enough_fuel n q"
  by (auto simp: enough_fuel_def advances_def same_input_def)

lemma prototype_binding_keeps:
  assumes "\<And>q. enough_fuel f q \<Longrightarrow> keeps (ps_pos q) q (cref q)" "enough_fuel f p"
  shows "keeps (ps_pos p) p (prototype_binding cref p)"
  unfolding prototype_binding_def using assms(2)
  by (intro exec_rules exec_call bump_as_ident_keeps direction_of_binding_keeps binding_kind_keeps exec_last [OF assms(1)])
    (auto dest!: advances_reads)

lemma enough_fuel_bump [simp]: "at p k \<Longrightarrow> k \<noteq> EOF \<Longrightarrow> enough_fuel (Suc n) p \<Longrightarrow> enough_fuel n (do_bump k p)"
  by (rule enough_fuel_less [OF advances_bump]) simp_all

lemma prototype_binding_list_keeps:
  assumes "\<And>q. enough_fuel f q \<Longrightarrow> keeps (ps_pos q) q (cref q)" "enough_fuel (Suc f) p" "at p L_PAREN"
  shows "keeps (Suc (ps_pos p)) p (prototype_binding_list cref p)"
  unfolding prototype_binding_list_def
  by (intro exec_rules exec_call exec_loops prototype_binding_keeps [OF assms(1)])
    (use assms in \<open>auto dest!: advances_reads\<close>)

lemma classifier_ref_upto_keeps: "enough_fuel f p \<Longrightarrow> keeps (ps_pos p) p (map_option snd (classifier_ref_upto f p))"
proof (induction f arbitrary: p)
  case (Suc f)
  note binds = prototype_binding_list_keeps [OF Suc.IH, THEN exec_mono]
  show ?case unfolding classifier_ref_upto.simps map_snd_if map_snd_Pair option.map prod.sel using Suc.prems
    by (intro exec_rules exec_call exec_loops bump_as_ident_keeps binds) (auto dest!: advances_reads)
qed (simp add: enough_fuel_def)

lemma classifier_ref_keeps: "n \<le> ps_pos p \<Longrightarrow> exec p0 None n p (classifier_node p)"
  unfolding classifier_ref_def by (rule exec_last [OF classifier_ref_upto_keeps]) (auto simp: enough_fuel_def)

lemma name_keeps: "n \<le> ps_pos p \<or> at p IDENT \<and> n \<le> Suc (ps_pos p) \<Longrightarrow> exec p0 None n p (name_node p)"
  unfolding name_def map_snd_if map_snd_Pair option.map prod.sel
  by (intro exec_rules exec_keeps [OF exec_start] exec_call exec_repeat_goes goes_rules) (auto dest!: advances_reads)

lemma mode_or_mapping_keeps: "n \<le> ps_pos p \<Longrightarrow> exec p0 None n p (mode_or_mapping p)"
  unfolding mode_or_mapping_def by (intro exec_rules) (auto dest!: advances_reads)

interpretation modes: grammar_item mode_or_mapping
  by unfold_locales (simp add: mode_or_mapping_keeps)

lemma in_modes_keeps:
  "n \<le> ps_pos p \<or> at p IN_KW \<and> nth_kind p 1 = MODES_KW \<and> n \<le> Suc (Suc (ps_pos p)) \<Longrightarrow> exec p0 None n p (in_modes p)"
  unfolding in_modes_def
  by (intro exec_rules modes.separated_keeps exec_call) (auto dest!: advances_reads)

end
