(* ===== verification/Grammar_Properties.thy ===== *)
theory Grammar_Properties
  imports Grammar_Names
begin

text \<open>
  The property grammar, \<^verbatim>\<open>crates/spar-parser/src/grammar/properties.rs\<close>: associations, value expressions with
  the operators of the source, property sets and property types. The operators wrap the operand already parsed
  with \<^verbatim>\<open>precede\<close>, so expressions return the marker of their node. Expressions and property types are
  recursive; a fuel of one more than the number of tokens bounds the depth of the calls.
\<close>

section \<open>References and paths\<close>

text \<open>\<^verbatim>\<open>if !p.eat(a) && !p.eat(b) { p.error(msg) }\<close>.\<close>

definition expect_either :: "syntax_kind \<Rightarrow> syntax_kind \<Rightarrow> parse_message \<Rightarrow> parser \<Rightarrow> parser" where
  "expect_either a b msg p =
     (case eat a p of (True, p) \<Rightarrow> p
      | (False, p) \<Rightarrow> (case eat b p of (True, p) \<Rightarrow> p | (False, p) \<Rightarrow> error msg p))"

definition property_ref :: "parser \<Rightarrow> parser option" where
  "property_ref p = start p (\<lambda>m p. do {
     p \<leftarrow> (if at_name p
           then let p = bump_any p in
             if at p COLON_COLON
             then do {
               p \<leftarrow> bump COLON_COLON p;
               (if at_name p then Some (bump_any p)
                else Some (error (Msg ''expected property name after `::`'') p)) }
             else Some p
           else Some (error (Msg ''expected property name'') p));
     complete m PROPERTY_REF p })"

definition array_subscripts :: "parser \<Rightarrow> parser option" where
  "array_subscripts = while_loop (\<lambda>p. at p L_BRACKET) (\<lambda>p. do {
     p \<leftarrow> bump L_BRACKET p;
     p \<leftarrow> (if at p INTEGER_LIT
           then do {
             p \<leftarrow> bump INTEGER_LIT p;
             let (ate, p) = eat DOT_DOT p;
             (if ate \<and> at p INTEGER_LIT then bump INTEGER_LIT p else Some p) }
           else if at p IDENT then bump IDENT p
           else Some p);
     Some (snd (expect R_BRACKET p)) })"

definition containment_path :: "parser \<Rightarrow> parser option" where
  "containment_path p = start p (\<lambda>m p. do {
     p \<leftarrow> (if at p IDENT
           then do {
             p \<leftarrow> bump IDENT p;
             p \<leftarrow> array_subscripts p;
             while_loop (\<lambda>p. at p DOT) (\<lambda>p. do {
               p \<leftarrow> bump DOT p;
               (if at p IDENT then do { p \<leftarrow> bump IDENT p; array_subscripts p } else Some p) }) p }
           else Some p);
     complete m CONTAINMENT_PATH p })"

definition applies_to :: "parser \<Rightarrow> parser option" where
  "applies_to p = start p (\<lambda>m p. do {
     p \<leftarrow> bump APPLIES_KW p;
     let p = snd (expect TO_KW p);
     p \<leftarrow> containment_path p;
     p \<leftarrow> eat_loop COMMA containment_path p;
     complete m APPLIES_TO p })"

definition in_binding :: "parser \<Rightarrow> parser option" where
  "in_binding p = start p (\<lambda>m p. do {
     p \<leftarrow> bump IN_KW p;
     p \<leftarrow> bump BINDING_KW p;
     let p = snd (expect L_PAREN p);
     p \<leftarrow> classifier_node p;
     let p = snd (expect R_PAREN p);
     complete m IN_BINDING p })"

section \<open>Expressions\<close>

definition is_c_style_radix_literal :: "string \<Rightarrow> bool" where
  "is_c_style_radix_literal bytes \<longleftrightarrow>
     length bytes > 2 \<and> bytes ! 0 = CHR ''0'' \<and> bytes ! 1 \<in> {CHR ''x'', CHR ''X'', CHR ''o'', CHR ''O'', CHR ''b'', CHR ''B''}"

text \<open>\<^verbatim>\<open>let m = p.start(); body; Some(m.complete(p, kind))\<close>: a completed marker is the position of its event.\<close>

definition value_node :: "syntax_kind \<Rightarrow> (parser \<Rightarrow> parser option) \<Rightarrow> parser \<Rightarrow> (nat option \<times> parser) option" where
  "value_node kind body p = start p (\<lambda>m p. do { p \<leftarrow> body p; p \<leftarrow> complete m kind p; Some (Some m, p) })"

text \<open>A chain of binary operators, each wrapping what was read so far.\<close>

definition binary_chain ::
  "(syntax_kind \<Rightarrow> bool) \<Rightarrow> (parser \<Rightarrow> (nat option \<times> parser) option) \<Rightarrow> parser \<Rightarrow> (nat option \<times> parser) option" where
  "binary_chain operator operand p = do {
     (lhs, p) \<leftarrow> operand p;
     (case lhs of
        None \<Rightarrow> Some (None, p)
      | Some lhs \<Rightarrow> do {
          (lhs, p) \<leftarrow> repeat_loop (\<lambda>(lhs, p).
             if operator (current p)
             then precede lhs p (\<lambda>m p. do {
               let p = bump_any p;
               p \<leftarrow> map_option snd (operand p);
               p \<leftarrow> complete m BINARY_EXPR p;
               Some (True, m, p) })
             else Some (False, lhs, p)) (lhs, p);
          Some (Some lhs, p) }) }"

definition multiplicative_expression ::
  "(parser \<Rightarrow> (nat option \<times> parser) option) \<Rightarrow> parser \<Rightarrow> (nat option \<times> parser) option" where
  "multiplicative_expression primary = binary_chain (\<lambda>k. k \<in> {STAR, SLASH}) primary"

definition additive_expression ::
  "(parser \<Rightarrow> (nat option \<times> parser) option) \<Rightarrow> parser \<Rightarrow> (nat option \<times> parser) option" where
  "additive_expression primary = binary_chain (\<lambda>k. k \<in> {PLUS, MINUS}) (multiplicative_expression primary)"

definition property_expression_over :: "(parser \<Rightarrow> (nat option \<times> parser) option) \<Rightarrow> parser \<Rightarrow> parser option" where
  "property_expression_over primary p = do {
     (lhs, p) \<leftarrow> additive_expression primary p;
     (case lhs of
        None \<Rightarrow> Some p
      | Some lhs \<Rightarrow>
          if at p DOT_DOT
          then precede lhs p (\<lambda>m p. do {
            p \<leftarrow> bump DOT_DOT p;
            p \<leftarrow> map_option snd (additive_expression primary p);
            p \<leftarrow> (if at p DELTA_KW
                  then start p (\<lambda>d p. do {
                    p \<leftarrow> bump DELTA_KW p;
                    p \<leftarrow> map_option snd (additive_expression primary p);
                    complete d DELTA_VALUE p })
                  else Some p);
            complete m RANGE_VALUE p })
          else Some p) }"

text \<open>One call of \<^verbatim>\<open>property_expression_primary\<close>, over the calls it makes.\<close>

definition primary_step ::
  "(parser \<Rightarrow> parser option) \<Rightarrow> (parser \<Rightarrow> (nat option \<times> parser) option) \<Rightarrow> parser \<Rightarrow> (nat option \<times> parser) option" where
  "primary_step expression primary p =
     (if current p = INTEGER_LIT then value_node INTEGER_VALUE (\<lambda>p. do { p \<leftarrow> bump INTEGER_LIT p; bump_if IDENT p }) p
      else if current p = REAL_LIT then value_node REAL_VALUE (\<lambda>p. do { p \<leftarrow> bump REAL_LIT p; bump_if IDENT p }) p
      else if current p = STRING_LIT then value_node STRING_VALUE (bump STRING_LIT) p
      else if current p = TRUE_KW \<or> current p = FALSE_KW then value_node BOOLEAN_VALUE (\<lambda>p. Some (bump_any p)) p
      else if current p = NOT_KW then value_node BOOLEAN_VALUE (\<lambda>p. do { p \<leftarrow> bump NOT_KW p; expression p }) p
      else if current p = CLASSIFIER_KW then value_node CLASSIFIER_VALUE (\<lambda>p. do {
        p \<leftarrow> bump CLASSIFIER_KW p;
        let p = snd (expect L_PAREN p);
        p \<leftarrow> classifier_node p;
        Some (snd (expect R_PAREN p)) }) p
      else if current p = REFERENCE_KW then value_node REFERENCE_VALUE (\<lambda>p. do {
        p \<leftarrow> bump REFERENCE_KW p;
        let p = snd (expect L_PAREN p);
        p \<leftarrow> containment_path p;
        Some (snd (expect R_PAREN p)) }) p
      else if current p = COMPUTE_KW then value_node COMPUTED_VALUE (\<lambda>p. do {
        p \<leftarrow> bump COMPUTE_KW p;
        let p = snd (expect L_PAREN p);
        p \<leftarrow> bump_if IDENT p;
        Some (snd (expect R_PAREN p)) }) p
      else if current p = L_PAREN then value_node LIST_VALUE (\<lambda>p. do {
        p \<leftarrow> bump L_PAREN p;
        p \<leftarrow> (if \<not> at p R_PAREN then do { p \<leftarrow> expression p; eat_loop COMMA expression p } else Some p);
        Some (snd (expect R_PAREN p)) }) p
      else if current p = L_BRACKET then value_node RECORD_VALUE (\<lambda>p. do {
        p \<leftarrow> bump L_BRACKET p;
        p \<leftarrow> while_loop (\<lambda>p. at p IDENT) (\<lambda>p. start p (\<lambda>f p. do {
               p \<leftarrow> bump IDENT p;
               let p = snd (expect FAT_ARROW p);
               p \<leftarrow> expression p;
               let p = snd (expect SEMICOLON p);
               complete f RECORD_FIELD p })) p;
        Some (snd (expect R_BRACKET p)) }) p
      else if current p = IDENT then value_node PROPERTY_EXPRESSION (\<lambda>p. do {
        p \<leftarrow> bump IDENT p;
        while_loop (\<lambda>p. at p COLON_COLON) (\<lambda>p. do {
          p \<leftarrow> bump COLON_COLON p;
          (if at_ident_or_kw p then Some (bump_any p) else Some p) }) p }) p
      else if current p = PLUS \<or> current p = MINUS then value_node PROPERTY_EXPRESSION (\<lambda>p. do {
        let p = bump_any p;
        map_option snd (primary p) }) p
      else do {
        radix \<leftarrow> (if current p = ERROR then map_option is_c_style_radix_literal (nth_text p 0) else Some False);
        (if radix
         then value_node ERROR (\<lambda>p. do { let p = error RadixLiteral p; Some (bump_any p) }) p
         else Some (None, error (Msg ''expected property expression'') p)) })"

primrec property_expression_primary :: "nat \<Rightarrow> parser \<Rightarrow> (nat option \<times> parser) option" where
  "property_expression_primary 0 p = None"
| "property_expression_primary (Suc n) p =
     primary_step (property_expression_over (property_expression_primary n)) (property_expression_primary n) p"

definition property_expression :: "parser \<Rightarrow> parser option" where
  "property_expression p = property_expression_over (property_expression_primary (Suc (length (ps_indices p)))) p"

section \<open>The contract of expressions\<close>

lemma advances_expect_either: "parser_ok p \<Longrightarrow> a \<noteq> EOF \<Longrightarrow> b \<noteq> EOF \<Longrightarrow> advances p (expect_either a b msg p)"
  by (simp add: expect_either_def eat_def advances_bump advances_error)

lemma exec_expect_either:
  assumes "a \<noteq> EOF" "b \<noteq> EOF" "\<And>q. parser_ok q \<Longrightarrow> advances p q \<Longrightarrow> exec p0 ctx n q (f q)"
  shows "exec p0 ctx n p (Let (expect_either a b msg p) f)"
  unfolding Let_def by (rule exec_pure [OF advances_expect_either [OF _ assms(1,2)] assms(3)])

lemma at_name_not_EOF [simp]: "at_name p \<Longrightarrow> current p \<noteq> EOF"
  by (auto simp: at_name_def at_def)

lemma property_ref_keeps: "n \<le> ps_pos p \<or> at_name p \<and> n \<le> Suc (ps_pos p) \<Longrightarrow> keeps n p (property_ref p)"
  unfolding property_ref_def
  by (intro exec_rules exec_bind [where l = n]) (auto dest!: advances_reads)

lemma array_subscripts_keeps: "n \<le> ps_pos p \<Longrightarrow> exec p0 None n p (array_subscripts p)"
  unfolding array_subscripts_def
  by (intro exec_rules exec_loops exec_call) (auto dest!: advances_reads)

lemma containment_path_keeps: "keeps (ps_pos p) p (containment_path p)"
  unfolding containment_path_def
  by (intro exec_rules exec_loops exec_call array_subscripts_keeps) (auto dest!: advances_reads)

lemma applies_to_keeps: "at p APPLIES_KW \<Longrightarrow> keeps (ps_pos p) p (applies_to p)"
  unfolding applies_to_def
  by (intro exec_rules exec_loops exec_call containment_path_keeps) (auto dest!: advances_reads)

lemma in_binding_keeps: "at p IN_KW \<Longrightarrow> nth_kind p 1 = BINDING_KW \<Longrightarrow> keeps (ps_pos p) p (in_binding p)"
  unfolding in_binding_def
  by (intro exec_rules exec_loops exec_call classifier_ref_keeps) (auto dest!: advances_reads)

text \<open>\<open>yields n p X\<close>: like \<open>keeps\<close>, and the marker returned is that of a completed node.\<close>

definition yields :: "nat \<Rightarrow> parser \<Rightarrow> (nat option \<times> parser) option \<Rightarrow> bool" where
  "yields n p X \<longleftrightarrow> (parser_ok p \<longrightarrow>
     (\<exists>c q. X = Some (c, q) \<and> advances p q \<and> n \<le> ps_pos q \<and> (\<forall>i. c = Some i \<longrightarrow> completed p i q)))"

lemma yieldsE:
  assumes "yields n p X" "parser_ok p"
  obtains c q where "X = Some (c, q)" "advances p q" "n \<le> ps_pos q" "\<And>i. c = Some i \<Longrightarrow> completed p i q" "parser_ok q"
  using assms advances_ok by (auto simp: yields_def)

lemma yields_keeps: "yields l p X \<Longrightarrow> n \<le> l \<Longrightarrow> exec p0 None n p (map_option snd X)"
  by (rule exec_last [where l = l]) (auto simp: yields_def exec_def reached_def advances_refl)

lemma inside_complete: "inside p0 m p \<Longrightarrow> k \<noteq> TOMBSTONE \<Longrightarrow> \<exists>p'. complete m k p = Some p' \<and> advances p0 p'"
  by (simp add: inside_def)

lemma completed_complete:
  assumes "complete m k p = Some p'" "length (ps_events p0) \<le> m"
  shows "completed p0 m p'"
  using assms(2) complete_SomeD [OF assms(1)] by (auto simp: completed_def nth_append)

lemma yields_value_node:
  assumes "\<And>q. q = push_event (Start TOMBSTONE None) p \<Longrightarrow> keeps n q (body q)" "k \<noteq> TOMBSTONE"
  shows "yields n p (value_node k body p)"
  unfolding yields_def
proof
  let ?q = "push_event (Start TOMBSTONE None) p" and ?m = "length (ps_events p)"
  assume ok: "parser_ok p"
  have r: "reached p (Some ?m) ?q" using inside_start [OF ok] by (simp add: reached_def)
  then have "parser_ok ?q" by (rule reached_ok [OF ok])
  then obtain q where q: "body ?q = Some q" "advances ?q q" "n \<le> ps_pos q"
    using assms(1) [OF refl] by (auto simp: exec_def reached_def advances_refl)
  have "inside p ?m q" using reached_advances [OF r q(2)] by (simp add: reached_def)
  then obtain q' where "complete ?m k q = Some q'" "advances p q'" using assms(2) by (auto simp: inside_def)
  then show "\<exists>c q. value_node k body p = Some (c, q) \<and> advances p q \<and> n \<le> ps_pos q \<and> (\<forall>i. c = Some i \<longrightarrow> completed p i q)"
    using q complete_SomeD [of ?m k q q'] completed_complete [of ?m k q q' p] by (auto simp: value_node_def start_def)
qed

lemma enough_fuel_same: "same_input p q \<Longrightarrow> ps_pos p \<le> ps_pos q \<Longrightarrow> enough_fuel f p \<Longrightarrow> enough_fuel f q"
  by (auto simp: same_input_def enough_fuel_def)

lemma binary_chain_yields:
  assumes "\<And>q. enough_fuel f q \<Longrightarrow> yields (ps_pos q) q (operand q)" "enough_fuel f p" "yields n p (operand p)"
    "\<And>k. operator k \<Longrightarrow> k \<noteq> EOF"
  shows "yields n p (binary_chain operator operand p)"
  unfolding yields_def
proof
  assume ok: "parser_ok p"
  from assms(3) ok obtain c q where q: "operand p = Some (c, q)" "advances p q" "n \<le> ps_pos q" "\<And>i. c = Some i \<Longrightarrow> completed p i q"
    by (rule yieldsE) blast
  show "\<exists>c q. binary_chain operator operand p = Some (c, q) \<and> advances p q \<and> n \<le> ps_pos q \<and> (\<forall>i. c = Some i \<longrightarrow> completed p i q)"
  proof (cases c)
    case (Some lhs)
    define body where "body = (\<lambda>(lhs, p). if operator (current p)
             then precede lhs p (\<lambda>m p. do {
               let p = bump_any p;
               p \<leftarrow> map_option snd (operand p);
               p \<leftarrow> complete m BINARY_EXPR p;
               Some (True, m, p) })
             else Some (False, lhs, p))"
    let ?I = "\<lambda>(l, r). advances p r \<and> completed p l r \<and> n \<le> ps_pos r"
    have "\<exists>s. repeat_loop body (lhs, q) = Some s \<and> ?I s"
    proof (rule repeat_loop_ends [where pos = "\<lambda>s. ps_pos (snd s)" and N = "length (ps_indices p)"])
      fix s assume "?I s"
      then obtain l r where s: "s = (l, r)" "advances p r" "completed p l r" "n \<le> ps_pos r" by (cases s) auto
      show "\<exists>go s'. body s = Some (go, s') \<and> ?I s' \<and> (go \<longrightarrow> ps_pos (snd s) < ps_pos (snd s'))"
      proof (cases "operator (current r)")
        case True
        obtain t where t: "inside p (length (ps_events r)) t" "ps_pos t = ps_pos r" "\<And>n. nth_kind t n = nth_kind r n" "same_input r t"
          and pre: "\<And>k. precede l r k = (k (length (ps_events r)) t :: (bool \<times> nat \<times> parser) option)"
          using inside_precede [OF s(2,3)] by blast
        have okt: "parser_ok t" by (rule reached_ok [OF ok, of "Some (length (ps_events r))"]) (use t(1) in \<open>simp add: reached_def\<close>)
        have b: "advances t (bump_any t)" "ps_pos (bump_any t) = Suc (ps_pos r)"
          using advances_bump_any [OF okt] bump_any_pos [of t] assms(4) [OF True] t(2,3) by auto
        have "enough_fuel f (bump_any t)" using assms(2) advances_reads [OF s(2)] advances_reads [OF b(1)] enough_fuel_same [OF t(4)] t(2) by auto
        then obtain d u where u: "operand (bump_any t) = Some (d, u)" "advances (bump_any t) u"
          using assms(1) [of "bump_any t"] advances_ok [OF okt b(1)] by (auto elim: yieldsE)
        have "inside p (length (ps_events r)) u" using inside_advances [OF inside_advances [OF t(1) b(1)] u(2)] .
        then obtain v where v: "complete (length (ps_events r)) BINARY_EXPR u = Some v" "advances p v"
          using inside_complete [of p _ u BINARY_EXPR] by auto
        have "completed p (length (ps_events r)) v" using completed_complete [OF v(1), of p] s(2) by (auto simp: advances_def)
        moreover have "ps_pos u = ps_pos v" using complete_SomeD [OF v(1)] by auto
        moreover have "ps_pos r < ps_pos u" using b(2) advances_pos [OF u(2)] by simp
        moreover have "body s = Some (True, length (ps_events r), v)" using s(1) True u(1) v(1) by (simp add: body_def pre)
        ultimately show ?thesis using s(1,4) v(2) by (intro exI [of _ True] exI [of _ "(length (ps_events r), v)"]) simp
      qed (use s in \<open>auto simp: body_def\<close>)
    qed (use q Some in \<open>auto simp: advances_def\<close>)
    then show ?thesis using q(1) Some by (auto simp: binary_chain_def body_def)
  qed (use q in \<open>auto simp: binary_chain_def\<close>)
qed

lemma additive_yields:
  assumes "\<And>q. enough_fuel f q \<Longrightarrow> yields (ps_pos q) q (primary q)" "enough_fuel f p"
  shows "yields (ps_pos p) p (additive_expression primary p)"
  unfolding additive_expression_def multiplicative_expression_def
  by (intro binary_chain_yields [where f = f] assms) auto

lemma exec_yields:
  assumes "yields l p x"
    "\<And>c q. parser_ok q \<Longrightarrow> advances p q \<Longrightarrow> l \<le> ps_pos q \<Longrightarrow> (\<And>i. c = Some i \<Longrightarrow> completed p i q) \<Longrightarrow> exec p None n q (f c q)"
  shows "keeps n p (Option.bind x (\<lambda>(c, q). f c q))"
proof (rule exec_ok)
  assume "parser_ok p"
  with assms(1) obtain c q where q: "x = Some (c, q)" "advances p q" "l \<le> ps_pos q" "\<And>i. c = Some i \<Longrightarrow> completed p i q" "parser_ok q"
    by (rule yieldsE) blast
  show ?thesis unfolding q(1) by (simp, rule exec_step [OF q(2) assms(2)]) (use q in auto)
qed

lemma exec_precede:
  assumes "completed p0 c p"
    "\<And>m q. parser_ok q \<Longrightarrow> ps_pos q = ps_pos p \<Longrightarrow> (\<And>k. at q k = at p k) \<Longrightarrow> (\<And>f. enough_fuel f q = enough_fuel f p) \<Longrightarrow>
       exec p0 (Some m) n q (body m q)"
  shows "exec p0 None n p (precede c p body)"
  unfolding exec_def
proof (intro impI)
  assume ok: "parser_ok p0" "reached p0 None p"
  then have "advances p0 p" by (simp add: reached_def)
  then obtain q where q: "inside p0 (length (ps_events p)) q" "ps_pos q = ps_pos p" "\<And>n. nth_kind q n = nth_kind p n" "same_input p q"
    "\<And>k. precede c p k = (k (length (ps_events p)) q :: parser option)"
    using inside_precede [OF _ assms(1)] by blast
  then have r: "reached p0 (Some (length (ps_events p))) q" by (simp add: reached_def)
  then show "\<exists>p'. precede c p body = Some p' \<and> advances p0 p' \<and> n \<le> ps_pos p'"
    using assms(2) [OF reached_ok [OF ok(1) r] q(2)] ok(1) q(3,4) unfolding q(5) exec_def
    by (auto simp: at_def enough_fuel_def same_input_def q(2))
qed

lemma exec_option:
  "(x = None \<Longrightarrow> exec p0 ctx n p f) \<Longrightarrow> (\<And>i. x = Some i \<Longrightarrow> exec p0 ctx n p (g i)) \<Longrightarrow> exec p0 ctx n p (case x of None \<Rightarrow> f | Some i \<Rightarrow> g i)"
  by (cases x) auto

lemma enough_fuel_bump' [simp]: "enough_fuel n p \<Longrightarrow> enough_fuel n (do_bump k p)"
  by (auto simp: enough_fuel_def do_bump_def push_event_def)

lemma property_expression_over_keeps:
  assumes "\<And>q. enough_fuel f q \<Longrightarrow> yields (ps_pos q) q (primary q)" "enough_fuel f p"
  shows "keeps (ps_pos p) p (property_expression_over primary p)"
  unfolding property_expression_over_def using assms(2)
  by (intro exec_rules exec_yields [OF additive_yields] exec_option exec_precede exec_call yields_keeps [OF additive_yields] assms(1))
    (auto dest!: advances_reads)

lemma token_text_Some: "parser_ok p \<Longrightarrow> \<exists>t. nth_text p n = Some t"
  by (auto simp: nth_text_def parser_ok_def)

lemma yields_if: "(b \<Longrightarrow> yields n p X) \<Longrightarrow> (\<not> b \<Longrightarrow> yields n p Y) \<Longrightarrow> yields n p (if b then X else Y)"
  by simp

lemma yields_none: "yields (ps_pos p) p (Some (None, error msg p))"
  by (simp add: yields_def advances_error)

lemma yields_bind: "(parser_ok p \<Longrightarrow> \<exists>b. x = Some b) \<Longrightarrow> (\<And>b. yields n p (f b)) \<Longrightarrow> yields n p (Option.bind x f)"
  by (cases x) (auto simp: yields_def)

lemma primary_step_yields:
  assumes "\<And>q. enough_fuel f q \<Longrightarrow> keeps (ps_pos q) q (expression q)" "\<And>q. enough_fuel f q \<Longrightarrow> yields (ps_pos q) q (primary q)"
    "enough_fuel (Suc f) p"
  shows "yields (ps_pos p) p (primary_step expression primary p)"
  unfolding primary_step_def using assms(3)
  by (intro yields_if yields_value_node exec_rules exec_call exec_loops bump_if_keeps classifier_ref_keeps exec_last [OF containment_path_keeps]
      exec_last [OF assms(1)] yields_keeps [OF assms(2)] yields_none yields_bind)
    (auto dest!: advances_reads simp: at_def token_text_Some)

lemma property_expression_primary_yields: "enough_fuel f p \<Longrightarrow> yields (ps_pos p) p (property_expression_primary f p)"
proof (induction f arbitrary: p)
  case (Suc f)
  show ?case unfolding property_expression_primary.simps
    by (rule primary_step_yields [OF property_expression_over_keeps [OF Suc.IH] Suc.IH Suc.prems])
qed (simp add: enough_fuel_def)

lemma property_expression_keeps: "n \<le> ps_pos p \<Longrightarrow> exec p0 None n p (property_expression p)"
  unfolding property_expression_def
  by (rule exec_last [OF property_expression_over_keeps [OF property_expression_primary_yields]]) (auto simp: enough_fuel_def)

section \<open>Associations\<close>

definition property_value :: "parser \<Rightarrow> parser option" where
  "property_value p = do {
     p \<leftarrow> property_expression p;
     (if at p IN_KW \<and> nth_kind p 1 = MODES_KW
      then start p (\<lambda>m p. do { p \<leftarrow> in_modes p; complete m MODAL_PROPERTY_VALUE p })
      else Some p) }"

definition property_association :: "parser \<Rightarrow> parser option" where
  "property_association p = start p (\<lambda>m p. do {
     p \<leftarrow> property_ref p;
     let p = expect_either FAT_ARROW PLUS_ARROW (Msg ''expected `=>` or `+=>`'') p;
     let p = snd (eat CONSTANT_KW p);
     p \<leftarrow> property_value p;
     p \<leftarrow> while_loop (\<lambda>p. at p COMMA) (\<lambda>p. do { p \<leftarrow> bump COMMA p; property_value p }) p;
     p \<leftarrow> (if at p APPLIES_KW then applies_to p else Some p);
     p \<leftarrow> (if at p IN_KW \<and> nth_kind p 1 = BINDING_KW then in_binding p else Some p);
     let p = snd (expect SEMICOLON p);
     complete m PROPERTY_ASSOCIATION p })"

definition property_section :: "parser \<Rightarrow> parser option" where
  "property_section p = start p (\<lambda>m p. do {
     p \<leftarrow> bump PROPERTIES_KW p;
     p \<leftarrow> (if at p NONE_KW then do { p \<leftarrow> bump NONE_KW p; Some (snd (expect SEMICOLON p)) }
           else while_loop at_name property_association p);
     complete m PROPERTY_SECTION p })"

definition property_block :: "parser \<Rightarrow> parser option" where
  "property_block p = start p (\<lambda>m p. do {
     p \<leftarrow> bump L_CURLY p;
     p \<leftarrow> while_loop at_name property_association p;
     let p = snd (expect R_CURLY p);
     complete m PROPERTY_SECTION p })"

section \<open>Property types\<close>

definition classifier_ref_list_element :: "parser \<Rightarrow> parser option" where
  "classifier_ref_list_element p =
     (if at p VIRTUAL_KW \<and> (nth_kind p 1 = BUS_KW \<or> nth_kind p 1 = PROCESSOR_KW) then category_node p else classifier_node p)"

definition classifier_ref_list_in_parens :: "parser \<Rightarrow> parser option" where
  "classifier_ref_list_in_parens p =
     (if \<not> at p L_PAREN then Some p
      else do {
        p \<leftarrow> bump L_PAREN p;
        p \<leftarrow> classifier_ref_list_element p;
        p \<leftarrow> eat_loop COMMA classifier_ref_list_element p;
        Some (snd (expect R_PAREN p)) })"

definition numeric_bound :: "parser \<Rightarrow> parser option" where
  "numeric_bound p = do {
     let (ate, p) = eat PLUS p;
     let p = (if ate then p else snd (eat MINUS p));
     (if at p INTEGER_LIT \<or> at p REAL_LIT then do { let p = bump_any p; bump_if IDENT p }
      else if at p IDENT
      then do {
        p \<leftarrow> bump IDENT p;
        let (ate, p) = eat COLON_COLON p;
        (if ate \<and> at p IDENT then bump IDENT p else Some p) }
      else Some p) }"

definition numeric_range_opt :: "parser \<Rightarrow> parser option" where
  "numeric_range_opt p =
     (if \<not> (at p INTEGER_LIT \<or> at p REAL_LIT \<or> at p MINUS \<or> at p PLUS) then Some p
      else do {
        p \<leftarrow> numeric_bound p;
        let (ate, p) = eat DOT_DOT p;
        (if ate then numeric_bound p else Some p) })"

definition derived_unit :: "parser \<Rightarrow> parser option" where
  "derived_unit p =
     (if at p IDENT
      then do {
        p \<leftarrow> bump IDENT p;
        let (ate, p) = eat FAT_ARROW p;
        (if ate
         then do {
           p \<leftarrow> bump_if IDENT p;
           let (ate, p) = eat STAR p;
           (if ate
            then if at p INTEGER_LIT then bump INTEGER_LIT p else if at p REAL_LIT then bump REAL_LIT p else Some p
            else Some p) }
         else Some p) }
      else Some p)"

definition units_designator_body :: "parser \<Rightarrow> parser option" where
  "units_designator_body p = do {
     let p = snd (expect L_PAREN p);
     p \<leftarrow> (if at p IDENT then do { p \<leftarrow> bump IDENT p; eat_loop COMMA derived_unit p } else Some p);
     Some (snd (expect R_PAREN p)) }"

definition numeric_units_designator :: "parser \<Rightarrow> parser option" where
  "numeric_units_designator p =
     (if at p L_PAREN then units_designator_body p
      else if at p IDENT then classifier_node p
      else Some p)"

definition units_opt :: "parser \<Rightarrow> parser option" where
  "units_opt p = (if at p UNITS_KW then do { p \<leftarrow> bump UNITS_KW p; numeric_units_designator p } else Some p)"

text \<open>The property type inside a list, a range or a record field is the argument \<open>ptype\<close>.\<close>

definition of_type :: "(parser \<Rightarrow> parser option) \<Rightarrow> parser \<Rightarrow> parser option" where
  "of_type ptype p = do { let p = snd (expect OF_KW p); ptype p }"

definition record_type_fields :: "(parser \<Rightarrow> parser option) \<Rightarrow> parser \<Rightarrow> parser option" where
  "record_type_fields ptype p = do {
     let p = snd (expect L_PAREN p);
     p \<leftarrow> while_loop (\<lambda>p. at p IDENT) (\<lambda>p. start p (\<lambda>f p. do {
            p \<leftarrow> bump IDENT p;
            let p = snd (expect COLON p);
            p \<leftarrow> ptype p;
            let p = snd (expect SEMICOLON p);
            complete f RECORD_FIELD p })) p;
     Some (snd (expect R_PAREN p)) }"

primrec property_type_upto :: "nat \<Rightarrow> parser \<Rightarrow> parser option" where
  "property_type_upto 0 p = None"
| "property_type_upto (Suc n) p = start p (\<lambda>m p. do {
     p \<leftarrow> (if current p = AADLBOOLEAN_KW then bump AADLBOOLEAN_KW p
           else if current p = AADLINTEGER_KW then do { p \<leftarrow> bump AADLINTEGER_KW p; p \<leftarrow> numeric_range_opt p; units_opt p }
           else if current p = AADLREAL_KW then do { p \<leftarrow> bump AADLREAL_KW p; p \<leftarrow> numeric_range_opt p; units_opt p }
           else if current p = AADLSTRING_KW then bump AADLSTRING_KW p
           else if current p = ENUMERATION_KW
           then do {
             p \<leftarrow> bump ENUMERATION_KW p;
             let p = snd (expect L_PAREN p);
             p \<leftarrow> (if at p IDENT then do { p \<leftarrow> bump IDENT p; eat_loop COMMA (bump_if IDENT) p } else Some p);
             Some (snd (expect R_PAREN p)) }
           else if current p = LIST_KW
           then do { p \<leftarrow> bump LIST_KW p; of_type (property_type_upto n) p }
           else if current p = RANGE_KW
           then do { p \<leftarrow> bump RANGE_KW p; of_type (property_type_upto n) p }
           else if current p = RECORD_KW
           then do { p \<leftarrow> bump RECORD_KW p; record_type_fields (property_type_upto n) p }
           else if current p = UNITS_KW then do { p \<leftarrow> bump UNITS_KW p; units_designator_body p }
           else if current p = CLASSIFIER_KW then do { p \<leftarrow> bump CLASSIFIER_KW p; classifier_ref_list_in_parens p }
           else if current p = REFERENCE_KW then do { p \<leftarrow> bump REFERENCE_KW p; classifier_ref_list_in_parens p }
           else if current p = IDENT then classifier_node p
           else Some (error (Msg ''expected property type'') p));
     complete m PROPERTY_TYPE p })"

definition property_type :: "parser \<Rightarrow> parser option" where
  "property_type p = property_type_upto (Suc (length (ps_indices p))) p"

section \<open>Property sets\<close>

definition applies_to_category :: "parser \<Rightarrow> parser option" where
  "applies_to_category p =
     (if at p ALL_KW then bump ALL_KW p
      else if at p FEATURE_KW
      then do {
        p \<leftarrow> bump FEATURE_KW p;
        let (ate, p) = eat GROUP_KW p;
        (if ate then Some (snd (eat TYPE_KW p)) else Some p) }
      else if at p EVENT_KW
      then do {
        p \<leftarrow> bump EVENT_KW p;
        let p = snd (eat DATA_KW p);
        Some (snd (expect PORT_KW p)) }
      else if is_component_category_kw (current p)
      then do {
        p \<leftarrow> category_node p;
        p \<leftarrow> (if at p ACCESS_KW \<or> at p PORT_KW then Some (bump_any p) else Some p);
        let (ate, p) = eat IMPLEMENTATION_KW p;
        (if ate then Some p else Some (snd (eat TYPE_KW p))) }
      else if current p \<in> {PORT_KW, FLOW_KW, MODE_KW, ACCESS_KW, PARAMETER_KW, CONNECTIONS_KW, PACKAGE_KW, CLASSIFIER_KW}
      then Some (bump_any p)
      else if at p L_CURLY
      then do {
        p \<leftarrow> bump L_CURLY p;
        let p = snd (expect IDENT p);
        let p = snd (expect R_CURLY p);
        let p = snd (expect STAR p);
        let p = snd (expect STAR p);
        p \<leftarrow> (if at p COMMA \<or> at p R_PAREN \<or> at_end p
              then Some (error (Msg ''expected an annex property owner name after `**`'') p) else Some p);
        while_loop (\<lambda>p. \<not> at p COMMA \<and> \<not> at p R_PAREN \<and> \<not> at_end p) (\<lambda>p. Some (bump_any p)) p }
      else if at p IDENT then bump IDENT p
      else Some (error (Msg (''expected a property owner: a component category, `all`, `port`, '' @
        ''`feature`, `flow`, `mode`, `connections`, `access`, or `parameter`'')) p))"

definition property_definition_or_constant :: "parser \<Rightarrow> parser option" where
  "property_definition_or_constant p = start p (\<lambda>m p. do {
     let p = bump_any p;
     let p = snd (expect COLON p);
     (if at p CONSTANT_KW
      then do {
        p \<leftarrow> bump CONSTANT_KW p;
        p \<leftarrow> property_type p;
        let p = snd (expect FAT_ARROW p);
        p \<leftarrow> property_expression p;
        let p = snd (expect SEMICOLON p);
        complete m PROPERTY_CONSTANT p }
      else if at p TYPE_KW
      then do {
        p \<leftarrow> bump TYPE_KW p;
        p \<leftarrow> property_type p;
        let p = snd (expect SEMICOLON p);
        complete m PROPERTY_TYPE_DECL p }
      else do {
        let p = snd (eat INHERIT_KW p);
        p \<leftarrow> property_type p;
        let (ate, p) = eat FAT_ARROW p;
        p \<leftarrow> (if ate then property_expression p else Some p);
        let p = snd (expect APPLIES_KW p);
        let p = snd (expect TO_KW p);
        let p = snd (expect L_PAREN p);
        p \<leftarrow> applies_to_category p;
        p \<leftarrow> eat_loop COMMA applies_to_category p;
        let p = snd (expect R_PAREN p);
        let p = snd (expect SEMICOLON p);
        complete m PROPERTY_DEFINITION p }) })"

text \<open>\<^verbatim>\<open>with a, b;\<close>, in property sets and in packages.\<close>

definition with_names :: "parser \<Rightarrow> parser option" where
  "with_names p = start p (\<lambda>w p. do {
     p \<leftarrow> bump WITH_KW p;
     p \<leftarrow> name_node p;
     p \<leftarrow> eat_loop COMMA name_node p;
     let p = snd (expect SEMICOLON p);
     complete w WITH_CLAUSE p })"

definition property_set :: "parser \<Rightarrow> parser option" where
  "property_set p = start p (\<lambda>m p. do {
     p \<leftarrow> bump PROPERTY_KW p;
     let p = snd (expect SET_KW p);
     p \<leftarrow> name_node p;
     let p = snd (expect IS_KW p);
     p \<leftarrow> while_loop (\<lambda>p. at p WITH_KW) with_names p;
     p \<leftarrow> repeat_loop (\<lambda>p.
            if \<not> at p END_KW \<and> \<not> at_end p
            then if at_name p then map_option (Pair True) (property_definition_or_constant p) else Some (False, p)
            else Some (False, p)) p;
     let p = snd (expect END_KW p);
     p \<leftarrow> name_node p;
     let p = snd (expect SEMICOLON p);
     complete m PROPERTY_SET p })"

section \<open>The contract of associations, types and sets\<close>

lemma property_value_keeps: "n \<le> ps_pos p \<Longrightarrow> exec p0 None n p (property_value p)"
  unfolding property_value_def
  by (intro exec_rules exec_keeps [OF exec_start] exec_call property_expression_keeps in_modes_keeps) (auto dest!: advances_pos)

lemma property_association_keeps: "n \<le> ps_pos p \<or> at_name p \<and> n \<le> Suc (ps_pos p) \<Longrightarrow> keeps n p (property_association p)"
  unfolding property_association_def
  by (intro exec_start exec_bind [where l = n and x = "property_ref _"] property_ref_keeps exec_rules exec_call exec_loops exec_expect_either
      property_value_keeps applies_to_keeps in_binding_keeps)
    (auto dest!: advances_pos)

lemma property_section_keeps: "at p PROPERTIES_KW \<Longrightarrow> keeps (Suc (ps_pos p)) p (property_section p)"
  unfolding property_section_def
  by (intro exec_rules exec_call exec_loops property_association_keeps) (auto dest!: advances_pos)

lemma property_block_keeps: "at p L_CURLY \<Longrightarrow> keeps (Suc (ps_pos p)) p (property_block p)"
  unfolding property_block_def
  by (intro exec_rules exec_call exec_loops property_association_keeps) (auto dest!: advances_pos)

lemma classifier_ref_list_element_keeps: "n \<le> ps_pos p \<Longrightarrow> exec p0 None n p (classifier_ref_list_element p)"
  unfolding classifier_ref_list_element_def
  by (intro exec_rules component_category_keeps classifier_ref_keeps) auto

lemma classifier_ref_list_in_parens_keeps: "n \<le> ps_pos p \<Longrightarrow> exec p0 None n p (classifier_ref_list_in_parens p)"
  unfolding classifier_ref_list_in_parens_def
  by (intro exec_rules exec_call exec_loops classifier_ref_list_element_keeps) (auto dest!: advances_pos)

lemma numeric_bound_keeps: "n \<le> ps_pos p \<Longrightarrow> exec p0 None n p (numeric_bound p)"
  unfolding numeric_bound_def
  by (intro exec_rules exec_call bump_if_keeps) (auto dest!: advances_pos)

lemma numeric_range_opt_keeps: "n \<le> ps_pos p \<Longrightarrow> exec p0 None n p (numeric_range_opt p)"
  unfolding numeric_range_opt_def
  by (intro exec_rules exec_call numeric_bound_keeps) (auto dest!: advances_pos)

lemma derived_unit_keeps: "n \<le> ps_pos p \<Longrightarrow> exec p0 None n p (derived_unit p)"
  unfolding derived_unit_def
  by (intro exec_rules exec_call bump_if_keeps) (auto dest!: advances_pos)

lemma units_designator_body_keeps: "n \<le> ps_pos p \<Longrightarrow> exec p0 None n p (units_designator_body p)"
  unfolding units_designator_body_def
  by (intro exec_rules exec_call exec_loops derived_unit_keeps) (auto dest!: advances_pos)

lemma units_opt_keeps: "n \<le> ps_pos p \<Longrightarrow> exec p0 None n p (units_opt p)"
  unfolding units_opt_def numeric_units_designator_def
  by (intro exec_rules exec_call units_designator_body_keeps classifier_ref_keeps) (auto dest!: advances_pos)

lemma of_type_keeps:
  assumes "\<And>q. enough_fuel f q \<Longrightarrow> keeps (ps_pos q) q (ptype q)" "enough_fuel f p" "n \<le> ps_pos p"
  shows "exec p0 None n p (of_type ptype p)"
  unfolding of_type_def using assms(2,3)
  by (intro exec_rules exec_last [OF assms(1)]) (auto dest!: advances_reads)

lemma record_type_fields_keeps:
  assumes "\<And>q. enough_fuel f q \<Longrightarrow> keeps (ps_pos q) q (ptype q)" "enough_fuel f p" "n \<le> ps_pos p"
  shows "exec p0 None n p (record_type_fields ptype p)"
  unfolding record_type_fields_def using assms(2,3)
  by (intro exec_rules exec_call exec_loops exec_last [OF assms(1)]) (auto dest!: advances_reads)

lemma property_type_upto_keeps: "enough_fuel f p \<Longrightarrow> keeps (ps_pos p) p (property_type_upto f p)"
proof (induction f arbitrary: p)
  case (Suc f)
  show ?case unfolding property_type_upto.simps using Suc.prems
    by (intro exec_rules exec_call exec_loops numeric_range_opt_keeps units_opt_keeps bump_if_keeps of_type_keeps [OF Suc.IH]
        record_type_fields_keeps [OF Suc.IH] units_designator_body_keeps classifier_ref_list_in_parens_keeps classifier_ref_keeps)
      (auto dest!: advances_pos simp: at_def)
qed (simp add: enough_fuel_def)

lemma property_type_keeps: "n \<le> ps_pos p \<Longrightarrow> exec p0 None n p (property_type p)"
  unfolding property_type_def by (rule exec_last [OF property_type_upto_keeps]) (auto simp: enough_fuel_def)

lemma applies_to_category_keeps: "n \<le> ps_pos p \<Longrightarrow> exec p0 None n p (applies_to_category p)"
  unfolding applies_to_category_def
  by (intro exec_rules exec_call exec_loops component_category_keeps) (auto dest!: advances_pos simp: not_at_end)

lemma property_definition_or_constant_keeps: "at_name p \<Longrightarrow> keeps (Suc (ps_pos p)) p (property_definition_or_constant p)"
  unfolding property_definition_or_constant_def
  by (intro exec_rules exec_call exec_loops property_type_keeps property_expression_keeps applies_to_category_keeps) (auto dest!: advances_pos)

lemma with_names_keeps: "at p WITH_KW \<Longrightarrow> keeps (Suc (ps_pos p)) p (with_names p)"
  unfolding with_names_def
  by (intro exec_rules exec_call exec_loops name_keeps) (auto dest!: advances_pos)

lemma property_set_keeps: "at p PROPERTY_KW \<Longrightarrow> keeps (Suc (ps_pos p)) p (property_set p)"
  unfolding property_set_def
  by (intro exec_rules exec_call exec_loops name_keeps with_names_keeps exec_repeat_goes goes_rules property_definition_or_constant_keeps)
    (auto dest!: advances_pos)

end
