(* ===== verification/Grammar_Sections.thy ===== *)
theory Grammar_Sections
  imports Grammar_Properties
begin

text \<open>
  The sections of component types and implementations: modes, annexes, flows, connections and features
  (\<^verbatim>\<open>modes.rs\<close>, \<^verbatim>\<open>annexes.rs\<close>, \<^verbatim>\<open>flows.rs\<close>, \<^verbatim>\<open>connections.rs\<close> and \<^verbatim>\<open>features.rs\<close> of
  \<^verbatim>\<open>crates/spar-parser/src/grammar\<close>), and the array dimensions of \<^verbatim>\<open>components.rs\<close>. A section keeps the
  contract of the grammar and consumes its keyword.
\<close>

section \<open>Common parts\<close>

definition refined_to :: "parser \<Rightarrow> parser option" where
  "refined_to p =
     (if at p REFINED_KW
      then start p (\<lambda>r p. do {
        p \<leftarrow> bump REFINED_KW p;
        let p = snd (expect TO_KW p);
        complete r REFINED_TO p })
      else Some p)"

text \<open>\<^verbatim>\<open>if p.at(IDENT) { classifier_ref(p) }\<close>, \<^verbatim>\<open>if p.at(L_CURLY) { property_block(p) }\<close>, \<^verbatim>\<open>if p.at(IN_KW) { in_modes(p) }\<close>.\<close>

definition opt_classifier :: "parser \<Rightarrow> parser option" where
  "opt_classifier p = (if at p IDENT then classifier_node p else Some p)"

definition opt_block :: "parser \<Rightarrow> parser option" where
  "opt_block p = (if at p L_CURLY then property_block p else Some p)"

definition opt_in_modes :: "parser \<Rightarrow> parser option" where
  "opt_in_modes p = (if at p IN_KW then in_modes p else Some p)"

text \<open>A section of declarations: \<^verbatim>\<open>none ;\<close>, or declarations as long as \<open>continues\<close> says so.\<close>

definition section_of :: "syntax_kind \<Rightarrow> (parser \<Rightarrow> bool) \<Rightarrow> (parser \<Rightarrow> parser option) \<Rightarrow> parser \<Rightarrow> parser option" where
  "section_of keyword continues decl p = do {
     p \<leftarrow> bump keyword p;
     (if at p NONE_KW then do { p \<leftarrow> bump NONE_KW p; Some (snd (expect SEMICOLON p)) }
      else while_loop continues decl p) }"

text \<open>The rest of a dotted path.\<close>

definition dotted_rest :: "parser \<Rightarrow> parser option" where
  "dotted_rest = while_loop (\<lambda>p. at p DOT) (\<lambda>p. do {
     p \<leftarrow> bump DOT p;
     (if at_ident_or_kw p then Some (bump_any p) else Some p) })"

definition array_dimension :: "parser \<Rightarrow> parser option" where
  "array_dimension p = start p (\<lambda>m p. do {
     p \<leftarrow> bump L_BRACKET p;
     p \<leftarrow> (if \<not> at p R_BRACKET
           then start p (\<lambda>s p. do {
             p \<leftarrow> (if at p INTEGER_LIT then bump INTEGER_LIT p
                   else if at p IDENT then classifier_node p
                   else Some p);
             complete s ARRAY_SIZE p })
           else Some p);
     let p = snd (expect R_BRACKET p);
     complete m ARRAY_DIMENSION p })"

section \<open>Modes\<close>

definition at_unnamed_transition :: "parser \<Rightarrow> bool" where
  "at_unnamed_transition p \<longleftrightarrow> at_ident_or_kw p \<and> nth_kind p 1 = DASH_BRACKET"

definition trigger_ref :: "parser \<Rightarrow> parser option" where
  "trigger_ref p =
     (if at p SELF_KW
      then do {
        p \<leftarrow> bump SELF_KW p;
        (if at p DOT
         then do { p \<leftarrow> bump DOT p; (if at_ident_or_kw p then Some (bump_any p) else Some p) }
         else Some p) }
      else if at_ident_or_kw p then let p = bump_any p in dotted_rest p
      else Some p)"

definition parse_transition_tail :: "parser \<Rightarrow> parser option" where
  "parse_transition_tail p = do {
     let p = snd (expect DASH_BRACKET p);
     p \<leftarrow> start p (\<lambda>t p. do {
       p \<leftarrow> (if at p IDENT \<or> at p SELF_KW \<or> is_keyword (current p)
             then do { p \<leftarrow> trigger_ref p; eat_loop COMMA trigger_ref p }
             else Some p);
       complete t MODE_TRIGGER p });
     let p = snd (expect BRACKET_ARROW p);
     p \<leftarrow> (if at_ident_or_kw p then Some (bump_any p) else Some (error (Msg ''expected destination mode'') p));
     Some (snd (expect SEMICOLON p)) }"

definition mode_or_transition :: "parser \<Rightarrow> parser option" where
  "mode_or_transition p = start p (\<lambda>m p.
     if at_unnamed_transition p
     then do {
       let p = bump_any p;
       p \<leftarrow> parse_transition_tail p;
       complete m MODE_TRANSITION p }
     else do {
       let p = bump_any p;
       let p = snd (expect COLON p);
       (if at p INITIAL_KW \<or> at p MODE_KW
        then do {
          let p = snd (eat INITIAL_KW p);
          let p = snd (expect MODE_KW p);
          p \<leftarrow> opt_block p;
          let p = snd (expect SEMICOLON p);
          complete m MODE p }
        else if at_name p \<or> at_unnamed_transition p
        then do {
          let p = bump_any p;
          p \<leftarrow> parse_transition_tail p;
          complete m MODE_TRANSITION p }
        else do {
          let p = error (Msg ''expected `mode` or mode transition'') p;
          complete m ERROR p }) })"

definition mode_section :: "parser \<Rightarrow> parser option" where
  "mode_section p = start p (\<lambda>m p. do {
     p \<leftarrow> bump_if REQUIRES_KW p;
     p \<leftarrow> section_of MODES_KW (\<lambda>p. at_name p \<or> at_unnamed_transition p) mode_or_transition p;
     complete m MODE_SECTION p })"

section \<open>Annexes\<close>

text \<open>Subclauses and libraries differ in the kind of the node.\<close>

definition annex_block :: "syntax_kind \<Rightarrow> parser \<Rightarrow> parser option" where
  "annex_block kind p = start p (\<lambda>m p. do {
     p \<leftarrow> bump ANNEX_KW p;
     p \<leftarrow> (if at p IDENT then bump IDENT p
           else if at p FILE_KW then Some (bump_any p)
           else Some (error (Msg ''expected annex name'') p));
     p \<leftarrow> (if at p ANNEX_OPEN
           then do {
             p \<leftarrow> bump ANNEX_OPEN p;
             p \<leftarrow> (if at p FILE_KW \<and> nth_kind p 1 = L_PAREN
                   then start p (\<lambda>fr p. do {
                     p \<leftarrow> bump FILE_KW p;
                     p \<leftarrow> bump L_PAREN p;
                     p \<leftarrow> (if at p STRING_LIT then bump STRING_LIT p
                           else Some (error (Msg ''expected file path string'') p));
                     let p = snd (expect R_PAREN p);
                     complete fr FILE_REFERENCE p })
                   else while_loop (\<lambda>p. \<not> at p ANNEX_CLOSE \<and> \<not> at_end p) (\<lambda>p. Some (bump_any p)) p);
             Some (snd (expect ANNEX_CLOSE p)) }
           else Some (error (Msg ''expected `{**`'') p));
     let p = snd (expect SEMICOLON p);
     complete m kind p })"

definition annex_subclause :: "parser \<Rightarrow> parser option" where
  "annex_subclause = annex_block ANNEX_SUBCLAUSE"

definition annex_library :: "parser \<Rightarrow> parser option" where
  "annex_library = annex_block ANNEX_LIBRARY"

section \<open>Flows\<close>

definition flow_end :: "parser \<Rightarrow> parser option" where
  "flow_end p = start p (\<lambda>m p. do {
     p \<leftarrow> (if at_ident_or_kw p then let p = bump_any p in dotted_rest p else Some p);
     complete m FLOW_END p })"

definition at_flow_segment :: "parser \<Rightarrow> bool" where
  "at_flow_segment p \<longleftrightarrow>
     (if at p IDENT then True
      else if is_keyword (current p)
      then if at p IN_KW \<and> nth_kind p 1 = MODES_KW then False
           else if current p \<in> {END_KW, SEMICOLON, L_CURLY} then False
           else True
      else False)"

definition flow_segment :: "parser \<Rightarrow> parser option" where
  "flow_segment p = start p (\<lambda>m p. do {
     p \<leftarrow> (if at_ident_or_kw p then let p = bump_any p in dotted_rest p else Some p);
     complete m FLOW_SEGMENT p })"

definition flow_kind :: "string \<Rightarrow> parser \<Rightarrow> parser option" where
  "flow_kind msg p = start p (\<lambda>k p. do {
     p \<leftarrow> (if current p = SOURCE_KW then bump SOURCE_KW p
           else if current p = SINK_KW then bump SINK_KW p
           else if current p = PATH_KW then bump PATH_KW p
           else Some (error (Msg msg) p));
     complete k FLOW_KIND p })"

definition flow_spec :: "parser \<Rightarrow> parser option" where
  "flow_spec p = start p (\<lambda>m p. do {
     let p = bump_any p;
     let p = snd (expect COLON p);
     p \<leftarrow> refined_to p;
     let p = snd (expect FLOW_KW p);
     p \<leftarrow> flow_kind ''expected `source`, `sink`, or `path`'' p;
     p \<leftarrow> flow_end p;
     let (ate, p) = eat ARROW p;
     p \<leftarrow> (if ate then flow_end p else Some p);
     p \<leftarrow> opt_block p;
     p \<leftarrow> opt_in_modes p;
     let p = snd (expect SEMICOLON p);
     complete m FLOW_SPEC p })"

text \<open>The segments of a flow, its properties and modes.\<close>

definition flow_tail :: "parser \<Rightarrow> parser option" where
  "flow_tail p = do {
     p \<leftarrow> (if at_flow_segment p then do { p \<leftarrow> flow_segment p; eat_loop ARROW flow_segment p } else Some p);
     p \<leftarrow> opt_block p;
     p \<leftarrow> opt_in_modes p;
     Some (snd (expect SEMICOLON p)) }"

definition flow_impl_or_e2e :: "parser \<Rightarrow> parser option" where
  "flow_impl_or_e2e p = start p (\<lambda>m p. do {
     let p = bump_any p;
     let p = snd (expect COLON p);
     p \<leftarrow> refined_to p;
     (if at p END_KW \<and> nth_kind p 1 = TO_KW
      then do {
        p \<leftarrow> bump END_KW p;
        let p = snd (expect TO_KW p);
        let p = snd (expect END_KW p);
        let p = snd (expect FLOW_KW p);
        p \<leftarrow> flow_tail p;
        complete m END_TO_END_FLOW p }
      else do {
        let p = snd (expect FLOW_KW p);
        p \<leftarrow> flow_kind ''expected flow kind'' p;
        p \<leftarrow> flow_tail p;
        complete m FLOW_IMPL p }) })"

definition flow_spec_section :: "parser \<Rightarrow> parser option" where
  "flow_spec_section p = start p (\<lambda>m p. do {
     p \<leftarrow> section_of FLOWS_KW at_name flow_spec p;
     complete m FLOW_SPEC_SECTION p })"

definition flow_impl_section :: "parser \<Rightarrow> parser option" where
  "flow_impl_section p = start p (\<lambda>m p. do {
     p \<leftarrow> section_of FLOWS_KW at_name flow_impl_or_e2e p;
     complete m FLOW_IMPL_SECTION p })"

section \<open>Connections\<close>

definition connection_kind :: "parser \<Rightarrow> (syntax_kind \<times> parser) option" where
  "connection_kind p =
     (if current p = PORT_KW then map_option (Pair PORT_CONNECTION) (bump PORT_KW p)
      else if current p = ACCESS_KW then map_option (Pair ACCESS_CONNECTION) (bump ACCESS_KW p)
      else if current p = FEATURE_KW
      then do {
        p \<leftarrow> bump FEATURE_KW p;
        (if at p GROUP_KW then map_option (Pair FEATURE_GROUP_CONNECTION) (bump GROUP_KW p)
         else Some (FEATURE_CONNECTION, p)) }
      else if current p = PARAMETER_KW then map_option (Pair PARAMETER_CONNECTION) (bump PARAMETER_KW p)
      else if current p = DATA_KW \<and> nth_kind p 1 = ACCESS_KW
      then map_option (Pair ACCESS_CONNECTION) (do { p \<leftarrow> bump DATA_KW p; bump ACCESS_KW p })
      else if current p = BUS_KW \<and> nth_kind p 1 = ACCESS_KW
      then map_option (Pair ACCESS_CONNECTION) (do { p \<leftarrow> bump BUS_KW p; bump ACCESS_KW p })
      else if current p = SUBPROGRAM_KW \<and> nth_kind p 1 = ACCESS_KW
      then map_option (Pair ACCESS_CONNECTION) (do { p \<leftarrow> bump SUBPROGRAM_KW p; bump ACCESS_KW p })
      else if current p = SUBPROGRAM_KW \<and> nth_kind p 1 = GROUP_KW \<and> nth_kind p 2 = ACCESS_KW
      then map_option (Pair ACCESS_CONNECTION) (do { p \<leftarrow> bump SUBPROGRAM_KW p; p \<leftarrow> bump GROUP_KW p; bump ACCESS_KW p })
      else if current p = VIRTUAL_KW \<and> nth_kind p 1 = BUS_KW \<and> nth_kind p 2 = ACCESS_KW
      then map_option (Pair ACCESS_CONNECTION) (do { p \<leftarrow> bump VIRTUAL_KW p; p \<leftarrow> bump BUS_KW p; bump ACCESS_KW p })
      else Some (PORT_CONNECTION, error (Msg ''expected connection kind (`port`, `access`, `feature`, `parameter`)'') p))"

definition connected_element :: "parser \<Rightarrow> parser option" where
  "connected_element p = start p (\<lambda>m p. do {
     p \<leftarrow> (if at_ident_or_kw p
           then let p = bump_any p in
             while_loop (\<lambda>p. at p DOT) (\<lambda>p. do {
               p \<leftarrow> bump DOT p;
               (if at_ident_or_kw p then Some (bump_any p)
                else Some (error (Msg ''expected feature name after `.`'') p)) }) p
           else if at p SELF_KW
           then do {
             p \<leftarrow> bump SELF_KW p;
             (if at p DOT
              then do { p \<leftarrow> bump DOT p; (if at_ident_or_kw p then Some (bump_any p) else Some p) }
              else Some p) }
           else Some (error (Msg ''expected connection endpoint'') p));
     complete m CONNECTED_ELEMENT p })"

definition connection :: "parser \<Rightarrow> parser option" where
  "connection p = start p (\<lambda>m p. do {
     let p = bump_any p;
     let p = snd (expect COLON p);
     let is_refined = at p REFINED_KW;
     p \<leftarrow> refined_to p;
     (kind, p) \<leftarrow> connection_kind p;
     p \<leftarrow> (if at p IDENT \<or> is_keyword (current p) \<or> at p SELF_KW
           then do {
             p \<leftarrow> connected_element p;
             let p = expect_either ARROW BIDI_ARROW (Msg ''expected `->` or `<->` in connection'') p;
             connected_element p }
           else if \<not> is_refined then Some (error MissingConnectionEnds p)
           else Some p);
     p \<leftarrow> opt_block p;
     p \<leftarrow> opt_in_modes p;
     let p = snd (expect SEMICOLON p);
     complete m kind p })"

definition connection_section :: "parser \<Rightarrow> parser option" where
  "connection_section p = start p (\<lambda>m p. do {
     p \<leftarrow> section_of CONNECTIONS_KW at_name connection p;
     complete m CONNECTION_SECTION p })"

section \<open>Features\<close>

definition opt_property_block_and_semi :: "parser \<Rightarrow> parser option" where
  "opt_property_block_and_semi p = do {
     p \<leftarrow> while_loop (\<lambda>p. at p L_BRACKET) array_dimension p;
     p \<leftarrow> opt_block p;
     Some (snd (expect SEMICOLON p)) }"

definition is_section_kw :: "parser \<Rightarrow> bool" where
  "is_section_kw p \<longleftrightarrow> current p \<in> {END_KW, FEATURES_KW, FLOWS_KW, CONNECTIONS_KW, MODES_KW, PROPERTIES_KW, SUBCOMPONENTS_KW,
     ANNEX_KW, CALLS_KW}"

definition abstract_feature_classifier :: "parser \<Rightarrow> parser option" where
  "abstract_feature_classifier p =
     (if at p CLASSIFIER_KW \<and> nth_kind p 1 = L_PAREN
      then start p (\<lambda>m p. do {
        p \<leftarrow> bump CLASSIFIER_KW p;
        p \<leftarrow> bump L_PAREN p;
        p \<leftarrow> classifier_node p;
        let p = snd (expect R_PAREN p);
        complete m CLASSIFIER_VALUE p })
      else if at p IDENT \<or> is_keyword (current p) \<and> \<not> is_section_kw p then classifier_node p
      else Some p)"

definition feature_group_ref :: "parser \<Rightarrow> parser option" where
  "feature_group_ref p =
     (if at p INVERSE_KW
      then do {
        p \<leftarrow> bump INVERSE_KW p;
        let p = snd (expect OF_KW p);
        classifier_node p }
      else if at p IDENT then classifier_node p
      else Some p)"

definition eat_to_semicolon :: "parser \<Rightarrow> parser option" where
  "eat_to_semicolon p = do {
     p \<leftarrow> while_loop (\<lambda>p. \<not> at p SEMICOLON \<and> \<not> at_end p) (\<lambda>p. Some (bump_any p)) p;
     bump_if SEMICOLON p }"

text \<open>The bounded scan of \<^verbatim>\<open>check_feature_legality\<close>.\<close>

fun scan_feature_kind :: "parser \<Rightarrow> nat list \<Rightarrow> feature_kind option" where
  "scan_feature_kind p [] = None"
| "scan_feature_kind p (i # is) =
     (let k = nth_kind p i in
      if k = SEMICOLON \<or> k = EOF then None
      else if k = BUS_KW \<and> nth_kind p (i + 1) = ACCESS_KW then Some BusAccess
      else if k = PARAMETER_KW then Some ParameterFeature
      else scan_feature_kind p is)"

definition check_feature_legality :: "grammar_category \<Rightarrow> parser \<Rightarrow> parser" where
  "check_feature_legality outer p =
     (case scan_feature_kind p [0..<24] of
        Some kind \<Rightarrow>
          if \<not> may_have_feature outer kind
          then error (DisallowedFeature (feature_kind_as_str kind) (category_as_str outer)) p
          else p
      | None \<Rightarrow> p)"

definition access_feature :: "nat \<Rightarrow> parser \<Rightarrow> parser option" where
  "access_feature m p =
     (if current p = DATA_KW
      then do {
        p \<leftarrow> bump DATA_KW p;
        let p = snd (expect ACCESS_KW p);
        p \<leftarrow> opt_classifier p;
        p \<leftarrow> opt_property_block_and_semi p;
        complete m DATA_ACCESS p }
      else if current p = BUS_KW
      then do {
        p \<leftarrow> bump BUS_KW p;
        let p = snd (expect ACCESS_KW p);
        p \<leftarrow> opt_classifier p;
        p \<leftarrow> opt_property_block_and_semi p;
        complete m BUS_ACCESS p }
      else if current p = SUBPROGRAM_KW
      then do {
        p \<leftarrow> bump SUBPROGRAM_KW p;
        (if at p GROUP_KW
         then do {
           p \<leftarrow> bump GROUP_KW p;
           let p = snd (expect ACCESS_KW p);
           p \<leftarrow> opt_classifier p;
           p \<leftarrow> opt_property_block_and_semi p;
           complete m SUBPROGRAM_GROUP_ACCESS p }
         else do {
           let p = snd (expect ACCESS_KW p);
           p \<leftarrow> opt_classifier p;
           p \<leftarrow> opt_property_block_and_semi p;
           complete m SUBPROGRAM_ACCESS p }) }
      else if current p = VIRTUAL_KW \<and> nth_kind p 1 = BUS_KW
      then do {
        p \<leftarrow> bump VIRTUAL_KW p;
        p \<leftarrow> bump BUS_KW p;
        let p = snd (expect ACCESS_KW p);
        p \<leftarrow> opt_classifier p;
        p \<leftarrow> opt_property_block_and_semi p;
        complete m BUS_ACCESS p }
      else do {
        let p = error (Msg ''expected access type after `provides`/`requires`'') p;
        p \<leftarrow> eat_to_semicolon p;
        complete m ERROR p })"

text \<open>The arms of \<^verbatim>\<open>feature\<close> for \<^verbatim>\<open>data port\<close>, \<^verbatim>\<open>event [data] port\<close> and \<^verbatim>\<open>feature [group]\<close>, which occur after a
  direction and without one.\<close>

definition data_port :: "nat \<Rightarrow> parser \<Rightarrow> parser option" where
  "data_port m p = do {
     p \<leftarrow> bump DATA_KW p;
     let p = snd (expect PORT_KW p);
     p \<leftarrow> opt_classifier p;
     p \<leftarrow> opt_property_block_and_semi p;
     complete m DATA_PORT p }"

definition event_port :: "nat \<Rightarrow> parser \<Rightarrow> parser option" where
  "event_port m p = do {
     p \<leftarrow> bump EVENT_KW p;
     (if at p DATA_KW
      then do {
        p \<leftarrow> bump DATA_KW p;
        let p = snd (expect PORT_KW p);
        p \<leftarrow> opt_classifier p;
        p \<leftarrow> opt_property_block_and_semi p;
        complete m EVENT_DATA_PORT p }
      else do {
        let p = snd (expect PORT_KW p);
        p \<leftarrow> opt_property_block_and_semi p;
        complete m EVENT_PORT p }) }"

definition group_or_abstract :: "nat \<Rightarrow> parser \<Rightarrow> parser option" where
  "group_or_abstract m p = do {
     p \<leftarrow> bump FEATURE_KW p;
     (if at p GROUP_KW
      then do {
        p \<leftarrow> bump GROUP_KW p;
        p \<leftarrow> feature_group_ref p;
        p \<leftarrow> opt_property_block_and_semi p;
        complete m FEATURE_GROUP p }
      else do {
        p \<leftarrow> abstract_feature_classifier p;
        p \<leftarrow> opt_property_block_and_semi p;
        complete m ABSTRACT_FEATURE p }) }"

definition feature_direction :: "parser \<Rightarrow> parser option" where
  "feature_direction p = start p (\<lambda>d p. do {
     let first_was_in = at p IN_KW;
     let p = bump_any p;
     p \<leftarrow> (if first_was_in \<and> at p OUT_KW then bump OUT_KW p
           else if at p IN_KW \<or> at p OUT_KW then let p = error InvalidFeatureDirection p in Some (bump_any p)
           else Some p);
     complete d DIRECTION p })"

definition directed_feature :: "nat \<Rightarrow> parser \<Rightarrow> parser option" where
  "directed_feature m p =
     (if current p = DATA_KW then data_port m p
      else if current p = EVENT_KW then event_port m p
      else if current p = PARAMETER_KW
      then do {
        p \<leftarrow> bump PARAMETER_KW p;
        p \<leftarrow> opt_classifier p;
        p \<leftarrow> opt_property_block_and_semi p;
        complete m PARAMETER p }
      else if current p = FEATURE_KW then group_or_abstract m p
      else do {
        let p = error (Msg ''expected port type after direction'') p;
        p \<leftarrow> opt_property_block_and_semi p;
        complete m ERROR p })"

definition feature_type :: "nat \<Rightarrow> parser \<Rightarrow> parser option" where
  "feature_type m p =
     (if current p = IN_KW \<or> current p = OUT_KW then do { p \<leftarrow> feature_direction p; directed_feature m p }
      else if current p = DATA_KW then data_port m p
      else if current p = EVENT_KW then event_port m p
      else if current p = PROVIDES_KW \<or> current p = REQUIRES_KW then do { let p = bump_any p; access_feature m p }
      else if current p = FEATURE_KW then group_or_abstract m p
      else if current p = PORT_KW
      then do {
        p \<leftarrow> bump PORT_KW p;
        p \<leftarrow> opt_classifier p;
        p \<leftarrow> opt_property_block_and_semi p;
        complete m DATA_PORT p }
      else do {
        bound \<leftarrow> (if current p = IDENT then at_contextual_kw p ''prototype'' else Some False);
        (if bound
         then do {
           p \<leftarrow> bump IDENT p;
           p \<leftarrow> bump_if IDENT p;
           p \<leftarrow> opt_property_block_and_semi p;
           complete m ABSTRACT_FEATURE p }
         else do {
           let p = error (Msg ''expected feature type'') p;
           p \<leftarrow> eat_to_semicolon p;
           complete m ERROR p }) })"

definition feature_name :: "parser \<Rightarrow> parser option" where
  "feature_name p =
     (if at p IDENT then bump IDENT p
      else if (at p IN_KW \<or> at p OUT_KW) \<and> nth_kind p 1 = COLON
      then let p = error (Msg ''a feature cannot be named `in` or `out`; they are reserved words (AS-5506B Annex A)'') p
           in Some (bump_any p)
      else if at_name p then Some (bump_any p)
      else Some p)"

definition feature_decl :: "parser \<Rightarrow> parser option" where
  "feature_decl p =
     (if \<not> at p IDENT \<and> \<not> at p IN_KW \<and> \<not> at p OUT_KW \<and> \<not> at p PROVIDES_KW \<and> \<not> at p REQUIRES_KW
      then err_and_bump (Msg ''expected feature declaration'') p
      else start p (\<lambda>m p. do {
        p \<leftarrow> feature_name p;
        let p = snd (expect COLON p);
        p \<leftarrow> refined_to p;
        feature_type m p }))"

definition feature :: "grammar_category option \<Rightarrow> parser \<Rightarrow> parser option" where
  "feature container p = feature_decl (case container of Some outer \<Rightarrow> check_feature_legality outer p | None \<Rightarrow> p)"

definition feature_section :: "grammar_category option \<Rightarrow> parser \<Rightarrow> parser option" where
  "feature_section container p = start p (\<lambda>m p. do {
     p \<leftarrow> section_of FEATURES_KW (\<lambda>p. at_name p \<or> at p IN_KW \<or> at p OUT_KW \<or> at p PROVIDES_KW \<or> at p REQUIRES_KW) (feature container) p;
     complete m FEATURE_SECTION p })"

section \<open>The contract of modes, annexes, flows and connections\<close>

lemma refined_to_keeps: "n \<le> ps_pos p \<Longrightarrow> exec p0 None n p (refined_to p)"
  unfolding refined_to_def by (intro exec_rules exec_keeps [OF exec_start]) (auto dest!: advances_pos)

lemma opt_classifier_keeps: "n \<le> ps_pos p \<Longrightarrow> exec p0 None n p (opt_classifier p)"
  unfolding opt_classifier_def by (intro exec_rules classifier_ref_keeps)

lemma opt_block_keeps: "n \<le> ps_pos p \<Longrightarrow> exec p0 None n p (opt_block p)"
  unfolding opt_block_def by (intro exec_rules exec_last [OF property_block_keeps]) auto

lemma opt_in_modes_keeps: "n \<le> ps_pos p \<Longrightarrow> exec p0 None n p (opt_in_modes p)"
  unfolding opt_in_modes_def by (intro exec_rules in_modes_keeps) auto

lemma dotted_rest_keeps: "n \<le> ps_pos p \<Longrightarrow> exec p0 None n p (dotted_rest p)"
  unfolding dotted_rest_def by (intro exec_rules exec_loops) auto

lemma section_of_keeps:
  assumes "at p k" "k \<noteq> EOF" "n \<le> Suc (ps_pos p)" "\<And>q. parser_ok q \<Longrightarrow> continues q \<Longrightarrow> keeps (Suc (ps_pos q)) q (decl q)"
  shows "exec p0 None n p (section_of k continues decl p)"
  unfolding section_of_def using assms(1-3)
  by (intro exec_rules exec_loops assms(4)) auto

lemma exec_section:
  assumes "at p k" "k \<noteq> EOF" "\<And>q. parser_ok q \<Longrightarrow> continues q \<Longrightarrow> keeps (Suc (ps_pos q)) q (decl q)"
    "\<And>q. parser_ok q \<Longrightarrow> advances p q \<Longrightarrow> Suc (ps_pos p) \<le> ps_pos q \<Longrightarrow> exec p0 ctx n q (f q)"
  shows "exec p0 ctx n p (Option.bind (section_of k continues decl p) f)"
  by (rule exec_bind [OF section_of_keeps [OF assms(1,2) order_refl assms(3)] assms(4)])

lemma exec_bump_if:
  assumes "k \<noteq> EOF" "at p k \<Longrightarrow> exec p0 ctx n (do_bump k p) (f (do_bump k p))" "\<not> at p k \<Longrightarrow> exec p0 ctx n p (f p)"
  shows "exec p0 ctx n p (Option.bind (bump_if k p) f)"
  using assms exec_step [OF advances_bump] by (simp add: bump_if_def bump_def)

lemmas parts_keep = refined_to_keeps opt_classifier_keeps opt_block_keeps opt_in_modes_keeps dotted_rest_keeps bump_if_keeps classifier_ref_keeps

lemma array_dimension_keeps: "at p L_BRACKET \<Longrightarrow> keeps (Suc (ps_pos p)) p (array_dimension p)"
  unfolding array_dimension_def by (intro exec_rules exec_call parts_keep) (auto dest!: advances_pos)

lemma trigger_ref_keeps: "n \<le> ps_pos p \<Longrightarrow> exec p0 None n p (trigger_ref p)"
  unfolding trigger_ref_def by (intro exec_rules parts_keep) (auto dest!: advances_pos)

interpretation triggers: grammar_item trigger_ref
  by unfold_locales (simp add: trigger_ref_keeps)

lemma parse_transition_tail_keeps: "n \<le> ps_pos p \<Longrightarrow> exec p0 None n p (parse_transition_tail p)"
  unfolding parse_transition_tail_def
  by (intro exec_rules triggers.separated_keeps exec_call) (auto dest!: advances_pos)

lemma at_unnamed_not_EOF [simp]: "at_unnamed_transition p \<Longrightarrow> current p \<noteq> EOF"
  by (simp add: at_unnamed_transition_def)

lemma mode_or_transition_keeps: "at_name p \<or> at_unnamed_transition p \<Longrightarrow> keeps (Suc (ps_pos p)) p (mode_or_transition p)"
  unfolding mode_or_transition_def
  by (intro exec_rules exec_call parse_transition_tail_keeps parts_keep) (auto dest!: advances_pos)

lemma mode_section_keeps: "at p MODES_KW \<or> at p REQUIRES_KW \<and> nth_kind p 1 = MODES_KW \<Longrightarrow> keeps (Suc (ps_pos p)) p (mode_section p)"
  unfolding mode_section_def
  by (intro exec_rules exec_bump_if exec_section mode_or_transition_keeps) (auto simp: at_def dest!: advances_pos)

lemma annex_block_keeps: "at p ANNEX_KW \<Longrightarrow> k \<noteq> TOMBSTONE \<Longrightarrow> keeps (Suc (ps_pos p)) p (annex_block k p)"
  unfolding annex_block_def
  by (intro exec_rules exec_call exec_loops) (auto dest!: advances_pos simp: not_at_end)

lemma flow_end_keeps: "keeps (ps_pos p) p (flow_end p)"
  unfolding flow_end_def by (intro exec_rules exec_call parts_keep) (auto dest!: advances_pos)

lemma flow_segment_keeps: "keeps (ps_pos p) p (flow_segment p)"
  unfolding flow_segment_def by (intro exec_rules exec_call parts_keep) (auto dest!: advances_pos)

lemma flow_kind_keeps: "keeps (ps_pos p) p (flow_kind msg p)"
  unfolding flow_kind_def by (intro exec_rules exec_call) (auto simp: at_def dest!: advances_pos)

lemma flow_spec_keeps: "at_name p \<Longrightarrow> keeps (Suc (ps_pos p)) p (flow_spec p)"
  unfolding flow_spec_def
  by (intro exec_rules exec_call flow_kind_keeps exec_last [OF flow_end_keeps] parts_keep) (auto dest!: advances_pos)

interpretation segments: grammar_item flow_segment
  by unfold_locales (rule flow_segment_keeps)

lemma flow_tail_keeps: "keeps (ps_pos p) p (flow_tail p)"
  unfolding flow_tail_def
  by (intro exec_rules segments.separated_keeps exec_call parts_keep) (auto dest!: advances_pos)

lemma flow_impl_or_e2e_keeps: "at_name p \<Longrightarrow> keeps (Suc (ps_pos p)) p (flow_impl_or_e2e p)"
  unfolding flow_impl_or_e2e_def
  by (intro exec_rules exec_call flow_kind_keeps flow_tail_keeps parts_keep) (auto dest!: advances_pos)

lemma flow_spec_section_keeps: "at p FLOWS_KW \<Longrightarrow> keeps (Suc (ps_pos p)) p (flow_spec_section p)"
  unfolding flow_spec_section_def by (intro exec_rules exec_section flow_spec_keeps) auto

lemma flow_impl_section_keeps: "at p FLOWS_KW \<Longrightarrow> keeps (Suc (ps_pos p)) p (flow_impl_section p)"
  unfolding flow_impl_section_def by (intro exec_rules exec_section flow_impl_or_e2e_keeps) auto

lemma connection_kind_keeps: "keeps (ps_pos p) p (map_option snd (connection_kind p))"
  unfolding connection_kind_def map_snd_if map_snd_Pair map_snd_bind option.map prod.sel
  by (intro exec_rules) (auto simp: at_def)

lemma connection_kind_node: "connection_kind p = Some (k, q) \<Longrightarrow> k \<noteq> TOMBSTONE"
  by (auto simp: connection_kind_def bump_def split: if_splits)

lemma connected_element_keeps: "n \<le> ps_pos p \<Longrightarrow> exec p0 None n p (connected_element p)"
  unfolding connected_element_def
  by (intro exec_rules exec_keeps [OF exec_start] exec_call exec_loops) (auto dest!: advances_pos)

lemma exec_let_value: "exec p0 ctx n p (f (b :: bool)) \<Longrightarrow> exec p0 ctx n p (Let b f)"
  by simp

lemma connection_keeps: "at_name p \<Longrightarrow> keeps (Suc (ps_pos p)) p (connection p)"
  unfolding connection_def
  by (intro exec_rules exec_let_value exec_call_pair connection_kind_keeps connection_kind_node exec_call exec_expect_either
      connected_element_keeps parts_keep)
    (auto dest!: advances_pos)

lemma connection_section_keeps: "at p CONNECTIONS_KW \<Longrightarrow> keeps (Suc (ps_pos p)) p (connection_section p)"
  unfolding connection_section_def by (intro exec_rules exec_section connection_keeps) auto

section \<open>The contract of features\<close>

lemma opt_property_block_and_semi_keeps: "keeps (ps_pos p) p (opt_property_block_and_semi p)"
  unfolding opt_property_block_and_semi_def
  by (intro exec_rules exec_call exec_loops array_dimension_keeps parts_keep) (auto dest!: advances_pos)

lemma abstract_feature_classifier_keeps: "keeps (ps_pos p) p (abstract_feature_classifier p)"
  unfolding abstract_feature_classifier_def
  by (intro exec_rules exec_call parts_keep) (auto dest!: advances_pos)

lemma feature_group_ref_keeps: "keeps (ps_pos p) p (feature_group_ref p)"
  unfolding feature_group_ref_def
  by (intro exec_rules exec_call parts_keep) (auto dest!: advances_pos)

lemma eat_to_semicolon_keeps: "keeps (ps_pos p) p (eat_to_semicolon p)"
  unfolding eat_to_semicolon_def
  by (intro exec_rules exec_call exec_loops parts_keep) (auto dest!: advances_pos simp: not_at_end)

lemmas feature_parts = opt_property_block_and_semi_keeps abstract_feature_classifier_keeps feature_group_ref_keeps eat_to_semicolon_keeps parts_keep

lemma access_feature_exec: "n \<le> ps_pos p \<Longrightarrow> exec p0 (Some m) n p (access_feature m p)"
  unfolding access_feature_def
  by (intro exec_rules exec_call feature_parts) (auto simp: at_def dest!: advances_pos)

lemma data_port_exec: "at p DATA_KW \<Longrightarrow> n \<le> ps_pos p \<Longrightarrow> exec p0 (Some m) n p (data_port m p)"
  unfolding data_port_def
  by (intro exec_rules exec_call feature_parts) (auto dest!: advances_pos)

lemma event_port_exec: "at p EVENT_KW \<Longrightarrow> n \<le> ps_pos p \<Longrightarrow> exec p0 (Some m) n p (event_port m p)"
  unfolding event_port_def
  by (intro exec_rules exec_call feature_parts) (auto dest!: advances_pos)

lemma group_or_abstract_exec: "at p FEATURE_KW \<Longrightarrow> n \<le> ps_pos p \<Longrightarrow> exec p0 (Some m) n p (group_or_abstract m p)"
  unfolding group_or_abstract_def
  by (intro exec_rules exec_call feature_parts) (auto dest!: advances_pos)

lemma feature_direction_keeps: "current p = IN_KW \<or> current p = OUT_KW \<Longrightarrow> keeps (Suc (ps_pos p)) p (feature_direction p)"
  unfolding feature_direction_def
  by (intro exec_rules exec_let_value exec_call) (auto dest!: advances_pos)

lemma directed_feature_exec: "n \<le> ps_pos p \<Longrightarrow> exec p0 (Some m) n p (directed_feature m p)"
  unfolding directed_feature_def
  by (intro exec_rules exec_call data_port_exec event_port_exec group_or_abstract_exec feature_parts) (auto simp: at_def dest!: advances_pos)

lemma contextual_Some: "parser_ok p \<Longrightarrow> \<exists>b. at_contextual_kw p w = Some b"
  by (auto simp: at_contextual_kw_def at_end_def parser_ok_def)

lemma exec_bind_value:
  assumes "parser_ok p \<Longrightarrow> \<exists>b. x = Some (b :: bool)" "\<And>b. x = Some b \<Longrightarrow> parser_ok p \<Longrightarrow> exec p0 ctx n p (f b)"
  shows "exec p0 ctx n p (Option.bind x f)"
proof (rule exec_ok)
  assume ok: "parser_ok p"
  then obtain b where "x = Some b" using assms(1) by blast
  then show ?thesis using assms(2) ok by simp
qed

text \<open>A declaration without a name begins with a direction or with \<^verbatim>\<open>provides\<close> or \<^verbatim>\<open>requires\<close>.\<close>

definition feature_start :: "parser \<Rightarrow> bool" where
  "feature_start p \<longleftrightarrow> current p \<in> {IN_KW, OUT_KW, PROVIDES_KW, REQUIRES_KW}"

lemma feature_type_exec:
  assumes "Suc l \<le> ps_pos p \<or> l \<le> ps_pos p \<and> feature_start p"
  shows "exec p0 (Some m) (Suc l) p (feature_type m p)"
  unfolding feature_type_def using assms
  by (intro exec_rules exec_bind [OF feature_direction_keeps] exec_bind_value exec_call directed_feature_exec data_port_exec event_port_exec
      group_or_abstract_exec access_feature_exec feature_parts)
    (auto simp: at_def feature_start_def contextual_Some dest!: advances_pos split: if_splits)

lemma feature_tail_exec:
  assumes "Suc l \<le> ps_pos p \<or> l \<le> ps_pos p \<and> feature_start p"
  shows "exec p0 (Some m) (Suc l) p (Let (snd (expect COLON p)) (\<lambda>p. Option.bind (refined_to p) (feature_type m)))"
proof (cases "Suc l \<le> ps_pos p")
  case True
  then show ?thesis by (intro exec_rules exec_call feature_type_exec parts_keep) (auto dest!: advances_pos)
next
  case False
  then have "feature_start p" "l \<le> ps_pos p" using assms by auto
  then have "at p COLON = False" "refined_to (error msg p) = Some (error msg p)" "feature_start (error msg p)" for msg
    by (auto simp: feature_start_def at_def refined_to_def)
  then show ?thesis using \<open>l \<le> ps_pos p\<close> by (intro exec_expect_case) (auto intro: feature_type_exec)
qed

lemma exec_bind_parts:
  "(b \<Longrightarrow> exec p0 ctx n p (Option.bind x f)) \<Longrightarrow> (\<not> b \<Longrightarrow> exec p0 ctx n p (Option.bind y f)) \<Longrightarrow> exec p0 ctx n p (Option.bind (if b then x else y) f)"
  "exec p0 ctx n p (Let z (\<lambda>z. Option.bind (g z) f)) \<Longrightarrow> exec p0 ctx n p (Option.bind (Let z g) f)"
  "exec p0 ctx n p (Let w f) \<Longrightarrow> exec p0 ctx n p (Option.bind (Some w) f)"
  by simp_all

lemma feature_decl_keeps:
  assumes "at_name p \<or> feature_start p"
  shows "keeps (Suc (ps_pos p)) p (feature_decl p)"
proof -
  have ne: "current p \<noteq> EOF" using assms by (auto simp: feature_start_def)
  show ?thesis unfolding feature_decl_def feature_name_def
    by (intro exec_start exec_if exec_err_and_bump exec_bind_parts feature_tail_exec exec_rules)
      (use ne assms in \<open>auto simp: at_name_def at_def feature_start_def\<close>)
qed

lemma feature_keeps:
  assumes "parser_ok p" "at_name p \<or> feature_start p"
  shows "keeps (Suc (ps_pos p)) p (feature container p)"
proof -
  define q where "q = (case container of Some outer \<Rightarrow> check_feature_legality outer p | None \<Rightarrow> p)"
  have "q = p \<or> (\<exists>msg. q = error msg p)" by (auto simp: q_def check_feature_legality_def split: option.splits)
  then have q: "advances p q" "ps_pos q = ps_pos p" "at_name q \<or> feature_start q"
    using advances_refl [OF assms(1)] advances_error [OF assms(1)] assms(2) by (auto simp: feature_start_def at_name_def)
  show ?thesis unfolding feature_def q_def [symmetric]
    by (rule exec_step [OF q(1) exec_last [OF feature_decl_keeps [OF q(3)]]]) (simp add: q(2))
qed

lemma feature_section_keeps: "at p FEATURES_KW \<Longrightarrow> keeps (Suc (ps_pos p)) p (feature_section container p)"
  unfolding feature_section_def by (intro exec_rules exec_section feature_keeps) (auto simp: feature_start_def at_def)

end
