(* ===== verification/Grammar_Components.thy ===== *)
theory Grammar_Components
  imports Grammar_Sections
begin

text \<open>
  Component types and implementations, packages and source files: \<^verbatim>\<open>components.rs\<close>, \<^verbatim>\<open>packages.rs\<close> and
  \<^verbatim>\<open>source_file\<close> of \<^verbatim>\<open>mod.rs\<close> in \<^verbatim>\<open>crates/spar-parser/src/grammar\<close>. The main result is that
  \<open>source_file\<close> returns on every token list, having consumed all tokens in one \<^verbatim>\<open>SOURCE_FILE\<close> node.
\<close>

section \<open>Prototypes, subcomponents and calls\<close>

definition prototype_direction :: "parser \<Rightarrow> parser option" where
  "prototype_direction p =
     (if at p IN_KW \<or> at p OUT_KW
      then start p (\<lambda>d p. do {
        p \<leftarrow> (if at p IN_KW then do { p \<leftarrow> bump IN_KW p; bump_if OUT_KW p } else bump OUT_KW p);
        complete d DIRECTION p })
      else Some p)"

definition prototype :: "parser \<Rightarrow> parser option" where
  "prototype p = start p (\<lambda>m p. do {
     p \<leftarrow> bump IDENT p;
     let p = snd (expect COLON p);
     p \<leftarrow> refined_to p;
     p \<leftarrow> prototype_direction p;
     p \<leftarrow> (if is_component_category_kw (current p) then category_node p
           else if at p FEATURE_KW then do { p \<leftarrow> bump FEATURE_KW p; bump_if GROUP_KW p }
           else Some (error (Msg ''expected component category or `feature`'') p));
     p \<leftarrow> opt_classifier p;
     let p = snd (expect SEMICOLON p);
     complete m PROTOTYPE p })"

definition prototype_section :: "parser \<Rightarrow> parser option" where
  "prototype_section p = start p (\<lambda>m p. do {
     p \<leftarrow> section_of PROTOTYPES_KW (\<lambda>p. at p IDENT) prototype p;
     complete m PROTOTYPE_SECTION p })"

definition impl_reference_list :: "parser \<Rightarrow> parser option" where
  "impl_reference_list p = start p (\<lambda>m p. do {
     p \<leftarrow> bump L_PAREN p;
     p \<leftarrow> (if at_ident_or_kw p
           then do {
             p \<leftarrow> classifier_node p;
             eat_loop COMMA (\<lambda>p. if at_ident_or_kw p then classifier_node p else Some p) p }
           else Some p);
     let p = snd (expect R_PAREN p);
     complete m LIST_VALUE p })"

definition check_containment :: "grammar_category option \<Rightarrow> parser \<Rightarrow> parser" where
  "check_containment container p =
     (case (container, peek_category (current p) (nth_kind p 1)) of
        (Some outer, Some inner) \<Rightarrow>
          if \<not> may_contain outer inner
          then error (DisallowedSubcomponent (category_as_str inner) (category_as_str outer)) p
          else p
      | _ \<Rightarrow> p)"

definition subcomponent_tail :: "nat \<Rightarrow> parser \<Rightarrow> parser option" where
  "subcomponent_tail m p = do {
     p \<leftarrow> opt_classifier p;
     p \<leftarrow> while_loop (\<lambda>p. at p L_BRACKET) array_dimension p;
     p \<leftarrow> (if at p L_PAREN then impl_reference_list p else Some p);
     p \<leftarrow> opt_block p;
     p \<leftarrow> opt_in_modes p;
     let p = snd (expect SEMICOLON p);
     complete m SUBCOMPONENT p }"

definition subcomponent :: "grammar_category option \<Rightarrow> parser \<Rightarrow> parser option" where
  "subcomponent container p = start p (\<lambda>m p. do {
     p \<leftarrow> bump_if IDENT p;
     let p = snd (expect COLON p);
     p \<leftarrow> refined_to p;
     let p = check_containment container p;
     p \<leftarrow> category_node p;
     subcomponent_tail m p })"

definition subcomponent_section :: "grammar_category option \<Rightarrow> parser \<Rightarrow> parser option" where
  "subcomponent_section container p = start p (\<lambda>m p. do {
     p \<leftarrow> section_of SUBCOMPONENTS_KW (\<lambda>p. at p IDENT \<or> is_component_category_kw (current p)) (subcomponent container) p;
     complete m SUBCOMPONENT_SECTION p })"

definition subprogram_call :: "parser \<Rightarrow> parser option" where
  "subprogram_call p = start p (\<lambda>m p. do {
     p \<leftarrow> bump IDENT p;
     let p = snd (expect COLON p);
     let p = snd (expect SUBPROGRAM_KW p);
     p \<leftarrow> opt_classifier p;
     let p = snd (expect SEMICOLON p);
     complete m SUBPROGRAM_CALL p })"

definition call_sequence :: "parser \<Rightarrow> parser option" where
  "call_sequence p = start p (\<lambda>m p. do {
     p \<leftarrow> bump IDENT p;
     let p = snd (expect COLON p);
     let p = snd (expect L_CURLY p);
     p \<leftarrow> while_loop (\<lambda>p. at p IDENT) subprogram_call p;
     let p = snd (expect R_CURLY p);
     p \<leftarrow> opt_in_modes p;
     let p = snd (expect SEMICOLON p);
     complete m CALL_SEQUENCE p })"

definition call_section :: "parser \<Rightarrow> parser option" where
  "call_section p = start p (\<lambda>m p. do {
     p \<leftarrow> section_of CALLS_KW (\<lambda>p. at p IDENT) call_sequence p;
     complete m CALL_SECTION p })"

section \<open>Internal and processor features\<close>

definition internal_or_processor_feature :: "parser \<Rightarrow> parser option" where
  "internal_or_processor_feature p = start p (\<lambda>f p. do {
     p \<leftarrow> bump IDENT p;
     let p = snd (expect COLON p);
     (if at p EVENT_KW
      then do {
        p \<leftarrow> bump EVENT_KW p;
        (if at p DATA_KW
         then do {
           p \<leftarrow> bump DATA_KW p;
           (if at p SOURCE_KW
            then do {
              p \<leftarrow> bump SOURCE_KW p;
              p \<leftarrow> opt_classifier p;
              let p = snd (expect SEMICOLON p);
              complete f EVENT_DATA_SOURCE p }
            else do {
              p \<leftarrow> opt_classifier p;
              let p = snd (expect SEMICOLON p);
              complete f EVENT_DATA_SOURCE p }) }
         else if at p SOURCE_KW
         then do {
           p \<leftarrow> bump SOURCE_KW p;
           let p = snd (expect SEMICOLON p);
           complete f EVENT_SOURCE p }
         else do {
           let p = snd (expect SEMICOLON p);
           complete f EVENT_SOURCE p }) }
      else if at p PORT_KW
      then do {
        p \<leftarrow> bump PORT_KW p;
        p \<leftarrow> opt_classifier p;
        let p = snd (expect SEMICOLON p);
        complete f PORT_PROXY p }
      else if at p SUBPROGRAM_KW
      then do {
        p \<leftarrow> bump SUBPROGRAM_KW p;
        p \<leftarrow> opt_classifier p;
        let p = snd (expect SEMICOLON p);
        complete f SUBPROGRAM_PROXY p }
      else do {
        p \<leftarrow> err_and_bump (Msg ''expected `event`, `port`, or `subprogram`'') p;
        abandon f p }) })"

definition internal_features_section :: "parser \<Rightarrow> parser option" where
  "internal_features_section p = start p (\<lambda>m p. do {
     p \<leftarrow> bump INTERNAL_KW p;
     let p = snd (expect FEATURES_KW p);
     p \<leftarrow> while_loop (\<lambda>p. at p IDENT) internal_or_processor_feature p;
     complete m INTERNAL_FEATURES_SECTION p })"

definition processor_features_section :: "parser \<Rightarrow> parser option" where
  "processor_features_section p = start p (\<lambda>m p. do {
     p \<leftarrow> bump PROCESSOR_KW p;
     let p = snd (expect FEATURES_KW p);
     p \<leftarrow> while_loop (\<lambda>p. at p IDENT) internal_or_processor_feature p;
     complete m PROCESSOR_FEATURES_SECTION p })"

section \<open>Component types and implementations\<close>

type_synonym seen_sections = "(syntax_kind \<times> string) list"

definition seen_check :: "seen_sections \<Rightarrow> parser \<Rightarrow> syntax_kind \<Rightarrow> string \<Rightarrow> bool \<times> seen_sections \<times> parser" where
  "seen_check seen p kind label =
     (if list_ex (\<lambda>(k, _). k = kind) seen then (False, seen, error (DuplicateSection label) p)
      else (True, seen @ [(kind, label)], p))"

text \<open>One section of a component: \<^verbatim>\<open>seen.check(p, kind, label); parse(p)\<close>.\<close>

definition checked_section ::
  "syntax_kind \<Rightarrow> string \<Rightarrow> (parser \<Rightarrow> parser option) \<Rightarrow> seen_sections \<times> parser \<Rightarrow> (bool \<times> seen_sections \<times> parser) option" where
  "checked_section kind label parse_section = (\<lambda>(seen, p).
     let (_, seen, p) = seen_check seen p kind label
     in map_option (\<lambda>p. (True, seen, p)) (parse_section p))"

definition component_type_sections :: "grammar_category option \<Rightarrow> parser \<Rightarrow> parser option" where
  "component_type_sections container p = map_option snd (repeat_loop (\<lambda>(seen, p).
     if current p = PROTOTYPES_KW then checked_section PROTOTYPES_KW ''prototypes'' prototype_section (seen, p)
     else if current p = FEATURES_KW then checked_section FEATURES_KW ''features'' (feature_section container) (seen, p)
     else if current p = FLOWS_KW then checked_section FLOWS_KW ''flows'' flow_spec_section (seen, p)
     else if current p = MODES_KW then checked_section MODES_KW ''modes'' mode_section (seen, p)
     else if current p = REQUIRES_KW \<and> nth_kind p 1 = MODES_KW then checked_section MODES_KW ''modes'' mode_section (seen, p)
     else if current p = PROPERTIES_KW then checked_section PROPERTIES_KW ''properties'' property_section (seen, p)
     else if current p = ANNEX_KW then map_option (\<lambda>p. (True, seen, p)) (annex_subclause p)
     else Some (False, seen, p)) ([], p))"

definition component_impl_sections :: "grammar_category option \<Rightarrow> parser \<Rightarrow> parser option" where
  "component_impl_sections container p = map_option snd (repeat_loop (\<lambda>(seen, p).
     if current p = PROTOTYPES_KW then checked_section PROTOTYPES_KW ''prototypes'' prototype_section (seen, p)
     else if current p = SUBCOMPONENTS_KW then checked_section SUBCOMPONENTS_KW ''subcomponents'' (subcomponent_section container) (seen, p)
     else if current p = INTERNAL_KW then checked_section INTERNAL_KW ''internal features'' internal_features_section (seen, p)
     else if current p = PROCESSOR_KW \<and> nth_kind p 1 = FEATURES_KW
     then checked_section PROCESSOR_KW ''processor features'' processor_features_section (seen, p)
     else if current p = CONNECTIONS_KW then checked_section CONNECTIONS_KW ''connections'' connection_section (seen, p)
     else if current p = CALLS_KW then checked_section CALLS_KW ''calls'' call_section (seen, p)
     else if current p = FLOWS_KW then checked_section FLOWS_KW ''flows'' flow_impl_section (seen, p)
     else if current p = MODES_KW then checked_section MODES_KW ''modes'' mode_section (seen, p)
     else if current p = REQUIRES_KW \<and> nth_kind p 1 = MODES_KW then checked_section MODES_KW ''modes'' mode_section (seen, p)
     else if current p = PROPERTIES_KW then checked_section PROPERTIES_KW ''properties'' property_section (seen, p)
     else if current p = ANNEX_KW then map_option (\<lambda>p. (True, seen, p)) (annex_subclause p)
     else Some (False, seen, p)) ([], p))"

definition extension :: "syntax_kind \<Rightarrow> parser \<Rightarrow> parser option" where
  "extension kind p = start p (\<lambda>m p. do {
     p \<leftarrow> bump EXTENDS_KW p;
     p \<leftarrow> classifier_node p;
     complete m kind p })"

definition type_extension :: "parser \<Rightarrow> parser option" where
  "type_extension = extension TYPE_EXTENSION"

definition impl_extension :: "parser \<Rightarrow> parser option" where
  "impl_extension = extension IMPL_EXTENSION"

text \<open>The segments \<open>A :: B :: T\<close> of a qualified name from lookahead \<open>n\<close> on, and the offset after them.\<close>

function realization_segments :: "parser \<Rightarrow> nat \<Rightarrow> (string list \<times> nat) option" where
  "realization_segments p n =
     (if nth_kind p n = COLON_COLON \<and> nth_kind p (n + 1) = IDENT
      then do {
        t \<leftarrow> nth_text p (n + 1);
        (ts, n) \<leftarrow> realization_segments p (n + 2);
        Some (t # ts, n) }
      else Some ([], n))"
  by pat_completeness auto

termination
  by (relation "measure (\<lambda>(p, n). length (ps_indices p) - n)") (auto simp: nth_kind_def split: if_splits)

declare realization_segments.simps [simp del]

definition join_names :: "string list \<Rightarrow> string" where
  "join_names ts = (case ts of [] \<Rightarrow> [] | t # ts \<Rightarrow> t @ concat (map (\<lambda>t. ''::'' @ t) ts))"

definition qualified_realization_error :: "grammar_category option \<Rightarrow> parser \<Rightarrow> parser option" where
  "qualified_realization_error container p = do {
     t0 \<leftarrow> nth_text p 0;
     (ts, n) \<leftarrow> realization_segments p 1;
     let segments = t0 # ts;
     (if nth_kind p n \<noteq> DOT \<or> nth_kind p (n + 1) \<noteq> IDENT
      then Some (error (Msg (''component implementation names its type with a package qualifier: '' @
        ''an implementation names its type by a plain identifier'')) p)
      else do {
        imp \<leftarrow> nth_text p (n + 1);
        let ty = last segments;
        let pkg = join_names (butlast segments);
        let cat = (case container of Some c \<Rightarrow> category_as_str c | None \<Rightarrow> ''system'');
        Some (error (QualifiedRealization pkg ty imp cat) p) }) }"

definition realization :: "parser \<Rightarrow> parser option" where
  "realization p = start p (\<lambda>r p. do {
     p \<leftarrow> (if at_name p
           then let p = bump_any p in
             while_loop (\<lambda>p. at p COLON_COLON) (\<lambda>p. do {
               p \<leftarrow> bump COLON_COLON p;
               (if at_name p then Some (bump_any p) else Some p) }) p
           else Some p);
     complete r REALIZATION p })"

definition name_or_error :: "string \<Rightarrow> parser \<Rightarrow> parser option" where
  "name_or_error msg p = (if at_name p then Some (bump_any p) else Some (error (Msg msg) p))"

definition end_name :: "parser \<Rightarrow> parser option" where
  "end_name p = do {
     let p = snd (expect END_KW p);
     p \<leftarrow> (if at_name p then Some (bump_any p) else Some p);
     Some (snd (expect SEMICOLON p)) }"

definition component_type :: "parser \<Rightarrow> parser option" where
  "component_type p = start p (\<lambda>m p. do {
     let container = peek_category (current p) (nth_kind p 1);
     p \<leftarrow> category_node p;
     p \<leftarrow> name_or_error ''expected component type name'' p;
     p \<leftarrow> (if at p EXTENDS_KW then type_extension p else Some p);
     p \<leftarrow> component_type_sections container p;
     p \<leftarrow> end_name p;
     complete m COMPONENT_TYPE p })"

definition component_impl :: "parser \<Rightarrow> parser option" where
  "component_impl p = start p (\<lambda>m p. do {
     let container = peek_category (current p) (nth_kind p 1);
     p \<leftarrow> category_node p;
     let p = snd (expect IMPLEMENTATION_KW p);
     p \<leftarrow> (if at_name p \<and> nth_kind p 1 = COLON_COLON then qualified_realization_error container p else Some p);
     p \<leftarrow> realization p;
     let p = snd (expect DOT p);
     p \<leftarrow> name_or_error ''expected implementation name'' p;
     p \<leftarrow> (if at p L_PAREN then prototype_binding_list classifier_node p else Some p);
     p \<leftarrow> (if at p EXTENDS_KW then impl_extension p else Some p);
     p \<leftarrow> component_impl_sections container p;
     let p = snd (expect END_KW p);
     p \<leftarrow> while_loop (\<lambda>p. at_name p \<or> at p DOT \<or> at p COLON_COLON) (\<lambda>p. Some (bump_any p)) p;
     let p = snd (expect SEMICOLON p);
     complete m COMPONENT_IMPL p })"

definition is_implementation_ahead :: "parser \<Rightarrow> bool" where
  "is_implementation_ahead p =
     (if nth_kind p 0 = VIRTUAL_KW then nth_kind p 2 = IMPLEMENTATION_KW
      else if nth_kind p 0 = THREAD_KW \<or> nth_kind p 0 = SUBPROGRAM_KW
      then (let lookahead = (if nth_kind p 1 = GROUP_KW then 2 else 1) in nth_kind p lookahead = IMPLEMENTATION_KW)
      else if is_component_category_kw (nth_kind p 0) then nth_kind p 1 = IMPLEMENTATION_KW
      else False)"

definition classifier_decl :: "parser \<Rightarrow> parser option" where
  "classifier_decl p = (if is_implementation_ahead p then component_impl p else component_type p)"

definition feature_group_type_decl :: "parser \<Rightarrow> parser option" where
  "feature_group_type_decl p = start p (\<lambda>m p. do {
     p \<leftarrow> bump FEATURE_KW p;
     let p = snd (expect GROUP_KW p);
     p \<leftarrow> name_or_error ''expected feature group type name'' p;
     p \<leftarrow> (if at p EXTENDS_KW then type_extension p else Some p);
     p \<leftarrow> (if at p PROTOTYPES_KW then prototype_section p else Some p);
     p \<leftarrow> (if at p FEATURES_KW then feature_section None p else Some p);
     p \<leftarrow> (if at p INVERSE_KW
           then do {
             p \<leftarrow> bump INVERSE_KW p;
             let p = snd (expect OF_KW p);
             classifier_node p }
           else Some p);
     p \<leftarrow> (if at p PROPERTIES_KW then property_section p else Some p);
     p \<leftarrow> while_loop (\<lambda>p. at p ANNEX_KW) annex_subclause p;
     p \<leftarrow> end_name p;
     complete m FEATURE_GROUP_TYPE p })"

section \<open>Packages and source files\<close>

definition with_clause :: "parser \<Rightarrow> parser option" where
  "with_clause = with_names"

definition renames_clause :: "parser \<Rightarrow> parser option" where
  "renames_clause p = start p (\<lambda>m p. do {
     p \<leftarrow> bump IDENT p;
     p \<leftarrow> bump RENAMES_KW p;
     (category, p) \<leftarrow> component_category p;
     p \<leftarrow> (if category then classifier_node p
           else if at p PACKAGE_KW then do { p \<leftarrow> bump PACKAGE_KW p; name_node p }
           else if at p FEATURE_KW \<and> nth_kind p 1 = GROUP_KW
           then do { p \<leftarrow> bump FEATURE_KW p; p \<leftarrow> bump GROUP_KW p; classifier_node p }
           else Some (error (Msg ''expected component category or `package` after `renames`'') p));
     let p = snd (expect SEMICOLON p);
     complete m RENAMES_CLAUSE p })"

definition renames_all_clause :: "parser \<Rightarrow> parser option" where
  "renames_all_clause p = start p (\<lambda>m p. do {
     p \<leftarrow> bump RENAMES_KW p;
     p \<leftarrow> (if is_component_category_kw (current p) then do { p \<leftarrow> category_node p; classifier_node p }
           else if at p FEATURE_KW \<and> nth_kind p 1 = GROUP_KW
           then do { p \<leftarrow> bump FEATURE_KW p; p \<leftarrow> bump GROUP_KW p; classifier_node p }
           else if at p PACKAGE_KW then do { p \<leftarrow> bump PACKAGE_KW p; name_node p }
           else if at_ident_or_kw p
           then let p = bump_any p in
             while_loop (\<lambda>p. at p COLON_COLON) (\<lambda>p. do {
               p \<leftarrow> bump COLON_COLON p;
               (if at p IDENT \<or> at p ALL_KW \<or> is_keyword (current p) then Some (bump_any p) else Some p) }) p
           else Some p);
     let p = snd (expect SEMICOLON p);
     complete m RENAMES_CLAUSE p })"

definition section_body :: "parser \<Rightarrow> parser option" where
  "section_body = repeat_loop (\<lambda>p.
     if current p = WITH_KW then map_option (Pair True) (with_clause p)
     else if current p = RENAMES_KW then map_option (Pair True) (renames_all_clause p)
     else if is_component_category_kw (current p) then map_option (Pair True) (classifier_decl p)
     else if current p = FEATURE_KW
     then if nth_kind p 1 = GROUP_KW then map_option (Pair True) (feature_group_type_decl p) else Some (False, p)
     else if current p = INTERFACE_KW \<and> nth_kind p 1 = FEATURE_KW \<and> nth_kind p 2 = GROUP_KW
     then map_option (Pair True) (do { p \<leftarrow> bump INTERFACE_KW p; feature_group_type_decl p })
     else if current p = ANNEX_KW then map_option (Pair True) (annex_library p)
     else if current p = IDENT \<and> nth_kind p 1 = RENAMES_KW then map_option (Pair True) (renames_clause p)
     else Some (False, p))"

definition public_section :: "parser \<Rightarrow> parser option" where
  "public_section p = start p (\<lambda>m p. do {
     p \<leftarrow> bump PUBLIC_KW p;
     p \<leftarrow> section_body p;
     complete m PUBLIC_SECTION p })"

definition private_section :: "parser \<Rightarrow> parser option" where
  "private_section p = start p (\<lambda>m p. do {
     p \<leftarrow> bump PRIVATE_KW p;
     p \<leftarrow> section_body p;
     complete m PRIVATE_SECTION p })"

definition package_properties :: "parser \<Rightarrow> parser option" where
  "package_properties p = start p (\<lambda>m p. do {
     p \<leftarrow> bump PROPERTIES_KW p;
     p \<leftarrow> (if at p NONE_KW then do { p \<leftarrow> bump NONE_KW p; Some (snd (expect SEMICOLON p)) }
           else repeat_loop (\<lambda>p.
             if \<not> at p END_KW \<and> \<not> at_end p
             then if at p IDENT then map_option (Pair True) (property_association p) else Some (False, p)
             else Some (False, p)) p);
     complete m PACKAGE_PROPERTIES p })"

definition aadl_package :: "parser \<Rightarrow> parser option" where
  "aadl_package p = start p (\<lambda>m p. do {
     p \<leftarrow> bump PACKAGE_KW p;
     p \<leftarrow> name_node p;
     p \<leftarrow> (if at p PUBLIC_KW then public_section p else Some p);
     p \<leftarrow> (if at p PRIVATE_KW then private_section p else Some p);
     p \<leftarrow> (if at p PROPERTIES_KW then package_properties p else Some p);
     let p = snd (expect END_KW p);
     p \<leftarrow> name_node p;
     let p = snd (expect SEMICOLON p);
     complete m AADL_PACKAGE p })"

definition source_unit :: "parser \<Rightarrow> (bool \<times> parser) option" where
  "source_unit p =
     (if current p = PACKAGE_KW then map_option (Pair True) (aadl_package p)
      else if current p = PROPERTY_KW \<and> nth_kind p 1 = SET_KW then map_option (Pair True) (property_set p)
      else if current p = PROPERTY_KW then map_option (Pair True) (err_and_bump (Msg ''expected `package` or `property set`'') p)
      else if current p = EOF then Some (False, p)
      else map_option (Pair True) (err_and_bump (Msg ''expected `package` or `property set`'') p))"

definition source_file :: "parser \<Rightarrow> parser option" where
  "source_file p = start p (\<lambda>m p. do {
     p \<leftarrow> repeat_loop (\<lambda>p. if \<not> at_end p then source_unit p else Some (False, p)) p;
     complete m SOURCE_FILE p })"

section \<open>The contract of components\<close>

lemma prototype_direction_keeps: "keeps (ps_pos p) p (prototype_direction p)"
  unfolding prototype_direction_def by (intro exec_rules exec_call parts_keep) (auto dest!: advances_pos)

lemma prototype_keeps: "at p IDENT \<Longrightarrow> keeps (Suc (ps_pos p)) p (prototype p)"
  unfolding prototype_def
  by (intro exec_rules exec_call prototype_direction_keeps component_category_keeps parts_keep) (auto dest!: advances_pos)

lemma prototype_section_keeps: "at p PROTOTYPES_KW \<Longrightarrow> keeps (Suc (ps_pos p)) p (prototype_section p)"
  unfolding prototype_section_def by (intro exec_rules exec_section prototype_keeps) auto

lemma impl_reference_list_keeps: "at p L_PAREN \<Longrightarrow> keeps (ps_pos p) p (impl_reference_list p)"
  unfolding impl_reference_list_def
  by (intro exec_rules exec_call exec_loops parts_keep) (auto dest!: advances_pos)

lemma subcomponent_tail_exec: "n \<le> ps_pos p \<Longrightarrow> exec p0 (Some m) n p (subcomponent_tail m p)"
  unfolding subcomponent_tail_def
  by (intro exec_rules exec_call exec_loops array_dimension_keeps impl_reference_list_keeps parts_keep) (auto dest!: advances_pos)

lemma advances_check_containment: "parser_ok p \<Longrightarrow> advances p (check_containment c p)"
  by (auto simp: check_containment_def advances_refl advances_error split: option.splits)

lemma check_containment_reads: "ps_pos (check_containment c p) = ps_pos p" "current (check_containment c p) = current p"
  by (auto simp: check_containment_def split: option.splits)

text \<open>A subcomponent without a name begins with its category.\<close>

lemma subcomponent_category_exec:
  assumes "Suc l \<le> ps_pos p \<or> l \<le> ps_pos p \<and> is_component_category_kw (current p)"
  shows "exec p0 (Some m) (Suc l) p (Let (check_containment c p) (\<lambda>p. Option.bind (category_node p) (subcomponent_tail m)))"
  unfolding Let_def
  by (rule exec_pure [OF advances_check_containment], assumption, rule exec_bind [OF component_category_keeps [where n = "Suc l"]])
    (use assms in \<open>auto simp: check_containment_reads intro: subcomponent_tail_exec\<close>)

lemma subcomponent_keeps:
  assumes "at p IDENT \<or> is_component_category_kw (current p)"
  shows "keeps (Suc (ps_pos p)) p (subcomponent c p)"
proof (cases "at p IDENT")
  case True
  then show ?thesis unfolding subcomponent_def
    by (intro subcomponent_category_exec exec_rules exec_bump_if exec_call parts_keep) (auto dest!: advances_pos)
next
  case False
  then have cat: "is_component_category_kw (current p)" using assms by simp
  then have no: "\<not> at p COLON" "\<not> at p REFINED_KW" by (auto simp: is_component_category_kw_def at_def)
  show ?thesis unfolding subcomponent_def refined_to_def
    by (intro subcomponent_category_exec exec_rules exec_bump_if exec_expect_case exec_bind_parts)
      (use False cat no in \<open>auto dest!: advances_pos\<close>)
qed

lemma subcomponent_section_keeps: "at p SUBCOMPONENTS_KW \<Longrightarrow> keeps (Suc (ps_pos p)) p (subcomponent_section c p)"
  unfolding subcomponent_section_def by (intro exec_rules exec_section subcomponent_keeps) auto

lemma subprogram_call_keeps: "at p IDENT \<Longrightarrow> keeps (Suc (ps_pos p)) p (subprogram_call p)"
  unfolding subprogram_call_def by (intro exec_rules exec_call parts_keep) (auto dest!: advances_pos)

lemma call_sequence_keeps: "at p IDENT \<Longrightarrow> keeps (Suc (ps_pos p)) p (call_sequence p)"
  unfolding call_sequence_def by (intro exec_rules exec_call exec_loops subprogram_call_keeps parts_keep) (auto dest!: advances_pos)

lemma call_section_keeps: "at p CALLS_KW \<Longrightarrow> keeps (Suc (ps_pos p)) p (call_section p)"
  unfolding call_section_def by (intro exec_rules exec_section call_sequence_keeps) auto

lemma internal_or_processor_feature_keeps: "at p IDENT \<Longrightarrow> keeps (Suc (ps_pos p)) p (internal_or_processor_feature p)"
  unfolding internal_or_processor_feature_def
  by (intro exec_rules exec_call exec_err_and_bump exec_abandon parts_keep)
    ((hypsubst, erule advances_trans [rotated], erule advances_trans [rotated], rule advances_bump, simp, simp)[1]
      | (auto dest!: advances_pos)[1])+

lemma internal_features_section_keeps: "at p INTERNAL_KW \<Longrightarrow> keeps (Suc (ps_pos p)) p (internal_features_section p)"
  unfolding internal_features_section_def
  by (intro exec_rules exec_call exec_loops internal_or_processor_feature_keeps) (auto dest!: advances_pos)

lemma processor_features_section_keeps: "at p PROCESSOR_KW \<Longrightarrow> keeps (Suc (ps_pos p)) p (processor_features_section p)"
  unfolding processor_features_section_def
  by (intro exec_rules exec_call exec_loops internal_or_processor_feature_keeps) (auto dest!: advances_pos)

text \<open>The section loops carry the sections seen so far.\<close>

definition proceeds :: "parser \<Rightarrow> (bool \<times> seen_sections \<times> parser) option \<Rightarrow> bool" where
  "proceeds p X \<longleftrightarrow> (\<exists>go seen q. X = Some (go, seen, q) \<and> advances p q \<and> (go \<longrightarrow> ps_pos p < ps_pos q))"

lemma exec_sections:
  assumes "n \<le> ps_pos p" "\<And>seen q. parser_ok q \<Longrightarrow> proceeds q (body (seen, q))"
  shows "exec p0 None n p (map_option snd (repeat_loop body (seen, p)))"
proof (rule exec_last [where l = "ps_pos p"])
  have "\<exists>s'. repeat_loop body (seen, p) = Some s' \<and> advances p (snd s') \<and> True" if "parser_ok p"
    using repeat_loop_total [of snd "\<lambda>_. True" body "(seen, p)"] assms(2) that by (fastforce simp: proceeds_def)
  then show "keeps (ps_pos p) p (map_option snd (repeat_loop body (seen, p)))"
    by (auto simp: exec_def dest: advances_pos)
qed (use assms in simp)

lemma proceeds_if: "(b \<Longrightarrow> proceeds p X) \<Longrightarrow> (\<not> b \<Longrightarrow> proceeds p Y) \<Longrightarrow> proceeds p (if b then X else Y)"
  by simp

lemma proceeds_section:
  assumes "parser_ok p" "keeps (Suc (ps_pos p)) p X"
  shows "proceeds p (map_option (\<lambda>p. (True, seen, p)) X)"
  using assms by (auto simp: proceeds_def exec_def reached_def advances_refl Suc_le_eq)

lemma proceeds_checked:
  assumes "parser_ok p" "\<And>q. current q = current p \<Longrightarrow> nth_kind q 1 = nth_kind p 1 \<Longrightarrow> keeps (Suc (ps_pos q)) q (f q)"
  shows "proceeds p (checked_section k label f (seen, p))"
proof -
  let ?e = "error (DuplicateSection label) p"
  have a: "advances p ?e" using assms(1) by (rule advances_error)
  have "proceeds p (map_option (\<lambda>p. (True, s, p)) (f p))" for s using assms by (intro proceeds_section) auto
  moreover have "keeps (Suc (ps_pos ?e)) ?e (f ?e)" by (rule assms(2)) simp_all
  then have "proceeds ?e (map_option (\<lambda>p. (True, s, p)) (f ?e))" for s
    by (rule proceeds_section [OF advances_ok [OF assms(1) a]])
  then have "proceeds p (map_option (\<lambda>p. (True, s, p)) (f ?e))" for s
    using advances_trans [OF a] by (fastforce simp: proceeds_def)
  ultimately show ?thesis by (simp add: checked_section_def seen_check_def)
qed

lemma proceeds_stop: "parser_ok p \<Longrightarrow> proceeds p (Some (False, seen, p))"
  by (auto simp: proceeds_def advances_refl intro: exI [of _ False])

lemmas section_keeps = prototype_section_keeps feature_section_keeps flow_spec_section_keeps flow_impl_section_keeps mode_section_keeps
  property_section_keeps subcomponent_section_keeps internal_features_section_keeps processor_features_section_keeps
  connection_section_keeps call_section_keeps

lemma annex_subclause_keeps: "at p ANNEX_KW \<Longrightarrow> keeps (Suc (ps_pos p)) p (annex_subclause p)"
  unfolding annex_subclause_def by (rule annex_block_keeps) simp_all

lemma component_type_sections_keeps: "n \<le> ps_pos p \<Longrightarrow> exec p0 None n p (component_type_sections c p)"
  unfolding component_type_sections_def
  by (intro exec_sections) (auto intro!: proceeds_if proceeds_checked proceeds_section proceeds_stop section_keeps annex_subclause_keeps simp: at_def)

lemma component_impl_sections_keeps: "n \<le> ps_pos p \<Longrightarrow> exec p0 None n p (component_impl_sections c p)"
  unfolding component_impl_sections_def
  by (intro exec_sections) (auto intro!: proceeds_if proceeds_checked proceeds_section proceeds_stop section_keeps annex_subclause_keeps simp: at_def)

lemma extension_keeps: "at p EXTENDS_KW \<Longrightarrow> k \<noteq> TOMBSTONE \<Longrightarrow> keeps (ps_pos p) p (extension k p)"
  unfolding extension_def by (intro exec_rules exec_call parts_keep) (auto dest!: advances_pos)

lemma realization_segments_Some: "parser_ok p \<Longrightarrow> \<exists>ts k. realization_segments p n = Some (ts, k)"
proof (induction p n rule: realization_segments.induct)
  case (1 p n)
  obtain t where t: "nth_text p (n + 1) = Some t" using token_text_Some [OF 1(2)] by blast
  show ?case
  proof (cases "nth_kind p n = COLON_COLON \<and> nth_kind p (n + 1) = IDENT")
    case True
    then obtain ts k where "realization_segments p (n + 2) = Some (ts, k)" using 1(1) [OF True t 1(2)] by blast
    then show ?thesis using True t by (subst realization_segments.simps) simp
  next
    case False
    then show ?thesis by (subst realization_segments.simps) auto
  qed
qed

lemma qualified_realization_error_keeps: "keeps (ps_pos p) p (qualified_realization_error c p)"
proof (rule exec_ok)
  assume ok: "parser_ok p"
  obtain t0 where t0: "nth_text p 0 = Some t0" using token_text_Some [OF ok] by blast
  obtain ts k where t: "realization_segments p 1 = Some (ts, k)" using realization_segments_Some [OF ok] by blast
  obtain imp where "nth_text p (k + 1) = Some imp" using token_text_Some [OF ok] by blast
  with t0 show ?thesis unfolding qualified_realization_error_def by (simp add: t exec_error_last Let_def)
qed

lemma realization_keeps: "keeps (ps_pos p) p (realization p)"
  unfolding realization_def by (intro exec_rules exec_call exec_loops) (auto dest!: advances_pos)

lemma name_or_error_keeps: "keeps (ps_pos p) p (name_or_error msg p)"
  unfolding name_or_error_def by (intro exec_rules) auto

lemma end_name_keeps: "keeps (ps_pos p) p (end_name p)"
  unfolding end_name_def by (intro exec_rules exec_call) (auto dest!: advances_pos)

lemma prototype_binding_list_classifier_keeps: "at p L_PAREN \<Longrightarrow> keeps (ps_pos p) p (prototype_binding_list classifier_node p)"
  by (rule exec_mono [OF prototype_binding_list_keeps [where f = "length (ps_indices p)"]])
    (auto simp: enough_fuel_def intro: classifier_ref_keeps)

lemma exec_let_any: "exec p0 ctx n p (f c) \<Longrightarrow> exec p0 ctx n p (Let (c :: grammar_category option) f)"
  by simp

lemma component_type_keeps: "is_component_category_kw (current p) \<Longrightarrow> keeps (Suc (ps_pos p)) p (component_type p)"
  unfolding component_type_def type_extension_def
  by (intro exec_start exec_let_any exec_bind [OF component_category_keeps [where n = "Suc (ps_pos p)"]] exec_rules exec_call
      name_or_error_keeps extension_keeps component_type_sections_keeps end_name_keeps)
    (auto dest!: advances_pos)

lemma component_impl_keeps: "is_component_category_kw (current p) \<Longrightarrow> keeps (Suc (ps_pos p)) p (component_impl p)"
  unfolding component_impl_def impl_extension_def
  by (intro exec_start exec_let_any exec_bind [OF component_category_keeps [where n = "Suc (ps_pos p)"]] exec_rules exec_call exec_loops
      qualified_realization_error_keeps realization_keeps prototype_binding_list_classifier_keeps
      name_or_error_keeps extension_keeps component_impl_sections_keeps)
    (auto dest!: advances_pos simp: at_def)

lemma classifier_decl_keeps: "is_component_category_kw (current p) \<Longrightarrow> keeps (Suc (ps_pos p)) p (classifier_decl p)"
  unfolding classifier_decl_def by (intro exec_if component_impl_keeps component_type_keeps)

lemma feature_group_type_decl_keeps: "at p FEATURE_KW \<Longrightarrow> keeps (Suc (ps_pos p)) p (feature_group_type_decl p)"
  unfolding feature_group_type_decl_def type_extension_def
  by (intro exec_rules exec_call exec_loops name_or_error_keeps extension_keeps end_name_keeps annex_subclause_keeps classifier_ref_keeps
      prototype_section_keeps [THEN exec_mono] feature_section_keeps [THEN exec_mono] property_section_keeps [THEN exec_mono])
    (auto dest!: advances_pos)

section \<open>The contract of packages and source files\<close>

lemma renames_clause_keeps: "at p IDENT \<Longrightarrow> nth_kind p 1 = RENAMES_KW \<Longrightarrow> keeps (Suc (ps_pos p)) p (renames_clause p)"
  unfolding renames_clause_def
  by (intro exec_rules exec_call_pair component_category_keeps exec_call classifier_ref_keeps name_keeps) (auto dest!: advances_pos)

lemma renames_all_clause_keeps: "at p RENAMES_KW \<Longrightarrow> keeps (Suc (ps_pos p)) p (renames_all_clause p)"
  unfolding renames_all_clause_def
  by (intro exec_rules exec_call exec_loops component_category_keeps classifier_ref_keeps name_keeps) (auto dest!: advances_pos simp: at_def)

lemma section_body_keeps: "keeps (ps_pos p) p (section_body p)"
  unfolding section_body_def annex_library_def with_clause_def
  by (intro exec_repeat_goes goes_rules with_names_keeps renames_all_clause_keeps classifier_decl_keeps feature_group_type_decl_keeps
      exec_rules exec_last [OF feature_group_type_decl_keeps] annex_block_keeps renames_clause_keeps)
    (auto simp: at_def)

lemma public_section_keeps: "at p PUBLIC_KW \<Longrightarrow> keeps (ps_pos p) p (public_section p)"
  unfolding public_section_def by (intro exec_rules exec_call section_body_keeps) (auto dest!: advances_pos)

lemma private_section_keeps: "at p PRIVATE_KW \<Longrightarrow> keeps (ps_pos p) p (private_section p)"
  unfolding private_section_def by (intro exec_rules exec_call section_body_keeps) (auto dest!: advances_pos)

lemma at_IDENT_name [simp]: "at p IDENT \<Longrightarrow> at_name p"
  by (simp add: at_name_def)

lemma package_properties_keeps: "at p PROPERTIES_KW \<Longrightarrow> keeps (ps_pos p) p (package_properties p)"
  unfolding package_properties_def
  by (intro exec_rules exec_call exec_repeat_goes goes_rules property_association_keeps) (auto dest!: advances_pos)

lemma aadl_package_keeps: "at p PACKAGE_KW \<Longrightarrow> keeps (Suc (ps_pos p)) p (aadl_package p)"
  unfolding aadl_package_def
  by (intro exec_rules exec_call name_keeps public_section_keeps private_section_keeps package_properties_keeps) (auto dest!: advances_pos)

text \<open>The loop of \<^verbatim>\<open>source_file\<close> ends only at the end of the file.\<close>

lemma source_unit_goes: "parser_ok p \<Longrightarrow> goes p p (source_unit p)"
  unfolding source_unit_def
  by (intro goes_rules aadl_package_keeps property_set_keeps exec_err_and_bump exec_Some) (auto simp: at_def)

lemma source_unit_stop: "source_unit p = Some (False, q) \<Longrightarrow> current q = EOF \<and> q = p"
  by (auto simp: source_unit_def split: if_splits)

lemma source_file_ok:
  assumes ok: "parser_ok p"
  shows "\<exists>q D. source_file p = Some q \<and> advances p q \<and> ps_pos q = length (ps_indices p)
    \<and> ps_events q = ps_events p @ Start SOURCE_FILE None # D @ [Finish] \<and> nested D"
proof -
  let ?q = "push_event (Start TOMBSTONE None) p" and ?m = "length (ps_events p)"
  let ?body = "\<lambda>p. if \<not> at_end p then source_unit p else Some (False, p)"
  have i: "inside p ?m ?q" by (rule inside_start [OF ok])
  have okq: "parser_ok ?q" by (rule reached_ok [OF ok, of "Some ?m"]) (simp add: reached_def i)
  have "keeps (ps_pos ?q) ?q (repeat_loop ?body ?q)"
    by (intro exec_repeat_goes goes_if source_unit_goes goes_stop exec_Some) auto
  then obtain r where r: "repeat_loop ?body ?q = Some r" "advances ?q r"
    using okq by (auto simp: exec_def reached_def advances_refl)
  have okr: "parser_ok r" by (rule advances_ok [OF okq r(2)])
  obtain t where "?body t = Some (False, r)" using repeat_loop_exit [OF r(1)] by blast
  then have "at_end r" using source_unit_stop [of t r] not_at_end [OF okr] by (auto split: if_splits)
  then have pos: "ps_pos r = length (ps_indices p)" using advances_indices [OF r(2)] okr by (auto simp: at_end_def parser_ok_def push_event_def)
  have "inside p ?m r" by (rule inside_advances [OF i r(2)])
  then obtain q where q: "complete ?m SOURCE_FILE r = Some q" "advances p q" using inside_complete [of p ?m r SOURCE_FILE] by auto
  obtain D where D: "ps_events r = ps_events p @ Start TOMBSTONE None # D" "nested D"
    using r(2) by (auto simp: advances_def push_event_def)
  have "q = r\<lparr>ps_events := ps_events p @ Start SOURCE_FILE None # D @ [Finish]\<rparr>"
    using q(1) D(1) by (simp add: complete_def nth_opt_def push_event_def nth_append list_update_append)
  moreover have "source_file p = Some q" using r(1) q(1) by (simp add: source_file_def start_def)
  ultimately show ?thesis using q(2) pos D(2) by auto
qed

text \<open>C5. The grammar is total: from every state whose tokens can be read, \<^verbatim>\<open>source_file\<close> returns. No assertion of
  \<^verbatim>\<open>bump\<close> or of a marker fails, every loop and every recursion ends, the fuel of classifier references, property
  expressions and property types is never used up. Afterwards all tokens are consumed, and the events added are
  one \<^verbatim>\<open>SOURCE_FILE\<close> node around well-nested events whose tokens are those of the input in their order.\<close>

theorem source_file_total:
  assumes "parser_ok p"
  shows "\<exists>q D. source_file p = Some q \<and> ps_pos q = length (ps_indices p)
    \<and> ps_events q = ps_events p @ Start SOURCE_FILE None # D @ [Finish] \<and> nested D
    \<and> leaf_kinds D = map (kind_at p) [ps_pos p..<length (ps_indices p)]"
proof -
  obtain q D where q: "source_file p = Some q" "advances p q" "ps_pos q = length (ps_indices p)"
    "ps_events q = ps_events p @ Start SOURCE_FILE None # D @ [Finish]" "nested D" using source_file_ok [OF assms] by blast
  have "leaf_kinds D = map (kind_at p) [ps_pos p..<length (ps_indices p)]" using q(2,3,4) by (auto simp: advances_def)
  then show ?thesis using q by blast
qed

text \<open>A property set without a name, an annex bracket left open.\<close>

theorem source_file_total_witness:
  "\<exists>q. source_file (parser_new [(PROPERTY_KW, 8), (WHITESPACE, 1), (SET_KW, 3), (ANNEX_OPEN, 3)] ''property set{**'') = Some q
    \<and> ps_pos q = 3"
proof -
  have "parser_ok (parser_new [(PROPERTY_KW, 8), (WHITESPACE, 1), (SET_KW, 3), (ANNEX_OPEN, 3)] ''property set{**'')"
    by code_simp
  from source_file_total [OF this] show ?thesis by (auto simp: parser_new_def non_trivia_def is_trivia_def upt_rec)
qed

end
