(* ===== verification/Syntax_Tree.thy ===== *)
theory Syntax_Tree
  imports Grammar_Components
begin

text \<open>
  From source text to a syntax tree, \<^verbatim>\<open>crates/spar-syntax/src/parsing.rs\<close>: \<^verbatim>\<open>parse\<close> tokenizes, runs the
  grammar, resolves the forward parents of the events and drives the tree builder of the \<^verbatim>\<open>rowan\<close> package. The
  builder is not part of the sources: the model records the calls it receives, which determine the tree.
  \<open>None\<close> is a panic of the source: \<^verbatim>\<open>unreachable!\<close>, a slice off a character boundary, a negative depth.
\<close>

declare One_nat_def [symmetric, simp del] One_nat_def [simp]

section \<open>Resolving forward parents\<close>

datatype resolved_event =
    StartNode syntax_kind
  | TokenEvent syntax_kind nat
  | FinishNode
  | ErrorNote parse_message

text \<open>\<^verbatim>\<open>while let Some(fwd) = fp\<close>: the kinds of the forward parents from \<open>idx\<close> on; the events visited become
  tombstones.\<close>

lemma starts_update:
  "i < length es \<Longrightarrow> is_start (es ! i) \<Longrightarrow> length (filter is_start (es[i := Tombstone])) < length (filter is_start es)"
  by (induction es arbitrary: i) (auto simp: nth_Cons split: nat.splits)

function follow_chain :: "event list \<Rightarrow> nat \<Rightarrow> nat option \<Rightarrow> (syntax_kind list \<times> event list) option" where
  "follow_chain es idx fp =
     (case fp of
        None \<Rightarrow> Some ([], es)
      | Some fwd \<Rightarrow>
          (case nth_opt es (idx + fwd) of
             Some (Start kind fp) \<Rightarrow> do {
               (kinds, es) \<leftarrow> follow_chain (es[idx + fwd := Tombstone]) (idx + fwd) fp;
               Some (kind # kinds, es) }
           | _ \<Rightarrow> None))"
  by pat_completeness auto
termination
  by (relation "measure (\<lambda>(es, _). length (filter is_start es))") (auto simp: nth_opt_def intro!: starts_update split: if_splits)

declare follow_chain.simps [simp del]

primrec resolve_loop :: "nat list \<Rightarrow> event list \<Rightarrow> resolved_event list option" where
  "resolve_loop [] es = Some []"
| "resolve_loop (i # is) es =
     (let e = es ! i; es = es[i := Tombstone] in
      case e of
        Start kind fp \<Rightarrow> do {
          (kinds, es) \<leftarrow> follow_chain es i fp;
          rest \<leftarrow> resolve_loop is es;
          Some (map StartNode (filter (\<lambda>k. k \<noteq> TOMBSTONE) (rev (kind # kinds))) @ rest) }
      | Finish \<Rightarrow> map_option (Cons FinishNode) (resolve_loop is es)
      | Token kind n \<Rightarrow> map_option (Cons (TokenEvent kind n)) (resolve_loop is es)
      | ErrorEvent msg \<Rightarrow> map_option (Cons (ErrorNote msg)) (resolve_loop is es)
      | Tombstone \<Rightarrow> resolve_loop is es)"

definition resolve_events :: "event list \<Rightarrow> resolved_event list option" where
  "resolve_events es = resolve_loop [0..<length es] es"

section \<open>Building the tree\<close>

datatype builder_call =
    BStart syntax_kind
  | BToken syntax_kind string
  | BFinish

record tree_builder =
  tb_calls :: "builder_call list"
  tb_errors :: "(parse_message \<times> nat) list"
  tb_nt_pos :: nat
  tb_raw_pos :: nat
  tb_depth :: nat

text \<open>The input, its tokens with their starts, and the positions of the tokens that are not trivia.\<close>

record tree_input =
  ti_input :: string
  ti_tokens :: "(syntax_kind \<times> nat) list"
  ti_starts :: "nat list"
  ti_indices :: "nat list"

definition emit :: "builder_call \<Rightarrow> tree_builder \<Rightarrow> tree_builder" where
  "emit c b = b\<lparr>tb_calls := tb_calls b @ [c]\<rparr>"

definition raw_text :: "tree_input \<Rightarrow> nat \<Rightarrow> string option" where
  "raw_text ti i =
     (if i < length (ti_tokens ti)
      then slice (ti_input ti) (ti_starts ti ! i) (ti_starts ti ! i + snd (ti_tokens ti ! i))
      else None)"

text \<open>The loops \<^verbatim>\<open>while raw_pos < target\<close> emit as many tokens as the distance.\<close>

primrec emit_raw :: "tree_input \<Rightarrow> nat \<Rightarrow> tree_builder \<Rightarrow> tree_builder option" where
  "emit_raw ti 0 b = Some b"
| "emit_raw ti (Suc n) b = do {
     t \<leftarrow> raw_text ti (tb_raw_pos b);
     emit_raw ti n ((emit (BToken (fst (ti_tokens ti ! tb_raw_pos b)) t) b)\<lparr>tb_raw_pos := tb_raw_pos b + 1\<rparr>) }"

definition emit_upto :: "tree_input \<Rightarrow> nat \<Rightarrow> tree_builder \<Rightarrow> tree_builder option" where
  "emit_upto ti target b = emit_raw ti (target - tb_raw_pos b) b"

definition eat_trivia :: "tree_input \<Rightarrow> tree_builder \<Rightarrow> tree_builder option" where
  "eat_trivia ti b =
     (if tb_nt_pos b < length (ti_indices ti) then emit_upto ti (ti_indices ti ! tb_nt_pos b) b else Some b)"

primrec emit_tokens :: "tree_input \<Rightarrow> syntax_kind \<Rightarrow> nat \<Rightarrow> tree_builder \<Rightarrow> tree_builder option" where
  "emit_tokens ti kind 0 b = Some b"
| "emit_tokens ti kind (Suc n) b = do {
     b \<leftarrow> (if tb_nt_pos b < length (ti_indices ti)
           then do {
             let target_raw = ti_indices ti ! tb_nt_pos b;
             b \<leftarrow> emit_upto ti target_raw b;
             t \<leftarrow> raw_text ti target_raw;
             Some ((emit (BToken kind t) b)\<lparr>tb_raw_pos := target_raw + 1, tb_nt_pos := tb_nt_pos b + 1\<rparr>) }
           else Some b);
     emit_tokens ti kind n b }"

definition error_offset :: "tree_input \<Rightarrow> tree_builder \<Rightarrow> nat" where
  "error_offset ti b =
     (if tb_nt_pos b < length (ti_indices ti) then ti_starts ti ! (ti_indices ti ! tb_nt_pos b)
      else if ti_tokens ti \<noteq> []
      then (let l = length (ti_tokens ti) - 1 in ti_starts ti ! l + snd (ti_tokens ti ! l))
      else 0)"

fun build_event :: "tree_input \<Rightarrow> resolved_event \<Rightarrow> tree_builder \<Rightarrow> tree_builder option" where
  "build_event ti (StartNode kind) b = do {
     b \<leftarrow> (if tb_depth b > 0 then eat_trivia ti b else Some b);
     let b = b\<lparr>tb_depth := tb_depth b + 1\<rparr>;
     let b = emit (BStart kind) b;
     (if tb_depth b = 1 then eat_trivia ti b else Some b) }"
| "build_event ti (TokenEvent kind n) b = emit_tokens ti kind n b"
| "build_event ti FinishNode b =
     (if tb_depth b = 0 then None
      else do {
        let b = b\<lparr>tb_depth := tb_depth b - 1\<rparr>;
        b \<leftarrow> (if tb_depth b = 0 then emit_upto ti (length (ti_tokens ti)) b else Some b);
        Some (emit BFinish b) })"
| "build_event ti (ErrorNote msg) b = Some (b\<lparr>tb_errors := tb_errors b @ [(msg, error_offset ti b)]\<rparr>)"

primrec build_events :: "tree_input \<Rightarrow> resolved_event list \<Rightarrow> tree_builder \<Rightarrow> tree_builder option" where
  "build_events ti [] b = Some b"
| "build_events ti (e # es) b = Option.bind (build_event ti e b) (build_events ti es)"

definition build_tree :: "string \<Rightarrow> (syntax_kind \<times> nat) list \<Rightarrow> event list \<Rightarrow> (builder_call list \<times> (parse_message \<times> nat) list) option" where
  "build_tree input tokens events = do {
     let ti = \<lparr>ti_input = input, ti_tokens = tokens, ti_starts = starts 0 (map snd tokens), ti_indices = non_trivia tokens\<rparr>;
     resolved \<leftarrow> resolve_events events;
     b \<leftarrow> build_events ti resolved \<lparr>tb_calls = [], tb_errors = [], tb_nt_pos = 0, tb_raw_pos = 0, tb_depth = 0\<rparr>;
     Some (tb_calls b, tb_errors b) }"

text \<open>\<^verbatim>\<open>parse\<close>: the calls of the builder and the errors; \<open>parse_ok\<close> is \<^verbatim>\<open>Parse::ok\<close>.\<close>

definition parse :: "string \<Rightarrow> (builder_call list \<times> (parse_message \<times> nat) list) option" where
  "parse input = do {
     tokens \<leftarrow> tokenize input;
     p \<leftarrow> source_file (parser_new tokens input);
     build_tree input tokens (ps_events p) }"

definition parse_ok :: "string \<Rightarrow> bool" where
  "parse_ok input \<longleftrightarrow> (case parse input of Some (_, errors) \<Rightarrow> errors = [] | None \<Rightarrow> False)"

section \<open>Resolved events are well nested\<close>

text \<open>\<open>h\<close> nodes are open; the outermost one closes at the end.\<close>

fun balanced :: "nat \<Rightarrow> resolved_event list \<Rightarrow> bool" where
  "balanced 0 rs \<longleftrightarrow> rs = []"
| "balanced (Suc h) [] \<longleftrightarrow> False"
| "balanced (Suc h) (StartNode k # rs) \<longleftrightarrow> balanced (Suc (Suc h)) rs"
| "balanced (Suc h) (FinishNode # rs) \<longleftrightarrow> balanced h rs"
| "balanced (Suc h) (r # rs) \<longleftrightarrow> balanced (Suc h) rs"

fun resolved_leaves :: "resolved_event list \<Rightarrow> syntax_kind list" where
  "resolved_leaves [] = []"
| "resolved_leaves (TokenEvent k n # rs) = replicate n k @ resolved_leaves rs"
| "resolved_leaves (r # rs) = resolved_leaves rs"

text \<open>The events from \<open>i\<close> on: their forward parents are starts, pairwise different, and no event points to \<open>u\<close>.\<close>

definition live :: "nat \<Rightarrow> nat option \<Rightarrow> event list \<Rightarrow> bool" where
  "live i u es \<longleftrightarrow>
     (\<forall>t d. i \<le> t \<longrightarrow> t < length es \<longrightarrow> forward (es ! t) = Some d \<longrightarrow>
        0 < d \<and> t + d < length es \<and> is_start (es ! (t + d)) \<and> u \<noteq> Some (t + d))
   \<and> (\<forall>t t' d d'. i \<le> t \<longrightarrow> i \<le> t' \<longrightarrow> t < length es \<longrightarrow> t' < length es \<longrightarrow> forward (es ! t) = Some d \<longrightarrow>
        forward (es ! t') = Some d' \<longrightarrow> t + d = t' + d' \<longrightarrow> t = t')
   \<and> (\<forall>f. Start TOMBSTONE f \<notin> set es)"

lemma live_forwards_ok: "nested D \<Longrightarrow> live 0 None D"
  unfolding live_def nested_def by (auto dest: forwards_okD forwards_ok_inj)

lemma depth_drop_update:
  assumes "u < length es" "is_start (es ! u)"
  shows "depth (drop j (es[u := Tombstone])) = depth (drop j es) - (if j \<le> u then 1 else 0)"
proof (cases "j \<le> u")
  case True
  have "depth (xs[n := Tombstone]) = depth xs - 1" if "n < length xs" "is_start (xs ! n)" for xs :: "event list" and n
    using that by (induction xs arbitrary: n) (auto simp: nth_Cons elim: is_start.elims split: nat.splits)
  from this [of "u - j" "drop j es"] show ?thesis using True assms by (simp add: drop_update_swap)
qed simp

lemma leaf_kinds_update: "u < length es \<Longrightarrow> is_start (es ! u) \<Longrightarrow> leaf_kinds (drop j (es[u := Tombstone])) = leaf_kinds (drop j es)"
proof (cases "j \<le> u")
  case True
  assume u: "u < length es" "is_start (es ! u)"
  have "leaf_kinds (xs[n := Tombstone]) = leaf_kinds xs" if "n < length xs" "is_start (xs ! n)" for xs :: "event list" and n
    using that by (induction xs arbitrary: n) (auto simp: nth_Cons elim: is_start.elims split: nat.splits)
  from this [of "u - j" "drop j es"] show ?thesis using True u by (simp add: drop_update_swap)
qed simp

lemma live_update:
  assumes "live i (Some u) es" "i \<le> u" "u < length es" "es ! u = Start k f"
  shows "live i (map_option ((+) u) f) (es[u := Tombstone])"
  unfolding live_def
proof (intro conjI allI impI)
  note l = assms(1) [unfolded live_def]
  have old: "t \<noteq> u \<and> forward (es ! t) = Some d" if "t < length (es[u := Tombstone])" "forward (es[u := Tombstone] ! t) = Some d" for t d
    using that by (cases "t = u") auto
  show "0 < d" "t + d < length (es[u := Tombstone])" "is_start (es[u := Tombstone] ! (t + d))"
    "map_option ((+) u) f \<noteq> Some (t + d)"
    if t: "i \<le> t" "t < length (es[u := Tombstone])" "forward (es[u := Tombstone] ! t) = Some d" for t d
  proof -
    have o: "t \<noteq> u" "forward (es ! t) = Some d" "t < length es" using old [OF t(2,3)] t(2) by auto
    have tgt: "0 < d" "t + d < length es" "is_start (es ! (t + d))" "t + d \<noteq> u" using l t(1) o by auto
    then show "0 < d" "t + d < length (es[u := Tombstone])" "is_start (es[u := Tombstone] ! (t + d))" by auto
    show "map_option ((+) u) f \<noteq> Some (t + d)"
    proof
      assume "map_option ((+) u) f = Some (t + d)"
      then obtain e where "f = Some e" "u + e = t + d" by auto
      then have "t = u" using l t(1) o assms(2-4) by (metis forward.simps(1))
      then show False using o(1) by simp
    qed
  qed
  show "t = t'" if t: "i \<le> t" "i \<le> t'" "t < length (es[u := Tombstone])" "t' < length (es[u := Tombstone])"
    "forward (es[u := Tombstone] ! t) = Some d" "forward (es[u := Tombstone] ! t') = Some d'" "t + d = t' + d'" for t t' d d'
    using l t old [OF t(3,5)] old [OF t(4,6)] by auto
  show "Start TOMBSTONE g \<notin> set (es[u := Tombstone])" for g
    using l set_update_subset_insert [of es u Tombstone] by auto
qed

lemma live_Suc: "live i u es \<Longrightarrow> live (Suc i) u es"
  unfolding live_def by (elim conjE, intro conjI allI impI) (metis Suc_leD)+

lemma live_skip:
  assumes "live i None es"
  shows "live (Suc i) None (es[i := Tombstone])"
  using live_Suc [OF assms] set_update_subset_insert [of es i Tombstone] by (auto simp: live_def nth_list_update)

lemma live_kind: "live i u es \<Longrightarrow> n < length es \<Longrightarrow> es ! n = Start k f \<Longrightarrow> k \<noteq> TOMBSTONE"
  unfolding live_def by (metis nth_mem)

lemma live_target: "live i v es \<Longrightarrow> i \<le> u \<Longrightarrow> u < length es \<Longrightarrow> es ! u = Start k (Some d) \<Longrightarrow> 0 < d \<and> u + d < length es \<and> is_start (es ! (u + d))"
  by (force simp: live_def)

lemma follow_chain_ok:
  assumes "live i (map_option ((+) idx) fp) es" "\<And>d. fp = Some d \<Longrightarrow> i \<le> idx + d \<and> idx + d < length es \<and> is_start (es ! (idx + d))"
  shows "\<exists>ks es'. follow_chain es idx fp = Some (ks, es') \<and> live i None es' \<and> length es' = length es \<and> TOMBSTONE \<notin> set ks
    \<and> depth (drop i es') = depth (drop i es) - int (length ks) \<and> (\<forall>j. depth (drop j es') \<le> depth (drop j es))
    \<and> leaf_kinds (drop i es') = leaf_kinds (drop i es)"
  using assms
proof (induction es idx fp rule: follow_chain.induct)
  case (1 es idx fp)
  show ?case
  proof (cases fp)
    case None
    then show ?thesis using 1(2) by (simp add: follow_chain.simps)
  next
    case (Some d)
    let ?u = "idx + d" and ?es = "es[idx + d := Tombstone]"
    have u: "i \<le> ?u" "?u < length es" "is_start (es ! ?u)" using 1(3) [OF Some] by auto
    then obtain k f where kf: "es ! ?u = Start k f" by (auto elim: is_start.elims)
    have lv: "live i (Some ?u) es" using 1(2) Some by simp
    have k: "k \<noteq> TOMBSTONE" using live_kind [OF lv u(2) kf] .
    have next_ok: "i \<le> ?u + e \<and> ?u + e < length ?es \<and> is_start (?es ! (?u + e))" if "f = Some e" for e
      using live_target [OF lv u(1,2), of k e] kf that u(1) by auto
    have "nth_opt es ?u = Some (Start k f)" using u(2) kf by (simp add: nth_opt_def)
    note step = 1(1) [OF Some this refl live_update [OF lv u(1,2) kf] next_ok]
    from step obtain ks es' where ih: "follow_chain ?es ?u f = Some (ks, es')" "live i None es'" "length es' = length ?es" "TOMBSTONE \<notin> set ks"
      "depth (drop i es') = depth (drop i ?es) - int (length ks)" "\<forall>j. depth (drop j es') \<le> depth (drop j ?es)"
      "leaf_kinds (drop i es') = leaf_kinds (drop i ?es)" by blast
    have d: "depth (drop j ?es) \<le> depth (drop j es)" for j using depth_drop_update [OF u(2,3), of j] by simp
    have "follow_chain es idx fp = Some (k # ks, es')" using Some u(2) kf ih(1) by (subst follow_chain.simps) (simp add: nth_opt_def)
    moreover have "depth (drop i es') = depth (drop i es) - int (length (k # ks))" using ih(5) depth_drop_update [OF u(2,3), of i] u(1) by simp
    moreover have "\<forall>j. depth (drop j es') \<le> depth (drop j es)" using ih(6) d order_trans by blast
    moreover have "leaf_kinds (drop i es') = leaf_kinds (drop i es)" using ih(7) leaf_kinds_update [OF u(2,3)] by simp
    ultimately show ?thesis using ih(2-4) k by auto
  qed
qed

lemma balanced_starts: "balanced (Suc h + length ks) rs \<Longrightarrow> balanced (Suc h) (map StartNode ks @ rs)"
  by (induction ks arbitrary: h) auto

lemma leaves_append [simp]: "resolved_leaves (map StartNode ks @ rs) = resolved_leaves rs"
  by (induction ks) auto

lemma drop_update_past: "i < j \<Longrightarrow> drop j (xs[i := x]) = drop j xs"
  by simp

lemma resolve_loop_ok:
  assumes "live i None es" "\<And>j. i \<le> j \<Longrightarrow> j < length es \<Longrightarrow> depth (drop j es) \<le> - 1" "int h = - depth (drop i es)" "i \<le> length es"
  shows "\<exists>rs. resolve_loop [i..<length es] es = Some rs \<and> balanced h rs \<and> resolved_leaves rs = leaf_kinds (drop i es)"
  using assms
proof (induction "length es - i" arbitrary: i es h)
  case 0
  then show ?case by auto
next
  case (Suc m)
  then have i: "i < length es" by simp
  let ?es = "es[i := Tombstone]"
  have list: "[i..<length es] = i # [Suc i..<length es]" using i by (simp add: upt_conv_Cons)
  have dr: "drop i es = es ! i # drop (Suc i) es" using i by (simp add: Cons_nth_drop_Suc)
  have h: "0 < h" using Suc.prems(2) [of i] Suc.prems(3) i by simp
  then obtain h' where h': "h = Suc h'" by (cases h) auto
  have past: "drop j ?es = drop j es" if "Suc i \<le> j" for j using that by simp
  have plain: ?case if "shape (es ! i) = s" "\<not> is_start (es ! i)" "s = 0 \<or> s = - 1"
    and "\<And>rs. resolve_loop [i..<length es] es = map_option (\<lambda>rs. r @ rs) (resolve_loop [Suc i..<length es] ?es)"
    and "\<And>rs. balanced (nat (int h + s)) rs \<Longrightarrow> balanced h (r @ rs)" "\<And>rs. resolved_leaves (r @ rs) = leaf_kind (es ! i) @ resolved_leaves rs" for s r
  proof -
    have "live (Suc i) None ?es" by (rule live_skip [OF Suc.prems(1)])
    then have "\<exists>rs. resolve_loop [Suc i..<length ?es] ?es = Some rs \<and> balanced (nat (int h + s)) rs \<and> resolved_leaves rs = leaf_kinds (drop (Suc i) ?es)"
      using Suc.hyps(2) Suc.prems(2,3) i that(1,3) dr h by (intro Suc.hyps(1)) auto
    then show ?thesis using that(4-6) dr by auto
  qed
  show ?case
  proof (cases "es ! i")
    case (Start k f)
    have "live i (Some i) es" using Suc.prems(1) by (fastforce simp: live_def)
    from live_Suc [OF live_update [OF this order_refl i Start]] have lv: "live (Suc i) (map_option ((+) i) f) ?es" .
    have tgt: "Suc i \<le> i + d \<and> i + d < length ?es \<and> is_start (?es ! (i + d))" if "f = Some d" for d
      using live_target [OF Suc.prems(1) order_refl i, of k d] Start that by auto
    have k: "k \<noteq> TOMBSTONE" using live_kind [OF Suc.prems(1) i Start] .
    obtain ks es' where f: "follow_chain ?es i f = Some (ks, es')" "live (Suc i) None es'" "length es' = length es" "TOMBSTONE \<notin> set ks"
      "depth (drop (Suc i) es') = depth (drop (Suc i) es) - int (length ks)" "\<And>j. depth (drop j es') \<le> depth (drop j ?es)"
      "leaf_kinds (drop (Suc i) es') = leaf_kinds (drop (Suc i) es)"
      using follow_chain_ok [OF lv tgt] by auto
    have "depth (drop j es') \<le> - 1" if "Suc i \<le> j" "j < length es'" for j
      using f(6) [of j] past [OF that(1)] Suc.prems(2) [of j] that f(3) by simp
    then have "\<exists>rs. resolve_loop [Suc i..<length es'] es' = Some rs \<and> balanced (h + Suc (length ks)) rs \<and> resolved_leaves rs = leaf_kinds (drop (Suc i) es')"
      using Suc.hyps(2) Suc.prems(3) i f dr Start by (intro Suc.hyps(1)) auto
    then obtain rs where rs: "resolve_loop [Suc i..<length es] es' = Some rs" "balanced (h + Suc (length ks)) rs"
      "resolved_leaves rs = leaf_kinds (drop (Suc i) es)" using f(3,7) by auto
    have kinds: "filter (\<lambda>k. k \<noteq> TOMBSTONE) (rev (k # ks)) = rev (k # ks)" using k f(4) by (intro filter_True) (metis set_rev set_ConsD)
    have "resolve_loop [i..<length es] es = Some (map StartNode (rev (k # ks)) @ rs)"
      unfolding list resolve_loop.simps Let_def Start event.case f(1) Option.bind.simps prod.case rs(1) kinds ..
    moreover have "balanced h (map StartNode (rev (k # ks)) @ rs)" unfolding h' by (rule balanced_starts) (use rs(2) h' in simp)
    moreover have "resolved_leaves (map StartNode (rev (k # ks)) @ rs) = leaf_kinds (drop i es)"
      unfolding leaves_append rs(3) dr Start by simp
    ultimately show ?thesis by blast
  next
    case Finish
    then show ?thesis using h' by (intro plain [of "- 1" "[FinishNode]"]) (auto simp: list nat_add_distrib)
  next
    case (Token k n)
    then show ?thesis using h' by (intro plain [of 0 "[TokenEvent k n]"]) (auto simp: list nat_add_distrib)
  next
    case (ErrorEvent msg)
    then show ?thesis using h' by (intro plain [of 0 "[ErrorNote msg]"]) (auto simp: list nat_add_distrib)
  next
    case Tombstone
    then show ?thesis using h' by (intro plain [of 0 "[]"]) (auto simp: list nat_add_distrib option.map_ident)
  qed
qed

text \<open>The events of a source file resolve to one balanced root.\<close>

lemma resolve_events_ok:
  assumes "nested D"
  shows "\<exists>rs. resolve_events (Start SOURCE_FILE None # D @ [Finish]) = Some (StartNode SOURCE_FILE # rs) \<and> balanced 1 rs
    \<and> resolved_leaves rs = leaf_kinds D"
proof -
  let ?E = "Start SOURCE_FILE None # D @ [Finish]" and ?F = "Tombstone # D @ [Finish]"
  have "live 0 None ?E" by (rule live_forwards_ok [OF nested_node]) (use assms in auto)
  then have "live (Suc 0) None (?E[0 := Tombstone])" by (rule live_skip)
  then have lv: "live (Suc 0) None ?F" by simp
  have suf: "depth (drop m (D @ [Finish])) \<le> - 1" if "m \<le> length D" for m
  proof -
    have "depth (take m D) + depth (drop m D) = 0" using assms by (metis append_take_drop_id depth_simps(3) nested_def)
    moreover have "0 \<le> depth (take m D)" using assms by (simp add: nested_def)
    ultimately show ?thesis using that by simp
  qed
  have "depth (drop j ?F) \<le> - 1" if "Suc 0 \<le> j" "j < length ?F" for j
    using suf [of "j - 1"] that by (cases j) auto
  then have "\<exists>rs. resolve_loop [Suc 0..<length ?F] ?F = Some rs \<and> balanced 1 rs \<and> resolved_leaves rs = leaf_kinds (drop (Suc 0) ?F)"
    using assms by (intro resolve_loop_ok [OF lv]) (auto simp: nested_def)
  then obtain rs where rs: "resolve_loop [Suc 0..<length ?F] ?F = Some rs" "balanced 1 rs" "resolved_leaves rs = leaf_kinds D" by auto
  have "[0..<length ?E] = 0 # [Suc 0..<length ?F]" by (simp add: upt_conv_Cons del: upt_Suc)
  then have "resolve_events ?E = Some (StartNode SOURCE_FILE # rs)"
    using rs(1) by (simp add: resolve_events_def follow_chain.simps del: upt_Suc)
  then show ?thesis using rs(2,3) by blast
qed

section \<open>The calls of the builder\<close>

fun calls_nested :: "nat \<Rightarrow> builder_call list \<Rightarrow> bool" where
  "calls_nested 0 cs \<longleftrightarrow> cs = []"
| "calls_nested (Suc h) [] \<longleftrightarrow> False"
| "calls_nested (Suc h) (BStart k # cs) \<longleftrightarrow> calls_nested (Suc (Suc h)) cs"
| "calls_nested (Suc h) (BFinish # cs) \<longleftrightarrow> calls_nested h cs"
| "calls_nested (Suc h) (BToken k t # cs) \<longleftrightarrow> calls_nested (Suc h) cs"

fun call_tokens :: "builder_call list \<Rightarrow> (syntax_kind \<times> string) list" where
  "call_tokens [] = []"
| "call_tokens (BToken k t # cs) = (k, t) # call_tokens cs"
| "call_tokens (c # cs) = call_tokens cs"

abbreviation leaves :: "(syntax_kind \<times> string) list \<Rightarrow> builder_call list" where
  "leaves ts \<equiv> map (\<lambda>(k, t). BToken k t) ts"

lemma call_tokens_leaves [simp]: "call_tokens (leaves ts @ cs) = ts @ call_tokens cs"
  by (induction ts) auto

lemma calls_nested_leaves [simp]: "calls_nested (Suc h) (leaves ts @ cs) = calls_nested (Suc h) cs"
  by (induction ts) auto

text \<open>What \<open>build_tree\<close> computes from the tokens \<open>toks\<close> of the lexer.\<close>

definition input_of :: "string \<Rightarrow> (syntax_kind \<times> string) list \<Rightarrow> tree_input" where
  "input_of s toks =
     (let tokens = map (\<lambda>(k, t). (k, length t)) toks in
      \<lparr>ti_input = s, ti_tokens = tokens, ti_starts = starts 0 (map snd tokens), ti_indices = non_trivia tokens\<rparr>)"

definition readable :: "tree_input \<Rightarrow> (syntax_kind \<times> string) list \<Rightarrow> bool" where
  "readable ti toks \<longleftrightarrow> length (ti_tokens ti) = length toks
     \<and> (\<forall>i < length toks. fst (ti_tokens ti ! i) = fst (toks ! i) \<and> raw_text ti i = Some (snd (toks ! i)))
     \<and> sorted_wrt (<) (ti_indices ti) \<and> (\<forall>i \<in> set (ti_indices ti). i < length toks)"

lemma emit_raw_ok:
  assumes "readable ti toks"
  shows "tb_raw_pos b + n \<le> length toks \<Longrightarrow>
    emit_raw ti n b = Some (b\<lparr>tb_calls := tb_calls b @ leaves (take n (drop (tb_raw_pos b) toks)), tb_raw_pos := tb_raw_pos b + n\<rparr>)"
proof (induction n arbitrary: b)
  case (Suc n)
  let ?r = "tb_raw_pos b"
  have r: "?r < length toks" using Suc.prems by simp
  then have "drop ?r toks = toks ! ?r # drop (Suc ?r) toks" by (simp add: Cons_nth_drop_Suc)
  then show ?case using Suc assms r by (cases "toks ! ?r") (simp add: readable_def emit_def)
qed simp

text \<open>\<open>raw\<close> tokens are emitted, none of the tokens from \<open>nt\<close> on among them.\<close>

definition pending :: "tree_input \<Rightarrow> (syntax_kind \<times> string) list \<Rightarrow> tree_builder \<Rightarrow> bool" where
  "pending ti toks b \<longleftrightarrow> tb_raw_pos b \<le> length toks \<and> tb_nt_pos b \<le> length (ti_indices ti)
     \<and> (tb_nt_pos b < length (ti_indices ti) \<longrightarrow> tb_raw_pos b \<le> ti_indices ti ! tb_nt_pos b)"

text \<open>From \<open>b\<close> to \<open>b'\<close> only tokens are emitted.\<close>

definition emits :: "(syntax_kind \<times> string) list \<Rightarrow> tree_builder \<Rightarrow> tree_builder \<Rightarrow> bool" where
  "emits toks b b' \<longleftrightarrow> tb_raw_pos b \<le> tb_raw_pos b' \<and> tb_depth b' = tb_depth b
     \<and> tb_calls b' = tb_calls b @ leaves (take (tb_raw_pos b' - tb_raw_pos b) (drop (tb_raw_pos b) toks))"

lemma emits_refl: "emits toks b b"
  by (simp add: emits_def)

lemma take_drop_add: "i \<le> j \<Longrightarrow> j \<le> k \<Longrightarrow> take (j - i) (drop i xs) @ take (k - j) (drop j xs) = take (k - i) (drop i xs)"
  using take_add [of "j - i" "k - j" "drop i xs"] by simp

lemma emits_trans: "emits toks a b \<Longrightarrow> emits toks b c \<Longrightarrow> emits toks a c"
  using take_drop_add [of "tb_raw_pos a" "tb_raw_pos b" "tb_raw_pos c" toks] by (auto simp: emits_def simp flip: map_append)

lemma emit_upto_ok:
  assumes "readable ti toks" "tb_raw_pos b \<le> target" "target \<le> length toks"
  shows "\<exists>b'. emit_upto ti target b = Some b' \<and> emits toks b b' \<and> tb_raw_pos b' = target \<and> tb_nt_pos b' = tb_nt_pos b"
  using emit_raw_ok [OF assms(1), of b "target - tb_raw_pos b"] assms(2,3) by (simp add: emit_upto_def emits_def)

lemma index_bound: "readable ti toks \<Longrightarrow> i < length (ti_indices ti) \<Longrightarrow> ti_indices ti ! i < length toks"
  by (simp add: readable_def)

lemma eat_trivia_ok:
  assumes "readable ti toks" "pending ti toks b"
  shows "\<exists>b'. eat_trivia ti b = Some b' \<and> emits toks b b' \<and> pending ti toks b' \<and> tb_nt_pos b' = tb_nt_pos b"
proof (cases "tb_nt_pos b < length (ti_indices ti)")
  case True
  then show ?thesis using emit_upto_ok [OF assms(1), of b "ti_indices ti ! tb_nt_pos b"] index_bound [OF assms(1) True] assms(2)
    by (auto simp: eat_trivia_def pending_def)
qed (use assms in \<open>auto simp: eat_trivia_def emits_refl\<close>)

lemma emit_tokens_ok:
  assumes "readable ti toks"
  shows "pending ti toks b \<Longrightarrow> replicate n k @ ks = map (\<lambda>i. fst (toks ! i)) (drop (tb_nt_pos b) (ti_indices ti)) \<Longrightarrow>
    \<exists>b'. emit_tokens ti k n b = Some b' \<and> emits toks b b' \<and> pending ti toks b'
      \<and> ks = map (\<lambda>i. fst (toks ! i)) (drop (tb_nt_pos b') (ti_indices ti))"
proof (induction n arbitrary: b)
  case 0
  then show ?case by (auto simp: emits_refl)
next
  case (Suc n)
  let ?nt = "tb_nt_pos b" and ?I = "ti_indices ti"
  have nt: "?nt < length ?I" using Suc.prems(2) by (cases "?nt < length ?I") auto
  let ?t = "?I ! ?nt"
  have dr: "drop ?nt ?I = ?t # drop (Suc ?nt) ?I" using nt by (simp add: Cons_nth_drop_Suc)
  have k: "fst (toks ! ?t) = k" "replicate n k @ ks = map (\<lambda>i. fst (toks ! i)) (drop (Suc ?nt) ?I)" using Suc.prems(2) dr by auto
  have t: "?t < length toks" by (rule index_bound [OF assms nt])
  obtain c where c: "emit_upto ti ?t b = Some c" "emits toks b c" "tb_raw_pos c = ?t" "tb_nt_pos c = ?nt"
    using emit_upto_ok [OF assms, of b ?t] Suc.prems(1) nt t by (auto simp: pending_def)
  define d where "d = (emit (BToken k (snd (toks ! ?t))) c)\<lparr>tb_raw_pos := ?t + 1, tb_nt_pos := tb_nt_pos c + 1\<rparr>"
  have "take 1 (drop ?t toks) = [toks ! ?t]" using t by (simp add: take_Suc_conv_app_nth hd_drop_conv_nth take_Suc drop_Suc)
  then have e: "emits toks c d" using c(3) k(1) by (cases "toks ! ?t") (auto simp: emits_def d_def emit_def)
  have "?I ! ?nt < ?I ! Suc ?nt" if "Suc ?nt < length ?I" using assms that by (simp add: readable_def sorted_wrt_iff_nth_less)
  then have p: "pending ti toks d" using t nt c(4) by (auto simp: pending_def d_def Suc_le_eq)
  have "raw_text ti ?t = Some (snd (toks ! ?t))" using assms t by (simp add: readable_def)
  then have "emit_tokens ti k (Suc n) b = emit_tokens ti k n d" using nt c(1) by (simp add: d_def Let_def)
  moreover obtain b' where "emit_tokens ti k n d = Some b'" "emits toks d b'" "pending ti toks b'"
    "ks = map (\<lambda>i. fst (toks ! i)) (drop (tb_nt_pos b') ?I)"
    using Suc.IH [OF p] k(2) c(4) by (auto simp: d_def)
  ultimately show ?case using emits_trans [OF c(2) emits_trans [OF e]] by auto
qed

text \<open>What is still to come: the calls close the open nodes and carry the tokens not yet emitted.\<close>

definition finishes :: "(syntax_kind \<times> string) list \<Rightarrow> tree_builder \<Rightarrow> tree_builder \<Rightarrow> bool" where
  "finishes toks b b' \<longleftrightarrow> (\<exists>new. tb_calls b' = tb_calls b @ new \<and> calls_nested (tb_depth b) new
     \<and> (0 < tb_depth b \<longrightarrow> call_tokens new = drop (tb_raw_pos b) toks))"

lemma finishes_emits:
  assumes "emits toks a b" "finishes toks b c" "0 < tb_depth a"
  shows "finishes toks a c"
proof -
  obtain new where new: "tb_calls c = tb_calls b @ new" "calls_nested (tb_depth a) new" "call_tokens new = drop (tb_raw_pos b) toks"
    using assms by (auto simp: finishes_def emits_def)
  obtain h where h: "tb_depth a = Suc h" using assms(3) by (cases "tb_depth a") auto
  let ?ts = "take (tb_raw_pos b - tb_raw_pos a) (drop (tb_raw_pos a) toks)"
  have "?ts @ drop (tb_raw_pos b) toks = drop (tb_raw_pos a) toks"
    using assms(1) append_take_drop_id [of "tb_raw_pos b - tb_raw_pos a" "drop (tb_raw_pos a) toks"] by (simp add: emits_def)
  then show ?thesis using assms(1) new h
    by (intro finishes_def [THEN iffD2] exI [of _ "leaves ?ts @ new"]) (auto simp: emits_def)
qed

lemma finishes_start:
  assumes "tb_calls b = tb_calls a @ [BStart k]" "tb_depth b = Suc (tb_depth a)" "tb_raw_pos b = tb_raw_pos a" "finishes toks b c" "0 < tb_depth a"
  shows "finishes toks a c"
proof -
  obtain h where h: "tb_depth a = Suc h" using assms(5) by (cases "tb_depth a") auto
  obtain new where "tb_calls c = tb_calls b @ new" "calls_nested (tb_depth b) new" "call_tokens new = drop (tb_raw_pos b) toks"
    using assms by (auto simp: finishes_def)
  then show ?thesis using assms h by (intro finishes_def [THEN iffD2] exI [of _ "BStart k # new"]) auto
qed

lemma finishes_finish:
  assumes "tb_calls b = tb_calls a @ [BFinish]" "tb_depth a = Suc (tb_depth b)" "tb_raw_pos b = tb_raw_pos a" "finishes toks b c"
    "tb_depth b = 0 \<Longrightarrow> tb_raw_pos a = length toks"
  shows "finishes toks a c"
proof -
  obtain new where new: "tb_calls c = tb_calls b @ new" "calls_nested (tb_depth b) new" "0 < tb_depth b \<longrightarrow> call_tokens new = drop (tb_raw_pos b) toks"
    using assms(4) by (auto simp: finishes_def)
  then have "call_tokens new = drop (tb_raw_pos a) toks" using assms(3,5) by (cases "tb_depth b") auto
  then show ?thesis using assms(1,2) new by (intro finishes_def [THEN iffD2] exI [of _ "BFinish # new"]) auto
qed

lemma build_start_ok:
  assumes "readable ti toks" "pending ti toks b" "0 < tb_depth b"
  shows "\<exists>c d. build_event ti (StartNode k) b = Some d \<and> emits toks b c \<and> pending ti toks d \<and> tb_nt_pos d = tb_nt_pos b
    \<and> tb_calls d = tb_calls c @ [BStart k] \<and> tb_depth d = Suc (tb_depth c) \<and> tb_raw_pos d = tb_raw_pos c"
proof -
  obtain c where c: "eat_trivia ti b = Some c" "emits toks b c" "pending ti toks c" "tb_nt_pos c = tb_nt_pos b"
    using eat_trivia_ok [OF assms(1,2)] by blast
  have "tb_depth c = tb_depth b" using c(2) by (simp add: emits_def)
  then show ?thesis using c assms(3)
    by (intro exI [of _ c] exI [of _ "emit (BStart k) (c\<lparr>tb_depth := Suc (tb_depth c)\<rparr>)"]) (auto simp: emit_def pending_def Let_def)
qed

lemma build_events_ok:
  assumes "readable ti toks"
  shows "pending ti toks b \<Longrightarrow> balanced (tb_depth b) rs \<Longrightarrow>
    resolved_leaves rs = map (\<lambda>i. fst (toks ! i)) (drop (tb_nt_pos b) (ti_indices ti)) \<Longrightarrow>
    \<exists>b'. build_events ti rs b = Some b' \<and> finishes toks b b'"
proof (induction rs arbitrary: b)
  case Nil
  then have "tb_depth b = 0" by (cases "tb_depth b") auto
  then show ?case by (auto simp: finishes_def)
next
  case (Cons e rs)
  then obtain h where h: "tb_depth b = Suc h" by (cases "tb_depth b") auto
  show ?case
  proof (cases e)
    case (StartNode k)
    obtain c d where d: "build_event ti e b = Some d" "emits toks b c" "pending ti toks d" "tb_nt_pos d = tb_nt_pos b"
      "tb_calls d = tb_calls c @ [BStart k]" "tb_depth d = Suc (tb_depth c)" "tb_raw_pos d = tb_raw_pos c"
      using build_start_ok [OF assms Cons.prems(1), of k] h StartNode by auto
    have dep: "tb_depth c = Suc h" using d(2) h by (simp add: emits_def)
    then obtain b' where b': "build_events ti rs d = Some b'" "finishes toks d b'"
      using Cons.IH [OF d(3)] Cons.prems(2,3) StartNode h d(4,6) by auto
    have "finishes toks b b'"
      using finishes_emits [OF d(2) finishes_start [OF d(5,6,7) b'(2)]] dep h by simp
    then show ?thesis using d(1) b'(1) by auto
  next
    case (TokenEvent k n)
    obtain c where c: "build_event ti e b = Some c" "emits toks b c" "pending ti toks c"
      "resolved_leaves rs = map (\<lambda>i. fst (toks ! i)) (drop (tb_nt_pos c) (ti_indices ti))"
      using emit_tokens_ok [OF assms Cons.prems(1), of n k "resolved_leaves rs"] Cons.prems(3) TokenEvent by auto
    have "tb_depth c = Suc h" using c(2) h by (simp add: emits_def)
    then obtain b' where "build_events ti rs c = Some b'" "finishes toks c b'"
      using Cons.IH [OF c(3)] Cons.prems(2) TokenEvent h c(4) by auto
    then show ?thesis using c(1) finishes_emits [OF c(2)] h by auto
  next
    case FinishNode
    define c where "c = b\<lparr>tb_depth := h\<rparr>"
    have c: "pending ti toks c" "tb_depth c = h" "tb_nt_pos c = tb_nt_pos b" "tb_raw_pos c = tb_raw_pos b" "tb_calls c = tb_calls b"
      using Cons.prems(1) by (auto simp: c_def pending_def)
    have "\<exists>d. (if h = 0 then emit_upto ti (length (ti_tokens ti)) c else Some c) = Some d \<and> emits toks c d \<and> tb_nt_pos d = tb_nt_pos b
        \<and> pending ti toks d \<and> (h = 0 \<longrightarrow> tb_raw_pos d = length toks)"
    proof (cases "h = 0")
      case True
      then have "drop (tb_nt_pos b) (ti_indices ti) = []" using Cons.prems(2,3) h FinishNode by simp
      then show ?thesis using emit_upto_ok [OF assms, of c "length toks"] c Cons.prems(1) assms True
        by (auto simp: pending_def readable_def)
    qed (use c in \<open>auto simp: emits_refl\<close>)
    then obtain d where d: "(if h = 0 then emit_upto ti (length (ti_tokens ti)) c else Some c) = Some d" "emits toks c d"
      "tb_nt_pos d = tb_nt_pos b" "pending ti toks d" "h = 0 \<longrightarrow> tb_raw_pos d = length toks" by blast
    have dep: "tb_depth d = h" using d(2) c(2) by (simp add: emits_def)
    let ?e = "emit BFinish d"
    have ev: "build_event ti e b = Some ?e" using d(1) h FinishNode by (cases h) (auto simp: c_def Let_def)
    have e: "pending ti toks ?e" "tb_depth ?e = h" "tb_nt_pos ?e = tb_nt_pos b" using d(3,4) dep by (auto simp: emit_def pending_def)
    then obtain b' where b': "build_events ti rs ?e = Some b'" "finishes toks ?e b'"
      using Cons.IH [OF e(1)] Cons.prems(2,3) FinishNode h by auto
    have "finishes toks (d\<lparr>tb_depth := Suc h\<rparr>) b'"
      by (rule finishes_finish [OF _ _ _ b'(2)]) (use dep d(5) in \<open>auto simp: emit_def\<close>)
    moreover have "emits toks b (d\<lparr>tb_depth := Suc h\<rparr>)" using d(2) c h by (auto simp: emits_def)
    ultimately have "finishes toks b b'" using finishes_emits h by simp
    then show ?thesis using ev b'(1) by auto
  next
    case (ErrorNote msg)
    let ?c = "b\<lparr>tb_errors := tb_errors b @ [(msg, error_offset ti b)]\<rparr>"
    have c: "pending ti toks ?c" "emits toks b ?c" using Cons.prems(1) by (auto simp: pending_def emits_def)
    then obtain b' where "build_events ti rs ?c = Some b'" "finishes toks ?c b'"
      using Cons.IH [OF c(1)] Cons.prems(2,3) ErrorNote h by auto
    then show ?thesis using finishes_emits [OF c(2)] h ErrorNote by auto
  qed
qed

section \<open>Parsing loses nothing\<close>

lemma tokenize_texts:
  assumes "utf8 s"
  obtains toks where "lex s = Some toks" "concat (map snd toks) = s" "\<forall>t \<in> set toks. token_ok t"
    "tokenize s = Some (map (\<lambda>(k, t). (k, length t)) toks)"
    "\<And>i. i < length toks \<Longrightarrow> slice s (starts 0 (map (\<lambda>(k, t). length t) toks) ! i)
       (starts 0 (map (\<lambda>(k, t). length t) toks) ! i + length (snd (toks ! i))) = Some (snd (toks ! i))"
proof -
  obtain toks where t: "lex_from s 0 = Some toks" "concat (map snd toks) = s" "list_all token_ok toks"
    "tokenize_from s 0 = Some (map (\<lambda>(k, t). (k, length t)) toks)"
    using lex_from_ok [OF assms boundary_0] by auto
  let ?ts = "map snd toks"
  have ok: "\<forall>t \<in> set ?ts. t \<noteq> [] \<and> utf8 t" using t(3) by (auto simp: list_all_iff token_ok_def)
  have "slice s (starts 0 (map (\<lambda>(k, t). length t) toks) ! i)
     (starts 0 (map (\<lambda>(k, t). length t) toks) ! i + length (snd (toks ! i))) = Some (snd (toks ! i))" if i: "i < length toks" for i
  proof -
    have "starts 0 (map (\<lambda>(k, t). length t) toks) ! i = length (concat (take i ?ts))"
      using i by (simp add: starts_nth take_map length_concat comp_def case_prod_unfold)
    moreover have "length (concat (take (Suc i) ?ts)) = length (concat (take i ?ts)) + length (snd (toks ! i))"
      using i by (simp add: take_Suc_conv_app_nth)
    ultimately show ?thesis using token_slice [OF t(2) [symmetric] ok, of i] i by simp
  qed
  then show thesis using t that by (auto simp: lex_def tokenize_def list_all_iff)
qed

lemma non_trivia_bounds: "sorted_wrt (<) (non_trivia tokens)" "i \<in> set (non_trivia tokens) \<Longrightarrow> i < length tokens"
  by (auto simp: non_trivia_def sorted_wrt_filter)

lemma parse_builds:
  assumes "utf8 s"
  shows "\<exists>toks calls errors. lex s = Some toks \<and> parse s = Some (BStart SOURCE_FILE # calls, errors) \<and> calls_nested 1 calls
    \<and> call_tokens calls = toks \<and> concat (map snd (call_tokens calls)) = s"
proof -
  obtain toks where toks: "lex s = Some toks" "concat (map snd toks) = s" "\<forall>t \<in> set toks. token_ok t"
    "tokenize s = Some (map (\<lambda>(k, t). (k, length t)) toks)"
    "\<And>i. i < length toks \<Longrightarrow> slice s (starts 0 (map (\<lambda>(k, t). length t) toks) ! i)
       (starts 0 (map (\<lambda>(k, t). length t) toks) ! i + length (snd (toks ! i))) = Some (snd (toks ! i))"
    by (rule tokenize_texts [OF assms]) blast
  let ?tokens = "map (\<lambda>(k, t). (k, length t)) toks" and ?ti = "input_of s toks"
  let ?p = "parser_new ?tokens s"
  have st: "map (snd \<circ> (\<lambda>(k, t). (k, length t))) toks = map (\<lambda>(k, t). length t) toks" by auto
  have fs: "fst (?tokens ! i) = fst (toks ! i)" "snd (?tokens ! i) = length (snd (toks ! i))" if "i < length toks" for i
    using that by (simp_all add: case_prod_beta)
  have ti: "ti_indices ?ti = non_trivia ?tokens" by (simp add: input_of_def Let_def)
  have rd: "readable ?ti toks" unfolding readable_def
    using non_trivia_bounds(1) [of ?tokens] non_trivia_bounds(2) [of _ ?tokens] toks(5) fs by (auto simp: input_of_def Let_def raw_text_def st)
  have ok: "parser_ok ?p" unfolding parser_ok_def
  proof (intro conjI allI impI)
    fix i assume "i < length (ps_indices ?p)"
    then have t: "ps_indices ?p ! i < length toks" using non_trivia_bounds(2) [of "ps_indices ?p ! i" ?tokens] by (simp add: parser_new_def)
    then have "token_ok (toks ! (ps_indices ?p ! i))" using toks(3) by simp
    then show "kind_at ?p i \<noteq> EOF" using fs(1) [OF t] by (auto simp: kind_at_def parser_new_def token_ok_def)
    show "token_text ?p i \<noteq> None" using toks(5) [OF t] fs(2) [OF t] by (simp add: token_text_def parser_new_def st Let_def)
  qed (simp add: parser_new_def)
  obtain q D where q: "source_file ?p = Some q" "advances ?p q" "ps_pos q = length (ps_indices ?p)"
    "ps_events q = ps_events ?p @ Start SOURCE_FILE None # D @ [Finish]" "nested D" using source_file_ok [OF ok] by blast
  have ev: "ps_events q = Start SOURCE_FILE None # D @ [Finish]" using q(4) by (simp add: parser_new_def)
  have "leaf_kinds D = map (kind_at ?p) [0..<length (ps_indices ?p)]"
    using q(2,3) ev by (auto simp: advances_def parser_new_def)
  also have "\<dots> = map (\<lambda>i. fst (toks ! i)) (ti_indices ?ti)"
    using fs(1) non_trivia_bounds(2) [of _ ?tokens]
    by (intro nth_equalityI) (auto simp: kind_at_def parser_new_def ti)
  finally have lk: "leaf_kinds D = map (\<lambda>i. fst (toks ! i)) (ti_indices ?ti)" .
  obtain rs where rs: "resolve_events (ps_events q) = Some (StartNode SOURCE_FILE # rs)" "balanced 1 rs" "resolved_leaves rs = leaf_kinds D"
    using resolve_events_ok [OF q(5)] ev by auto
  let ?b = "\<lparr>tb_calls = [BStart SOURCE_FILE], tb_errors = [], tb_nt_pos = 0, tb_raw_pos = 0, tb_depth = 1\<rparr>"
  obtain c where c: "eat_trivia ?ti ?b = Some c" "emits toks ?b c" "pending ?ti toks c" "tb_nt_pos c = 0"
    using eat_trivia_ok [OF rd, of ?b] by (auto simp: pending_def)
  have "tb_depth c = 1" using c(2) by (simp add: emits_def)
  then obtain b' where b': "build_events ?ti rs c = Some b'" "finishes toks c b'"
    using build_events_ok [OF rd c(3), of rs] rs(2,3) lk c(4) by auto
  have "finishes toks ?b b'" by (rule finishes_emits [OF c(2) b'(2)]) simp
  then obtain new where new: "tb_calls b' = BStart SOURCE_FILE # new" "calls_nested 1 new" "call_tokens new = toks" by (auto simp: finishes_def)
  have "build_tree s ?tokens (ps_events q) = Some (tb_calls b', tb_errors b')"
    using rs(1) c(1) b'(1) by (simp add: build_tree_def input_of_def Let_def emit_def)
  then have "parse s = Some (BStart SOURCE_FILE # new, tb_errors b')" using toks(4) q(1) new(1) by (simp add: parse_def)
  then show ?thesis using toks(1,2) new(2,3) by blast
qed

text \<open>C4. Parsing is total and lossless: on every valid string \<^verbatim>\<open>parse\<close> returns, whatever the errors. The calls it
  makes to the tree builder open one \<^verbatim>\<open>SOURCE_FILE\<close> root, are well nested below it and close it with the last
  call, and their tokens are exactly the tokens of the lexer, trivia included, in order: the texts of the
  leaves put together are the input.\<close>

theorem parse_lossless:
  assumes "utf8 s"
  shows "\<exists>toks calls errors. lex s = Some toks \<and> parse s = Some (BStart SOURCE_FILE # calls, errors) \<and> calls_nested 1 calls
    \<and> call_tokens calls = toks \<and> concat (map snd (call_tokens calls)) = s"
  using assms by (rule parse_builds)

text \<open>A range of signed values, whose operands get their parents late, in a text with a comment before it.\<close>

theorem parse_lossless_witness:
  "\<exists>calls errors. parse ''--c
property set p is x: constant aadlinteger => -1 + 2 .. 3; end p;'' = Some (BStart SOURCE_FILE # calls, errors)
    \<and> calls_nested 1 calls
    \<and> concat (map snd (call_tokens calls)) = ''--c
property set p is x: constant aadlinteger => -1 + 2 .. 3; end p;''"
proof -
  have "utf8 ''--c
property set p is x: constant aadlinteger => -1 + 2 .. 3; end p;''" by code_simp
  from parse_lossless [OF this] show ?thesis by blast
qed

text \<open>A \<^verbatim>\<open>features\<close> section takes the \<^verbatim>\<open>requires\<close> of a following \<^verbatim>\<open>requires modes\<close> for a feature.\<close>

theorem requires_modes_alone:
  "parse_ok ''package p public system s requires modes m: mode; end s; end p;''"
  by code_simp

theorem requires_modes_after_features:
  "\<not> parse_ok ''package p public system s features requires modes m: mode; end s; end p;''"
  by code_simp

end
