(* ===== verification/Curves.thy ===== *)
theory Curves
  imports Spar_Prelude "HOL-Library.Product_Lexorder"
begin

text \<open>
  The network-calculus kernel, \<^verbatim>\<open>crates/spar-network/src/curves.rs\<close>: leaky-bucket arrival
  curves, rate-latency service curves, the four closed-form operators on them and the
  piecewise-affine (multi-bucket) arrival curves of the submodule \<^verbatim>\<open>piecewise\<close>.

  Sizes are bytes, rates bits per second, times picoseconds, all \<^verbatim>\<open>u64\<close>; the products are
  computed in \<^verbatim>\<open>u128\<close> and narrowed with saturation. The \<^verbatim>\<open>expect\<close> calls of the piecewise
  operators are the value \<open>None\<close>.

  The locale \<open>bucket_envelope\<close> is the interface the bound operators rely on: a family of curves
  whose readout never exceeds any of its leaky buckets. The soundness of delay, backlog, output
  and residual bounds is proved once there and interpreted for both kinds of curve.
\<close>

section \<open>Unit conversion\<close>

definition PS_PER_SECOND :: u64 where
  "PS_PER_SECOND = 1000000000000"

definition BITS_PER_BYTE :: u64 where
  "BITS_PER_BYTE = 8"

definition bits_to_bytes_in_window :: "u64 \<Rightarrow> u64 \<Rightarrow> u64" where
  "bits_to_bytes_in_window rate_bps t_ps =
     (let product = rate_bps * t_ps;
          denom = BITS_PER_BYTE * PS_PER_SECOND;
          bytes = product div denom
      in if bytes > u64_max then u64_max else bytes)"

definition time_to_send_ps :: "u64 \<Rightarrow> u64 \<Rightarrow> u64" where
  "time_to_send_ps bytes rate_bps =
     (if rate_bps = 0 then u64_max
      else let numer = bytes * BITS_PER_BYTE * PS_PER_SECOND;
               ps = div_ceil numer rate_bps
           in if ps > u64_max then u64_max else ps)"

text \<open>Bits times picoseconds in a byte-second: the denominator of every readout.\<close>

abbreviation (input) byte_ps :: nat where
  "byte_ps \<equiv> BITS_PER_BYTE * PS_PER_SECOND"

lemma byte_ps_pos [simp]: "0 < BITS_PER_BYTE" "0 < PS_PER_SECOND"
  by (simp_all add: BITS_PER_BYTE_def PS_PER_SECOND_def)

lemma bits_to_bytes_min: "bits_to_bytes_in_window r t = min ((r * t) div byte_ps) u64_max"
  by (simp add: bits_to_bytes_in_window_def Let_def min_def)

lemma bits_to_bytes_range [u64_range]: "bits_to_bytes_in_window r t \<le> u64_max"
  by (simp add: bits_to_bytes_min)

lemma bits_to_bytes_mono [nc_mono]:
  "r \<le> r' \<Longrightarrow> t \<le> t' \<Longrightarrow> bits_to_bytes_in_window r t \<le> bits_to_bytes_in_window r' t'"
  unfolding bits_to_bytes_min by (intro min.mono div_le_mono mult_le_mono) auto

lemma bits_to_bytes_0 [simp]: "bits_to_bytes_in_window 0 t = 0" "bits_to_bytes_in_window r 0 = 0"
  by (simp_all add: bits_to_bytes_min)

lemma time_to_send_range [u64_range]: "time_to_send_ps b r \<le> u64_max"
  by (simp add: time_to_send_ps_def Let_def)

lemma time_to_send_min:
  "0 < r \<Longrightarrow> time_to_send_ps b r = min (div_ceil (b * BITS_PER_BYTE * PS_PER_SECOND) r) u64_max"
  by (simp add: time_to_send_ps_def Let_def min_def)

lemma time_to_send_mono [nc_mono]: "b \<le> b' \<Longrightarrow> time_to_send_ps b r \<le> time_to_send_ps b' r"
proof (cases "r = 0")
  case False
  assume "b \<le> b'"
  then have "div_ceil (b * BITS_PER_BYTE * PS_PER_SECOND) r
      \<le> div_ceil (b' * BITS_PER_BYTE * PS_PER_SECOND) r"
    using False by (intro div_ceil_mono) auto
  with False show ?thesis by (simp add: time_to_send_min min.coboundedI1)
qed (simp add: time_to_send_ps_def)

lemma time_to_send_antimono: "r \<le> r' \<Longrightarrow> 0 < r \<Longrightarrow> time_to_send_ps b r' \<le> time_to_send_ps b r"
  using div_ceil_antimono [of r r' "b * BITS_PER_BYTE * PS_PER_SECOND"]
  by (auto simp: time_to_send_ps_def Let_def)

text \<open>A duration that did not saturate is long enough to send the bytes.\<close>

lemma time_to_send_enough: "time_to_send_ps b r < u64_max \<Longrightarrow> b * byte_ps \<le> time_to_send_ps b r * r"
  using div_ceil_ge [of r "b * BITS_PER_BYTE * PS_PER_SECOND"]
  by (auto simp: time_to_send_ps_def Let_def mult.assoc split: if_splits)

text \<open>The products fit the 128-bit intermediates of the source.\<close>

lemma readout_fits_u128: "r \<le> u64_max \<Longrightarrow> t \<le> u64_max \<Longrightarrow> r * t < 2 ^ 128"
proof -
  assume "r \<le> u64_max" "t \<le> u64_max"
  then have "r * t \<le> u64_max * u64_max" by (rule mult_le_mono)
  then show ?thesis by (simp add: u64_max_def)
qed

lemma send_fits_u128: "b \<le> u64_max \<Longrightarrow> b * BITS_PER_BYTE * PS_PER_SECOND < 2 ^ 128"
  by (simp add: BITS_PER_BYTE_def PS_PER_SECOND_def u64_max_def)


section \<open>Arrival and service curves\<close>

record arrival_curve =
  burst_bytes :: u64
  sustained_rate_bps :: u64
  peak_rate_bps :: "u64 option"

definition affine :: "u64 \<Rightarrow> u64 \<Rightarrow> arrival_curve" where
  "affine b r = \<lparr>burst_bytes = b, sustained_rate_bps = r, peak_rate_bps = None\<rparr>"

definition with_peak :: "u64 \<Rightarrow> u64 \<Rightarrow> u64 \<Rightarrow> arrival_curve" where
  "with_peak b r p = \<lparr>burst_bytes = b, sustained_rate_bps = r, peak_rate_bps = Some p\<rparr>"

definition arrival_at :: "arrival_curve \<Rightarrow> u64 \<Rightarrow> u64" where
  "arrival_at \<alpha> t_ps =
     (if t_ps = 0 then 0
      else let sustained = sat_add (burst_bytes \<alpha>)
                             (bits_to_bytes_in_window (sustained_rate_bps \<alpha>) t_ps)
           in case peak_rate_bps \<alpha> of
                Some peak \<Rightarrow> min sustained (bits_to_bytes_in_window peak t_ps)
              | None \<Rightarrow> sustained)"

record service_curve =
  rate_bps :: u64
  latency_ps :: u64

definition rate_latency :: "u64 \<Rightarrow> u64 \<Rightarrow> service_curve" where
  "rate_latency r l = \<lparr>rate_bps = r, latency_ps = l\<rparr>"

definition service_at :: "service_curve \<Rightarrow> u64 \<Rightarrow> u64" where
  "service_at \<beta> t_ps =
     (if t_ps \<le> latency_ps \<beta> then 0
      else let delta = t_ps - latency_ps \<beta> in bits_to_bytes_in_window (rate_bps \<beta>) delta)"

datatype nc_error = UnstableServer | UnservableFlow

lemma affine_sel [simp]:
  "burst_bytes (affine b r) = b" "sustained_rate_bps (affine b r) = r"
  "peak_rate_bps (affine b r) = None"
  by (simp_all add: affine_def)

lemma with_peak_sel [simp]:
  "burst_bytes (with_peak b r p) = b" "sustained_rate_bps (with_peak b r p) = r"
  "peak_rate_bps (with_peak b r p) = Some p"
  by (simp_all add: with_peak_def)

lemma rate_latency_sel [simp]:
  "rate_bps (rate_latency r l) = r" "latency_ps (rate_latency r l) = l"
  by (simp_all add: rate_latency_def)

lemma arrival_at_0 [simp]: "arrival_at \<alpha> 0 = 0"
  by (simp add: arrival_at_def)

lemma arrival_at_range [u64_range]: "arrival_at \<alpha> t \<le> u64_max"
  by (auto simp: arrival_at_def Let_def u64_range intro: min.coboundedI1 split: option.split)

lemma arrival_at_mono [nc_mono]: "t \<le> t' \<Longrightarrow> arrival_at \<alpha> t \<le> arrival_at \<alpha> t'"
  by (auto simp: arrival_at_def Let_def split: option.split
      intro: min.coboundedI1 min.coboundedI2 sat_add_mono bits_to_bytes_mono)

lemma service_at_range [u64_range]: "service_at \<beta> t \<le> u64_max"
  by (simp add: service_at_def Let_def u64_range)

lemma service_at_mono [nc_mono]: "t \<le> t' \<Longrightarrow> service_at \<beta> t \<le> service_at \<beta> t'"
  by (auto simp: service_at_def Let_def intro: bits_to_bytes_mono)

lemma service_at_curve_mono:
  "rate_bps \<beta> \<le> rate_bps \<beta>' \<Longrightarrow> latency_ps \<beta>' \<le> latency_ps \<beta> \<Longrightarrow> service_at \<beta> t \<le> service_at \<beta>' t"
  by (auto simp: service_at_def Let_def intro: bits_to_bytes_mono)


section \<open>Bounds and composition\<close>

definition backlog_bound :: "arrival_curve \<Rightarrow> service_curve \<Rightarrow> nc_error + u64" where
  "backlog_bound \<alpha> \<beta> =
     (if sustained_rate_bps \<alpha> > rate_bps \<beta> then Inl UnstableServer
      else let inflation = bits_to_bytes_in_window (sustained_rate_bps \<alpha>) (latency_ps \<beta>)
           in Inr (sat_add (burst_bytes \<alpha>) inflation))"

definition delay_bound :: "arrival_curve \<Rightarrow> service_curve \<Rightarrow> nc_error + u64" where
  "delay_bound \<alpha> \<beta> =
     (if sustained_rate_bps \<alpha> > rate_bps \<beta> then Inl UnstableServer
      else if rate_bps \<beta> = 0 then Inl UnstableServer
      else let burst_drain_ps = time_to_send_ps (burst_bytes \<alpha>) (rate_bps \<beta>)
           in Inr (sat_add (latency_ps \<beta>) burst_drain_ps))"


definition output_bound :: "arrival_curve \<Rightarrow> service_curve \<Rightarrow> nc_error + arrival_curve" where
  "output_bound \<alpha> \<beta> =
     (if sustained_rate_bps \<alpha> > rate_bps \<beta> then Inl UnstableServer
      else let inflation = bits_to_bytes_in_window (sustained_rate_bps \<alpha>) (latency_ps \<beta>)
           in Inr \<lparr>burst_bytes = sat_add (burst_bytes \<alpha>) inflation,
                   sustained_rate_bps = sustained_rate_bps \<alpha>,
                   peak_rate_bps = peak_rate_bps \<alpha>\<rparr>)"


section \<open>Piecewise-affine arrival curves\<close>

record pwa_curve =
  buckets :: "(u64 \<times> u64) list"

datatype pwa_error = EmptyBuckets

definition pwa_new :: "(u64 \<times> u64) list \<Rightarrow> pwa_error + pwa_curve" where
  "pwa_new bs = (if bs = [] then Inl EmptyBuckets
                 else Inr \<lparr>buckets = remdups_adj (sort bs)\<rparr>)"

definition pwa_at :: "pwa_curve \<Rightarrow> u64 \<Rightarrow> u64 option" where
  "pwa_at c t_ps =
     (if t_ps = 0 then Some 0
      else iter_min (map (\<lambda>(sigma, rho). sat_add sigma (bits_to_bytes_in_window rho t_ps)) (buckets c)))"

definition pwa_sustained_rate_bps :: "pwa_curve \<Rightarrow> u64 option" where
  "pwa_sustained_rate_bps c = iter_min (map (\<lambda>(_, rho). rho) (buckets c))"

definition pwa_max_sustained_rate_bps :: "pwa_curve \<Rightarrow> u64 option" where
  "pwa_max_sustained_rate_bps c = iter_max (map (\<lambda>(_, rho). rho) (buckets c))"

definition pwa_max_burst_bytes :: "pwa_curve \<Rightarrow> u64 option" where
  "pwa_max_burst_bytes c = iter_max (map (\<lambda>(sigma, _). sigma) (buckets c))"

definition pwa_from_arrival :: "arrival_curve \<Rightarrow> pwa_curve option" where
  "pwa_from_arrival \<alpha> =
     (let bs = [(burst_bytes \<alpha>, sustained_rate_bps \<alpha>)]
               @ (case peak_rate_bps \<alpha> of Some peak \<Rightarrow> [(0, peak)] | None \<Rightarrow> [])
      in case pwa_new bs of Inr c \<Rightarrow> Some c | Inl _ \<Rightarrow> None)"

definition pwa_backlog_bound :: "pwa_curve \<Rightarrow> service_curve \<Rightarrow> (nc_error + u64) option" where
  "pwa_backlog_bound \<alpha> \<beta> =
     (if \<exists>(_, rho) \<in> set (buckets \<alpha>). rho > rate_bps \<beta> then Some (Inl UnstableServer)
      else map_option Inr (iter_min
             (map (\<lambda>(sigma, rho). sat_add sigma (bits_to_bytes_in_window rho (latency_ps \<beta>)))
               (buckets \<alpha>))))"

definition pwa_delay_bound :: "pwa_curve \<Rightarrow> service_curve \<Rightarrow> (nc_error + u64) option" where
  "pwa_delay_bound \<alpha> \<beta> =
     (if rate_bps \<beta> = 0 then Some (Inl UnstableServer)
      else if \<exists>(_, rho) \<in> set (buckets \<alpha>). rho > rate_bps \<beta> then Some (Inl UnstableServer)
      else map_option Inr (iter_min
             (map (\<lambda>(sigma, _). sat_add (latency_ps \<beta>) (time_to_send_ps sigma (rate_bps \<beta>)))
               (buckets \<alpha>))))"

definition pwa_output_bound :: "pwa_curve \<Rightarrow> service_curve \<Rightarrow> (nc_error + pwa_curve) option" where
  "pwa_output_bound \<alpha> \<beta> =
     (if \<exists>(_, rho) \<in> set (buckets \<alpha>). rho > rate_bps \<beta> then Some (Inl UnstableServer)
      else let new_buckets = map (\<lambda>(sigma, rho).
                 (sat_add sigma (bits_to_bytes_in_window rho (latency_ps \<beta>)), rho)) (buckets \<alpha>)
           in case pwa_new new_buckets of Inr c \<Rightarrow> Some (Inr c) | Inl _ \<Rightarrow> None)"

definition pwa_residual_service :: "service_curve \<Rightarrow> pwa_curve \<Rightarrow> (nc_error + service_curve) option" where
  "pwa_residual_service \<beta> \<alpha>c = do {
     max_rho \<leftarrow> pwa_max_sustained_rate_bps \<alpha>c;
     (if max_rho \<ge> rate_bps \<beta> then Some (Inl UnservableFlow)
      else let residual_rate = rate_bps \<beta> - max_rho
           in do {
             extra_latency \<leftarrow> iter_max (map (\<lambda>(sigma, _). time_to_send_ps sigma residual_rate)
                                          (buckets \<alpha>c));
             Some (Inr \<lparr>rate_bps = residual_rate,
                        latency_ps = sat_add (latency_ps \<beta>) extra_latency\<rparr>)
           })
   }"


section \<open>What the operators promise: the leaky-bucket envelope interface\<close>

text \<open>The arithmetic of one bucket \<open>(\<sigma>, \<rho>)\<close> against one rate-latency server.\<close>

lemma bucket_drained:
  assumes "\<rho> \<le> rate_bps \<beta>" and D: "D = sat_add (latency_ps \<beta>) (time_to_send_ps \<sigma> (rate_bps \<beta>))"
    and "0 < t" and "t + D \<le> u64_max"
  shows "sat_add \<sigma> (bits_to_bytes_in_window \<rho> t) \<le> service_at \<beta> (t + D)"
proof -
  define e where "e = time_to_send_ps \<sigma> (rate_bps \<beta>)"
  from assms have "D < u64_max" by simp
  then have De: "D = latency_ps \<beta> + e"
    using D sat_add_less_max by (simp add: e_def)
  with \<open>D < u64_max\<close> have "\<sigma> * byte_ps \<le> e * rate_bps \<beta>"
    unfolding e_def by (intro time_to_send_enough) simp
  then have "\<sigma> + (\<rho> * t) div byte_ps \<le> (e * rate_bps \<beta> + \<rho> * t) div byte_ps"
    by (intro div_add_multiple) auto
  also have "\<dots> \<le> (rate_bps \<beta> * (t + e)) div byte_ps"
    using assms(1) by (intro div_le_mono) (simp add: algebra_simps)
  finally have "\<sigma> + (\<rho> * t) div byte_ps \<le> (rate_bps \<beta> * (t + e)) div byte_ps" .
  then have "sat_add \<sigma> (bits_to_bytes_in_window \<rho> t) \<le> bits_to_bytes_in_window (rate_bps \<beta>) (t + e)"
    by (auto simp: sat_add_min bits_to_bytes_min)
  with \<open>0 < t\<close> De show ?thesis by (simp add: service_at_def Let_def add.commute)
qed

lemma bucket_split:
  assumes "\<rho> \<le> r"
  shows "(\<rho> * (a + b)) div byte_ps \<le> (\<rho> * a) div byte_ps + (r * b) div byte_ps + 1"
proof -
  have "(\<rho> * (a + b)) div byte_ps \<le> (\<rho> * a) div byte_ps + (\<rho> * b) div byte_ps + 1"
    unfolding add_mult_distrib2 by (rule div_subadd) simp
  also have "(\<rho> * b) div byte_ps \<le> (r * b) div byte_ps"
    using assms by (intro div_le_mono) simp
  finally show ?thesis by simp
qed

lemma bucket_backlog:
  assumes "\<rho> \<le> rate_bps \<beta>"
  shows "sat_add \<sigma> (bits_to_bytes_in_window \<rho> t)
      \<le> service_at \<beta> t + sat_add \<sigma> (bits_to_bytes_in_window \<rho> (latency_ps \<beta>)) + 1"
proof (cases "t \<le> latency_ps \<beta>")
  case True
  then have "sat_add \<sigma> (bits_to_bytes_in_window \<rho> t)
      \<le> sat_add \<sigma> (bits_to_bytes_in_window \<rho> (latency_ps \<beta>))"
    by (intro sat_add_mono bits_to_bytes_mono) auto
  then show ?thesis by simp
next
  case False
  then obtain s where s: "t = latency_ps \<beta> + s" and "0 < s"
    by (metis less_imp_add_positive not_le)
  have "(\<rho> * t) div byte_ps
      \<le> (\<rho> * latency_ps \<beta>) div byte_ps + (rate_bps \<beta> * s) div byte_ps + 1"
    unfolding s using assms by (rule bucket_split)
  moreover have "service_at \<beta> t = bits_to_bytes_in_window (rate_bps \<beta>) s"
    using s \<open>0 < s\<close> by (simp add: service_at_def)
  ultimately show ?thesis
    by (auto simp: sat_add_min bits_to_bytes_min)
qed

lemma bucket_output:
  assumes "\<rho> \<le> rate_bps \<beta>"
  shows "sat_add \<sigma> (bits_to_bytes_in_window \<rho> (t + u))
      \<le> service_at \<beta> u
        + sat_add (sat_add \<sigma> (bits_to_bytes_in_window \<rho> (latency_ps \<beta>))) (bits_to_bytes_in_window \<rho> t) + 2"
proof -
  define T where "T = latency_ps \<beta>"
  have split: "(\<rho> * (t + T)) div byte_ps \<le> (\<rho> * t) div byte_ps + (\<rho> * T) div byte_ps + 1"
    by (rule bucket_split) simp
  show ?thesis
  proof (cases "u \<le> T")
    case True
    then have "sat_add \<sigma> (bits_to_bytes_in_window \<rho> (t + u))
        \<le> sat_add \<sigma> (bits_to_bytes_in_window \<rho> (t + T))"
      by (intro sat_add_mono bits_to_bytes_mono) auto
    with split show ?thesis
      unfolding T_def [symmetric] by (auto simp: sat_add_min bits_to_bytes_min)
  next
    case False
    then obtain s where s: "u = T + s" and "0 < s"
      by (metis less_imp_add_positive not_le)
    have "(\<rho> * (t + u)) div byte_ps
        \<le> (\<rho> * (t + T)) div byte_ps + (rate_bps \<beta> * s) div byte_ps + 1"
      unfolding s add.assoc [symmetric] using assms by (rule bucket_split)
    moreover have "service_at \<beta> u = bits_to_bytes_in_window (rate_bps \<beta>) s"
      using s \<open>0 < s\<close> by (simp add: service_at_def T_def)
    ultimately show ?thesis
      using split unfolding T_def [symmetric] by (auto simp: sat_add_min bits_to_bytes_min)
  qed
qed

lemma bucket_residual:
  assumes rate: "\<rho> + r' \<le> rate_bps \<beta>"
    and lat: "time_to_send_ps \<sigma> r' \<le> e" and l': "l' = sat_add (latency_ps \<beta>) e"
    and t: "l' < t" "t \<le> u64_max"
  shows "service_at \<lparr>rate_bps = r', latency_ps = l'\<rparr> t + (\<sigma> + (\<rho> * (t - latency_ps \<beta>)) div byte_ps)
      \<le> (rate_bps \<beta> * (t - latency_ps \<beta>)) div byte_ps"
proof -
  define s where "s = t - latency_ps \<beta>"
  from t have "l' < u64_max" by simp
  then have l'e: "l' = latency_ps \<beta> + e" using l' sat_add_less_max by simp
  then have "time_to_send_ps \<sigma> r' < u64_max" using lat \<open>l' < u64_max\<close> by simp
  then have "\<sigma> * byte_ps \<le> time_to_send_ps \<sigma> r' * r'" by (rule time_to_send_enough)
  also have "\<dots> \<le> e * r'" using lat by simp
  finally have burst: "\<sigma> * byte_ps \<le> e * r'" .
  from t l'e have es: "e < s" and st: "t - l' = s - e" by (auto simp: s_def)
  have "(r' * (s - e)) div byte_ps + (\<sigma> + (\<rho> * s) div byte_ps)
      \<le> (r' * (s - e)) div byte_ps + (e * r' + \<rho> * s) div byte_ps"
    using burst by (intro add_left_mono div_add_multiple) auto
  also have "\<dots> \<le> (r' * (s - e) + (e * r' + \<rho> * s)) div byte_ps"
    by (rule div_superadd)
  also have "r' * (s - e) + (e * r' + \<rho> * s) = (\<rho> + r') * s"
    using es by (simp add: algebra_simps flip: add_mult_distrib2)
  also have "((\<rho> + r') * s) div byte_ps \<le> (rate_bps \<beta> * s) div byte_ps"
    using rate by (intro div_le_mono mult_le_mono1)
  finally have "(r' * (s - e)) div byte_ps + (\<sigma> + (\<rho> * s) div byte_ps)
      \<le> (rate_bps \<beta> * s) div byte_ps" .
  then show ?thesis
    using t st by (simp add: service_at_def Let_def bits_to_bytes_min s_def)
qed

text \<open>
  The interface: \<open>readout c t y\<close> says that reading curve \<open>c\<close> at \<open>t\<close> gives \<open>y\<close>, and
  \<open>buckets_of c\<close> is the family of leaky buckets each of which bounds the curve.
\<close>

locale bucket_envelope =
  fixes readout :: "'c \<Rightarrow> u64 \<Rightarrow> u64 \<Rightarrow> bool"
    and buckets_of :: "'c \<Rightarrow> (u64 \<times> u64) set"
  assumes readout_0: "readout c 0 y \<Longrightarrow> y = 0"
    and readout_le: "readout c t y \<Longrightarrow> (\<sigma>, \<rho>) \<in> buckets_of c \<Longrightarrow>
          y \<le> sat_add \<sigma> (bits_to_bytes_in_window \<rho> t)"
begin

lemma delay_sound:
  assumes "(\<sigma>, \<rho>) \<in> buckets_of c" "\<rho> \<le> rate_bps \<beta>"
    and "D = sat_add (latency_ps \<beta>) (time_to_send_ps \<sigma> (rate_bps \<beta>))" "t + D \<le> u64_max"
    and r: "readout c t y"
  shows "y \<le> service_at \<beta> (t + D)"
proof (cases "t = 0")
  case True
  with r have "y = 0" using readout_0 by simp
  then show ?thesis by simp
next
  case False
  with assms have "sat_add \<sigma> (bits_to_bytes_in_window \<rho> t) \<le> service_at \<beta> (t + D)"
    by (intro bucket_drained) auto
  with readout_le [OF r assms(1)] show ?thesis by simp
qed

lemma backlog_sound:
  assumes "(\<sigma>, \<rho>) \<in> buckets_of c" "\<rho> \<le> rate_bps \<beta>" "readout c t y"
  shows "y \<le> service_at \<beta> t + sat_add \<sigma> (bits_to_bytes_in_window \<rho> (latency_ps \<beta>)) + 1"
  using readout_le [OF assms(3,1)] bucket_backlog [OF assms(2), of \<sigma> t] by simp

lemma output_sound:
  assumes "(\<sigma>, \<rho>) \<in> buckets_of c" "\<rho> \<le> rate_bps \<beta>" "readout c (t + u) y"
  shows "y \<le> service_at \<beta> u
    + sat_add (sat_add \<sigma> (bits_to_bytes_in_window \<rho> (latency_ps \<beta>))) (bits_to_bytes_in_window \<rho> t) + 2"
  using readout_le [OF assms(3,1)] bucket_output [OF assms(2), of \<sigma> t u] by simp

lemma residual_sound:
  assumes "(\<sigma>, \<rho>) \<in> buckets_of c" "\<rho> + r' \<le> rate_bps \<beta>"
    and "time_to_send_ps \<sigma> r' \<le> e" "\<beta>' = \<lparr>rate_bps = r', latency_ps = sat_add (latency_ps \<beta>) e\<rparr>"
    and "0 < service_at \<beta>' t" "t \<le> u64_max" "readout c (t - latency_ps \<beta>) y"
  shows "service_at \<beta>' t + y \<le> (rate_bps \<beta> * (t - latency_ps \<beta>)) div byte_ps"
proof -
  have "sat_add (latency_ps \<beta>) e < t"
    using assms(4,5) by (simp add: service_at_def split: if_splits)
  from bucket_residual [OF assms(2,3) refl this assms(6)] assms(4)
  have "service_at \<beta>' t + (\<sigma> + (\<rho> * (t - latency_ps \<beta>)) div byte_ps)
      \<le> (rate_bps \<beta> * (t - latency_ps \<beta>)) div byte_ps" by simp
  moreover have "y \<le> \<sigma> + (\<rho> * (t - latency_ps \<beta>)) div byte_ps"
    using readout_le [OF assms(7,1)] by (auto simp: sat_add_min bits_to_bytes_min)
  ultimately show ?thesis by linarith
qed

end

text \<open>The single-bucket curve is bounded by its sustained bucket and, with a peak rate, by
  \<open>(0, p)\<close>.\<close>

definition arrival_buckets :: "arrival_curve \<Rightarrow> (u64 \<times> u64) set" where
  "arrival_buckets \<alpha> = insert (burst_bytes \<alpha>, sustained_rate_bps \<alpha>)
     (case peak_rate_bps \<alpha> of Some p \<Rightarrow> {(0, p)} | None \<Rightarrow> {})"

interpretation arr: bucket_envelope "\<lambda>\<alpha> t y. arrival_at \<alpha> t = y" arrival_buckets
proof unfold_locales
  fix \<alpha> t y \<sigma> \<rho>
  assume y: "arrival_at \<alpha> t = y" and b: "(\<sigma>, \<rho>) \<in> arrival_buckets \<alpha>"
  show "y \<le> sat_add \<sigma> (bits_to_bytes_in_window \<rho> t)"
  proof (cases "t = 0")
    case True
    with y show ?thesis by simp
  next
    case False
    with y b show ?thesis
      by (auto simp: arrival_at_def arrival_buckets_def Let_def u64_range split: option.splits)
  qed
qed simp

lemma arrival_sustained_bucket: "(burst_bytes \<alpha>, sustained_rate_bps \<alpha>) \<in> arrival_buckets \<alpha>"
  by (simp add: arrival_buckets_def)

interpretation pwa: bucket_envelope "\<lambda>c t y. pwa_at c t = Some y" "\<lambda>c. set (buckets c)"
proof unfold_locales
  fix c t y \<sigma> \<rho>
  assume y: "pwa_at c t = Some y" and b: "(\<sigma>, \<rho>) \<in> set (buckets c)"
  show "y \<le> sat_add \<sigma> (bits_to_bytes_in_window \<rho> t)"
    using y b by (auto simp: pwa_at_def iter_min_eq_Some split: if_splits)
qed (simp add: pwa_at_def)


section \<open>Properties of the single-bucket operators\<close>

lemma delay_bound_drains:
  assumes "delay_bound \<alpha> \<beta> = Inr D" and "t + D \<le> u64_max"
  shows "arrival_at \<alpha> t \<le> service_at \<beta> (t + D)"
  using assms
  by (intro arr.delay_sound [OF arrival_sustained_bucket _ _ _ refl])
    (auto simp: delay_bound_def Let_def split: if_splits)

text \<open>C1. The delay bound is the horizontal distance it claims to be: whatever has arrived by
  \<open>t\<close> has been served by \<open>t + D\<close>, for every readout the 64-bit time line can express, rounding
  and saturation included.\<close>

theorem delay_bound_sound:
  assumes "delay_bound \<alpha> \<beta> = Inr D" and "t + D \<le> u64_max"
  shows "arrival_at \<alpha> t \<le> service_at \<beta> (t + D)"
  using assms by (rule delay_bound_drains)

theorem delay_bound_sound_witness:
  "arrival_at (affine 1500 100000000) 5000000
     \<le> service_at (rate_latency 1000000000 10000000) (5000000 + 22000000)"
  by (rule delay_bound_sound)
    (simp_all add: delay_bound_def time_to_send_ps_def div_ceil_def sat_add_def u64_max_def
      BITS_PER_BYTE_def PS_PER_SECOND_def)

text \<open>The backlog \<open>\<alpha>(t) - \<beta>(t)\<close> exceeds the reported bound by at most one byte, and there is
  a server at which it does exceed it: the two readouts are rounded down separately, so the closed
  form \<open>\<sigma> + \<lfloor>\<rho>T\<rfloor>\<close> can miss the supremum by one.\<close>

theorem backlog_bound_within_one_byte:
  "(\<forall>\<alpha> \<beta> B t. backlog_bound \<alpha> \<beta> = Inr B \<longrightarrow> arrival_at \<alpha> t \<le> service_at \<beta> t + B + 1)
   \<and> (\<exists>\<alpha> \<beta> B t. backlog_bound \<alpha> \<beta> = Inr B \<and> arrival_at \<alpha> t = service_at \<beta> t + B + 1)"
proof (intro conjI allI impI)
  fix \<alpha> \<beta> B t
  assume "backlog_bound \<alpha> \<beta> = Inr B"
  then show "arrival_at \<alpha> t \<le> service_at \<beta> t + B + 1"
    using arr.backlog_sound [OF arrival_sustained_bucket, of \<alpha> \<beta> t]
    by (auto simp: backlog_bound_def Let_def split: if_splits)
next
  have "backlog_bound (affine 1500 1000000000) (rate_latency 1000000000 4000) = Inr 1500
      \<and> arrival_at (affine 1500 1000000000) 8000
          = service_at (rate_latency 1000000000 4000) 8000 + 1500 + 1"
    by (simp add: backlog_bound_def arrival_at_def service_at_def bits_to_bytes_in_window_def
        sat_add_def u64_max_def BITS_PER_BYTE_def PS_PER_SECOND_def)
  then show "\<exists>\<alpha> \<beta> B t. backlog_bound \<alpha> \<beta> = Inr B \<and> arrival_at \<alpha> t = service_at \<beta> t + B + 1"
    by blast
qed

theorem backlog_bound_within_one_byte_witness:
  "arrival_at (affine 1500 100000000) 5000000
     \<le> service_at (rate_latency 1000000000 10000000) 5000000 + 1625 + 1"
proof -
  have "backlog_bound (affine 1500 100000000) (rate_latency 1000000000 10000000) = Inr 1625"
    by (simp add: backlog_bound_def bits_to_bytes_in_window_def sat_add_def u64_max_def
        BITS_PER_BYTE_def PS_PER_SECOND_def)
  then show ?thesis
    using backlog_bound_within_one_byte by blast
qed



text \<open>The departure curve of a flow without a peak rate bounds the departures: the bytes that
  arrive in a window of length \<open>t + u\<close>, less what the server must have delivered in its first \<open>u\<close>,
  exceed the output curve at \<open>t\<close> by at most the two bytes lost in rounding.\<close>

theorem output_bound_sound:
  assumes "output_bound \<alpha> \<beta> = Inr \<alpha>'" and "peak_rate_bps \<alpha> = None" and "0 < t"
  shows "arrival_at \<alpha> (t + u) \<le> service_at \<beta> u + arrival_at \<alpha>' t + 2"
  using assms arr.output_sound [OF arrival_sustained_bucket, of \<alpha> \<beta> t u]
  by (auto simp: output_bound_def arrival_at_def Let_def split: if_splits)

theorem output_bound_sound_witness:
  "arrival_at (affine 1500 100000000) (1000000 + 10000000)
     \<le> service_at (rate_latency 1000000000 10000000) 10000000 + arrival_at (affine 1625 100000000) 1000000 + 2"
  by (rule output_bound_sound)
    (simp_all add: output_bound_def bits_to_bytes_in_window_def sat_add_def u64_max_def affine_def
      BITS_PER_BYTE_def PS_PER_SECOND_def)

text \<open>A peak rate does not survive a server, although the operator keeps it: through a server
  with 10 microseconds latency, a flow limited to 1 Gbit/s can release in one microsecond a
  whole packet more than the returned curve allows.\<close>

theorem output_bound_peak_not_preserved:
  "\<exists>\<alpha> \<beta> \<alpha>' t u. output_bound \<alpha> \<beta> = Inr \<alpha>' \<and> peak_rate_bps \<alpha>' = Some 1000000000
     \<and> service_at \<beta> u + arrival_at \<alpha>' t + 1250 = arrival_at \<alpha> (t + u)"
proof (intro exI conjI)
  show "output_bound (with_peak 1500 100000000 1000000000) (rate_latency 1000000000 10000000)
      = Inr (with_peak 1625 100000000 1000000000)"
    by (simp add: output_bound_def bits_to_bytes_in_window_def sat_add_def u64_max_def with_peak_def
        BITS_PER_BYTE_def PS_PER_SECOND_def)
  show "service_at (rate_latency 1000000000 10000000) 10000000
      + arrival_at (with_peak 1625 100000000 1000000000) 1000000 + 1250
      = arrival_at (with_peak 1500 100000000 1000000000) (1000000 + 10000000)"
    by (simp add: service_at_def arrival_at_def bits_to_bytes_in_window_def sat_add_def u64_max_def
        BITS_PER_BYTE_def PS_PER_SECOND_def)
qed simp


section \<open>Properties of the piecewise-affine curves\<close>

lemma strictly_sorted_remdups_adj:
  "sorted xs \<Longrightarrow> sorted_wrt (<) (remdups_adj (xs :: 'a::linorder list))"
proof (induction xs rule: remdups_adj.induct)
  case (3 x y xs)
  then show ?case by (auto simp: less_le)
qed simp_all

lemma remdups_adj_sort: "remdups_adj (sort bs) = sorted_list_of_set (set (bs :: 'a::linorder list))"
proof -
  have "sorted_wrt (<) (remdups_adj (sort bs))"
    by (simp add: strictly_sorted_remdups_adj)
  then have "sorted_list_of_set (set (remdups_adj (sort bs))) = remdups_adj (sort bs)"
    by (intro sorted_list_of_set.idem_if_sorted_distinct) (auto simp: strict_sorted_iff)
  then show ?thesis by simp
qed

lemma pwa_new_buckets: "pwa_new bs = Inr c \<Longrightarrow> set (buckets c) = set bs \<and> bs \<noteq> []"
  by (auto simp: pwa_new_def split: if_splits)

text \<open>The constructor canonicalises: it fails only on the empty list, its buckets are strictly
  sorted and are exactly the given ones, and two bucket lists with the same buckets, in any order
  and with any repetition, give equal curves.\<close>

theorem pwa_new_canonical:
  "(pwa_new bs = Inl EmptyBuckets \<longleftrightarrow> bs = [])
   \<and> (\<forall>c. pwa_new bs = Inr c \<longrightarrow> sorted_wrt (<) (buckets c) \<and> set (buckets c) = set bs)
   \<and> (set bs = set bs' \<longrightarrow> pwa_new bs = pwa_new bs')"
  by (auto simp: pwa_new_def remdups_adj_sort strict_sorted_list_of_set)

theorem pwa_new_canonical_witness:
  "pwa_new [(1500, 100), (100, 900), (1500, 100)] = pwa_new [(100, 900), (1500, 100)]"
  using pwa_new_canonical [of "[(1500, 100), (100, 900), (1500, 100)]" "[(100, 900), (1500, 100)]"]
  by auto

text \<open>Converting a single-bucket curve, with or without a peak rate, loses nothing: the
  conversion never panics and the piecewise curve reads out the same at every time.\<close>

theorem pwa_from_arrival_readout:
  "\<exists>c. pwa_from_arrival \<alpha> = Some c \<and> (\<forall>t. pwa_at c t = Some (arrival_at \<alpha> t))"
proof -
  define bs where "bs = [(burst_bytes \<alpha>, sustained_rate_bps \<alpha>)]
      @ (case peak_rate_bps \<alpha> of Some peak \<Rightarrow> [(0, peak)] | None \<Rightarrow> [])"
  define c where "c = \<lparr>buckets = remdups_adj (sort bs)\<rparr>"
  have c: "pwa_from_arrival \<alpha> = Some c"
    by (simp add: pwa_from_arrival_def pwa_new_def c_def bs_def)
  have set_c: "set (buckets c) = set bs" by (simp add: c_def)
  have "pwa_at c t = Some (arrival_at \<alpha> t)" for t
    by (auto simp: pwa_at_def iter_min_eq_Some set_c bs_def arrival_at_def Let_def image_iff
        min_def u64_range split: option.split)
  with c show ?thesis by blast
qed

text \<open>The multi-bucket delay bound is sound for the minimum curve and no larger than the bound
  of any of its buckets.\<close>

theorem pwa_delay_bound_sound:
  assumes "pwa_delay_bound c \<beta> = Some (Inr D)"
  shows "(pwa_at c t = Some y \<and> t + D \<le> u64_max \<longrightarrow> y \<le> service_at \<beta> (t + D))
    \<and> (\<forall>(\<sigma>, \<rho>) \<in> set (buckets c). \<exists>D'. delay_bound (affine \<sigma> \<rho>) \<beta> = Inr D' \<and> D \<le> D')"
proof -
  let ?D = "\<lambda>\<sigma>. sat_add (latency_ps \<beta>) (time_to_send_ps \<sigma> (rate_bps \<beta>))"
  from assms have m: "iter_min (map (\<lambda>(\<sigma>, _). ?D \<sigma>) (buckets c)) = Some D"
    and stable: "\<forall>(_, \<rho>) \<in> set (buckets c). \<rho> \<le> rate_bps \<beta>" "rate_bps \<beta> \<noteq> 0"
    by (auto simp: pwa_delay_bound_def not_less split: if_splits)
  then obtain \<sigma> \<rho> where b: "(\<sigma>, \<rho>) \<in> set (buckets c)" and D: "D = ?D \<sigma>"
    unfolding iter_min_eq_Some by auto
  from m have least: "D \<le> ?D \<sigma>" if "(\<sigma>, \<rho>) \<in> set (buckets c)" for \<sigma> \<rho>
    using that unfolding iter_min_eq_Some by force
  have "y \<le> service_at \<beta> (t + D)" if "pwa_at c t = Some y" "t + D \<le> u64_max"
    using pwa.delay_sound [OF b _ D that(2,1)] stable(1) b by auto
  moreover have "\<forall>(\<sigma>, \<rho>) \<in> set (buckets c). \<exists>D'. delay_bound (affine \<sigma> \<rho>) \<beta> = Inr D' \<and> D \<le> D'"
    using stable least by (auto simp: delay_bound_def not_less [symmetric])
  ultimately show ?thesis by blast
qed

theorem pwa_delay_bound_sound_witness:
  "1500 \<le> service_at (rate_latency 1000000000 10000000) (11200000 + 10800000)"
  using pwa_delay_bound_sound [of "\<lparr>buckets = [(100, 1000000000), (1500, 0)]\<rparr>"
      "rate_latency 1000000000 10000000" 10800000 11200000 1500]
  by (simp add: pwa_delay_bound_def pwa_at_def time_to_send_ps_def div_ceil_def sat_add_def u64_max_def
      bits_to_bytes_in_window_def BITS_PER_BYTE_def PS_PER_SECOND_def)

lemma pwa_residual_service_sound:
  assumes "pwa_residual_service \<beta> c = Some (Inr \<beta>')" and "0 < service_at \<beta>' t" and "t \<le> u64_max"
    and "pwa_at c (t - latency_ps \<beta>) = Some y"
  shows "service_at \<beta>' t + y \<le> (rate_bps \<beta> * (t - latency_ps \<beta>)) div byte_ps"
proof -
  from assms(1) obtain m e where m: "iter_max (map (\<lambda>(_, rho). rho) (buckets c)) = Some m" and "m < rate_bps \<beta>"
    and e: "iter_max (map (\<lambda>(\<sigma>, _). time_to_send_ps \<sigma> (rate_bps \<beta> - m)) (buckets c)) = Some e"
    and \<beta>': "\<beta>' = \<lparr>rate_bps = rate_bps \<beta> - m, latency_ps = sat_add (latency_ps \<beta>) e\<rparr>"
    by (auto simp: pwa_residual_service_def pwa_max_sustained_rate_bps_def Let_def not_le
        simp del: service_curve.ext_inject split: bind_splits if_splits)
  from m obtain \<sigma> where b: "(\<sigma>, m) \<in> set (buckets c)" by (auto simp: iter_max_eq_Some)
  with e have "time_to_send_ps \<sigma> (rate_bps \<beta> - m) \<le> e" by (auto simp: iter_max_eq_Some)
  with b \<open>m < rate_bps \<beta>\<close> show ?thesis
    by (intro pwa.residual_sound [OF b _ _ \<beta>' assms(2-4)]) auto
qed

end
