(* ===== verification/Tfa.thy ===== *)
theory Tfa
  imports Curves
begin

text \<open>
  Total Flow Analysis, \<^verbatim>\<open>crates/spar-network/src/tfa.rs\<close>: per-server delay bounds of a FIFO
  network, by iterating the burst of every flow at every server of its path to a fixed point.

  The vectors of the source are lists indexed by server, flow and path position. The nested
  loops \<^verbatim>\<open>for flow in flows { for h in flow.path \<dots> }\<close> that accumulate rates and bursts run over
  the list of crossings, the pairs of a server and the value entering it, in the same order. The
  loop with its iteration counter is \<open>tfa_loop\<close>; it terminates because the counter stops it at
  \<open>TFA_MAX_ITER\<close>. The \<^verbatim>\<open>expect\<close> in \<open>inflate_burst\<close> is the value \<open>None\<close>, shown unreachable.
\<close>

section \<open>Flows, results, errors\<close>

definition TFA_MAX_ITER :: u32 where
  "TFA_MAX_ITER = 1000"

definition TFA_BURST_CEILING_BYTES :: u64 where
  "TFA_BURST_CEILING_BYTES = 2 ^ 50"

record tfa_flow =
  alpha :: arrival_curve
  path :: "usize list"

record tfa_result =
  server_delay_ps :: "u64 list"
  flow_delay_ps :: "u64 list"
  iterations :: u32

datatype tfa_error =
    EmptyNetwork
  | OutOfRange
  | Unstable (server: usize) (agg_rate_bps: u64) (service_rate_bps: u64)
  | NonConvergent u32


section \<open>Aggregation and burst propagation\<close>

definition aggregate :: "arrival_curve list \<Rightarrow> arrival_curve" where
  "aggregate flows =
     (let (burst, rate) = fold (\<lambda>a (b, r). (sat_add b (burst_bytes a), sat_add r (sustained_rate_bps a)))
                            flows (0, 0)
      in affine burst rate)"

definition inflate_burst :: "arrival_curve \<Rightarrow> u64 \<Rightarrow> arrival_curve option" where
  "inflate_burst \<alpha> delay_ps =
     (let probe = rate_latency (sat_add (sustained_rate_bps \<alpha>) 1) delay_ps
      in case output_bound \<alpha> probe of Inr out \<Rightarrow> Some out | Inl _ \<Rightarrow> None)"

definition accumulate :: "usize \<Rightarrow> (usize \<times> u64) list \<Rightarrow> u64 list" where
  "accumulate n crossings = fold (\<lambda>(h, v) acc. acc[h := sat_add (acc ! h) v]) crossings (replicate n 0)"

definition crossings :: "tfa_flow list \<Rightarrow> u64 list list \<Rightarrow> (usize \<times> u64) list" where
  "crossings flows vals = concat (map2 (\<lambda>f vs. zip (path f) vs) flows vals)"

definition agg_rate_of :: "tfa_flow list \<Rightarrow> usize \<Rightarrow> u64 list" where
  "agg_rate_of flows n = accumulate n (crossings flows
     (map (\<lambda>f. replicate (length (path f)) (sustained_rate_bps (alpha f))) flows))"

definition agg_burst_of :: "tfa_flow list \<Rightarrow> usize \<Rightarrow> u64 list list \<Rightarrow> u64 list" where
  "agg_burst_of flows n bursts = accumulate n (crossings flows bursts)"

fun first_unstable :: "service_curve list \<Rightarrow> u64 list \<Rightarrow> usize list \<Rightarrow> tfa_error option" where
  "first_unstable services rates [] = None"
| "first_unstable services rates (h # hs) =
     (if rates ! h = 0 then first_unstable services rates hs
      else if rates ! h \<ge> rate_bps (services ! h)
      then Some (Unstable h (rates ! h) (rate_bps (services ! h)))
      else first_unstable services rates hs)"

fun server_delays :: "service_curve list \<Rightarrow> u64 list \<Rightarrow> u64 list \<Rightarrow> usize list \<Rightarrow> tfa_error + u64 list" where
  "server_delays services rates bursts [] = Inr []"
| "server_delays services rates bursts (h # hs) =
     (case (if rates ! h = 0 then Inr 0 else delay_bound (affine (bursts ! h) (rates ! h)) (services ! h)) of
        Inl _ \<Rightarrow> Inl (Unstable h (rates ! h) (rate_bps (services ! h)))
      | Inr d \<Rightarrow> (case server_delays services rates bursts hs of Inl e \<Rightarrow> Inl e | Inr ds \<Rightarrow> Inr (d # ds)))"

definition propagate_flow :: "u64 list \<Rightarrow> tfa_flow \<Rightarrow> u64 list \<Rightarrow> u64 list option" where
  "propagate_flow delays f bs = those (map (\<lambda>j.
     if j = 0 then Some (bs ! 0)
     else map_option burst_bytes
            (inflate_burst (affine (bs ! (j - 1)) (sustained_rate_bps (alpha f))) (delays ! (path f ! (j - 1)))))
     [0..<length (path f)])"

definition propagate :: "u64 list \<Rightarrow> tfa_flow list \<Rightarrow> u64 list list \<Rightarrow> u64 list list option" where
  "propagate delays flows bursts = those (map2 (propagate_flow delays) flows bursts)"

definition burst_diverged :: "u64 list list \<Rightarrow> bool" where
  "burst_diverged next_bursts \<longleftrightarrow> (\<exists>bs \<in> set next_bursts. \<exists>b \<in> set (tl bs). b > TFA_BURST_CEILING_BYTES)"

definition initial_bursts :: "tfa_flow list \<Rightarrow> u64 list list" where
  "initial_bursts flows = map (\<lambda>f. replicate (length (path f)) (burst_bytes (alpha f))) flows"


section \<open>The fixed point\<close>

function tfa_loop ::
    "tfa_flow list \<Rightarrow> service_curve list \<Rightarrow> u64 list \<Rightarrow> u32 \<Rightarrow> u64 list list
      \<Rightarrow> (tfa_error + u64 list \<times> u32) option" where
  "tfa_loop flows services rates iters bursts =
     (let iters' = iters + 1;
          n = length services
      in case server_delays services rates (agg_burst_of flows n bursts) [0..<n] of
           Inl e \<Rightarrow> Some (Inl e)
         | Inr delays \<Rightarrow>
             (case propagate delays flows bursts of
                None \<Rightarrow> None
              | Some next_bursts \<Rightarrow>
                  if burst_diverged next_bursts then Some (Inl (NonConvergent iters'))
                  else if next_bursts = bursts then Some (Inr (delays, iters'))
                  else if iters' \<ge> TFA_MAX_ITER then Some (Inl (NonConvergent iters'))
                  else tfa_loop flows services rates iters' next_bursts))"
  by pat_completeness auto
termination
  by (relation "measure (\<lambda>(_, _, _, iters, _). TFA_MAX_ITER - iters)") auto

declare tfa_loop.simps [simp del]

definition tfa_bound :: "tfa_flow list \<Rightarrow> service_curve list \<Rightarrow> (tfa_error + tfa_result) option" where
  "tfa_bound flows services =
     (if flows = [] \<or> services = [] then Some (Inl EmptyNetwork)
      else let n = length services
      in if \<exists>f \<in> set flows. \<exists>h \<in> set (path f). h \<ge> n then Some (Inl OutOfRange)
      else let rates = agg_rate_of flows n
      in case first_unstable services rates [0..<n] of
           Some e \<Rightarrow> Some (Inl e)
         | None \<Rightarrow>
             (case tfa_loop flows services rates 0 (initial_bursts flows) of
                None \<Rightarrow> None
              | Some (Inl e) \<Rightarrow> Some (Inl e)
              | Some (Inr (delays, iters)) \<Rightarrow>
                  Some (Inr \<lparr>server_delay_ps = delays,
                       flow_delay_ps = map (\<lambda>f. fold (\<lambda>h acc. sat_add acc (delays ! h)) (path f) 0) flows,
                       iterations = iters\<rparr>)))"


section \<open>Accumulation and propagation in closed form\<close>

lemma inflate_burst_eq [simp]:
  "\<alpha> = affine b r \<Longrightarrow> r \<le> u64_max \<Longrightarrow> inflate_burst \<alpha> d = Some (affine (sat_add b (bits_to_bytes_in_window r d)) r)"
  by (auto simp: inflate_burst_def output_bound_def affine_def sat_add_min)

lemma length_accumulate [simp]: "length (accumulate n cs) = n"
proof -
  have "length (fold (\<lambda>(h, v) acc. acc[h := sat_add (acc ! h) v]) cs acc) = length acc" for acc
    by (induction cs arbitrary: acc) auto
  then show ?thesis by (simp add: accumulate_def)
qed

definition entering :: "usize \<Rightarrow> (usize \<times> u64) list \<Rightarrow> nat" where
  "entering h cs = (\<Sum>(h', v)\<leftarrow>cs. if h' = h then v else 0)"

lemma accumulate_nth: "h < n \<Longrightarrow> accumulate n cs ! h = min (entering h cs) u64_max"
proof -
  have "fold (\<lambda>(h, v) acc. acc[h := sat_add (acc ! h) v]) cs acc ! h = min (acc ! h + entering h cs) u64_max"
    if "h < length acc" "acc ! h \<le> u64_max" for acc
    using that
  proof (induction cs arbitrary: acc)
    case (Cons c cs)
    obtain h' v where c: "c = (h', v)" by force
    from Cons.prems have "h < length (acc[h' := sat_add (acc ! h') v])"
      "acc[h' := sat_add (acc ! h') v] ! h \<le> u64_max"
      by (cases "h = h'"; simp add: u64_range)+
    from Cons.IH [OF this] Cons.prems show ?case
      by (auto simp: c entering_def nth_list_update sat_add_min min_def)
  qed (simp add: entering_def)
  from this [of "replicate n 0"] show "h < n \<Longrightarrow> ?thesis" by (simp add: accumulate_def)
qed

text \<open>Burst vectors are compared position by position.\<close>

definition burst_le :: "u64 list list \<Rightarrow> u64 list list \<Rightarrow> bool" where
  "burst_le bs bs' \<longleftrightarrow> list_all2 (list_all2 (\<le>)) bs bs'"

lemma burst_le_refl: "burst_le bs bs"
  by (simp add: burst_le_def list.rel_refl)

lemma burst_le_trans: "burst_le a b \<Longrightarrow> burst_le b c \<Longrightarrow> burst_le a c"
  unfolding burst_le_def
  by (rule list_all2_trans [of _ _ "list_all2 (\<le>)"]) (auto elim: list_all2_trans [rotated 1])

lemma entering_mono:
  "list_all2 (\<lambda>(h, v) (h', v'). h = h' \<and> v \<le> v') cs cs' \<Longrightarrow> entering h cs \<le> entering h cs'"
  by (induction rule: list_all2_induct) (auto simp: entering_def)

lemma zip_mono: "list_all2 (\<le>) vs vs' \<Longrightarrow>
    list_all2 (\<lambda>(h, v) (h', v'). h = h' \<and> v \<le> (v' :: nat)) (zip ps vs) (zip ps vs')"
proof (induction ps arbitrary: vs vs')
  case (Cons p ps)
  then show ?case by (cases vs; cases vs') auto
qed simp

lemma crossings_mono:
  "burst_le bs bs' \<Longrightarrow>
     list_all2 (\<lambda>(h, v) (h', v'). h = h' \<and> v \<le> v') (crossings flows bs) (crossings flows bs')"
  unfolding burst_le_def crossings_def
proof (induction flows arbitrary: bs bs')
  case (Cons f flows)
  then show ?case
    by (cases bs; cases bs') (auto intro!: list_all2_appendI zip_mono)
qed simp

lemma agg_burst_mono: "burst_le bs bs' \<Longrightarrow> h < n \<Longrightarrow> agg_burst_of flows n bs ! h \<le> agg_burst_of flows n bs' ! h"
  unfolding agg_burst_of_def
  by (simp add: accumulate_nth min.coboundedI1 entering_mono crossings_mono)


text \<open>What one iteration computes when the network is stable and the flows hold 64-bit rates.\<close>

definition delays_of :: "tfa_flow list \<Rightarrow> service_curve list \<Rightarrow> u64 list \<Rightarrow> u64 list list \<Rightarrow> u64 list" where
  "delays_of flows services rates bursts = map (\<lambda>h.
     if rates ! h = 0 then 0
     else sat_add (latency_ps (services ! h))
            (time_to_send_ps (agg_burst_of flows (length services) bursts ! h) (rate_bps (services ! h))))
     [0..<length services]"

definition step_flow :: "u64 list \<Rightarrow> tfa_flow \<Rightarrow> u64 list \<Rightarrow> u64 list" where
  "step_flow delays f bs = map (\<lambda>j.
     if j = 0 then bs ! 0
     else sat_add (bs ! (j - 1))
            (bits_to_bytes_in_window (sustained_rate_bps (alpha f)) (delays ! (path f ! (j - 1)))))
     [0..<length (path f)]"

definition burst_step :: "tfa_flow list \<Rightarrow> service_curve list \<Rightarrow> u64 list \<Rightarrow> u64 list list \<Rightarrow> u64 list list" where
  "burst_step flows services rates bursts =
     map2 (step_flow (delays_of flows services rates bursts)) flows bursts"

definition flows_u64 :: "tfa_flow list \<Rightarrow> bool" where
  "flows_u64 flows \<longleftrightarrow> (\<forall>f \<in> set flows. sustained_rate_bps (alpha f) \<le> u64_max \<and> burst_bytes (alpha f) \<le> u64_max)"

definition stable :: "service_curve list \<Rightarrow> u64 list \<Rightarrow> bool" where
  "stable services rates \<longleftrightarrow> (\<forall>h < length services. rates ! h \<noteq> 0 \<longrightarrow> rates ! h < rate_bps (services ! h))"

lemma server_delays_stable:
  assumes "stable services rates" "\<forall>h \<in> set hs. h < length services"
  shows "server_delays services rates bs hs = Inr (map (\<lambda>h.
     if rates ! h = 0 then 0
     else sat_add (latency_ps (services ! h)) (time_to_send_ps (bs ! h) (rate_bps (services ! h)))) hs)"
  using assms(2) by (induction hs) (use assms(1) in \<open>auto simp: delay_bound_def stable_def\<close>)

lemma first_unstable_None:
  "first_unstable services rates hs = None \<longleftrightarrow> (\<forall>h \<in> set hs. rates ! h \<noteq> 0 \<longrightarrow> rates ! h < rate_bps (services ! h))"
  by (induction hs) (auto simp: not_le)


lemma propagate_eq:
  assumes "flows_u64 flows" "length bursts = length flows"
  shows "propagate delays flows bursts = Some (map2 (step_flow delays) flows bursts)"
proof -
  have "propagate_flow delays f bs = Some (step_flow delays f bs)" if "f \<in> set flows" for f bs
    unfolding propagate_flow_def step_flow_def
    using that assms(1) by (intro those_map_Some) (auto simp: flows_u64_def)
  then show ?thesis
    unfolding propagate_def by (intro those_map_Some) (auto dest: set_zip_leftD)
qed

lemma tfa_loop_stable:
  assumes "stable services rates" "flows_u64 flows" "length bursts = length flows"
  shows "tfa_loop flows services rates iters bursts =
     (let next_bursts = burst_step flows services rates bursts
      in if burst_diverged next_bursts then Some (Inl (NonConvergent (iters + 1)))
         else if next_bursts = bursts then Some (Inr (delays_of flows services rates bursts, iters + 1))
         else if iters + 1 \<ge> TFA_MAX_ITER then Some (Inl (NonConvergent (iters + 1)))
         else tfa_loop flows services rates (iters + 1) next_bursts)"
proof -
  have "server_delays services rates (agg_burst_of flows (length services) bursts) [0..<length services]
      = Inr (delays_of flows services rates bursts)"
    unfolding delays_of_def by (rule server_delays_stable [OF assms(1)]) simp
  with propagate_eq [OF assms(2,3)] show ?thesis
    by (subst tfa_loop.simps) (simp add: Let_def burst_step_def)
qed


section \<open>The iteration as a monotone operator\<close>

text \<open>The interface of the iteration: a transitive comparison and an operator that respects it. Below
  a post-fixed point, every iterate stays below.\<close>

locale ascending_iteration =
  fixes le :: "'s \<Rightarrow> 's \<Rightarrow> bool" and step :: "'s \<Rightarrow> 's"
  assumes le_trans: "le a b \<Longrightarrow> le b c \<Longrightarrow> le a c"
    and step_mono: "le a b \<Longrightarrow> le (step a) (step b)"
begin

lemma step_below: "le x y \<Longrightarrow> le (step y) y \<Longrightarrow> le (step x) y"
  using le_trans step_mono by blast

lemma iterates_below: "le x y \<Longrightarrow> le (step y) y \<Longrightarrow> le ((step ^^ n) x) y"
  by (induction n) (auto intro: step_below)

end

lemma delays_of_nth:
  "h < length services \<Longrightarrow> delays_of flows services rates bursts ! h =
     (if rates ! h = 0 then 0
      else sat_add (latency_ps (services ! h))
             (time_to_send_ps (agg_burst_of flows (length services) bursts ! h) (rate_bps (services ! h))))"
  by (simp add: delays_of_def)

lemma delays_mono:
  "burst_le bs bs' \<Longrightarrow> h < length services \<Longrightarrow>
     delays_of flows services rates bs ! h \<le> delays_of flows services rates bs' ! h"
  by (auto simp: delays_of_nth intro!: nc_mono agg_burst_mono)

lemma step_flow_mono:
  assumes "list_all2 (\<le>) bs bs'" "length bs = length (path f)"
    and "\<And>h. h \<in> set (path f) \<Longrightarrow> ds ! h \<le> ds' ! h"
  shows "list_all2 (\<le>) (step_flow ds f bs) (step_flow ds' f bs')"
  unfolding list_all2_conv_all_nth step_flow_def
  using assms by (auto simp: list_all2_conv_all_nth intro!: nc_mono)


text \<open>A burst vector of the network has one entry per path position, and paths stay in range.\<close>

definition shaped :: "tfa_flow list \<Rightarrow> u64 list list \<Rightarrow> bool" where
  "shaped flows bs \<longleftrightarrow> list_all2 (\<lambda>f b. length b = length (path f)) flows bs"

definition in_range :: "tfa_flow list \<Rightarrow> service_curve list \<Rightarrow> bool" where
  "in_range flows services \<longleftrightarrow> (\<forall>f \<in> set flows. \<forall>h \<in> set (path f). h < length services)"

definition network_le :: "tfa_flow list \<Rightarrow> service_curve list \<Rightarrow> u64 list list \<Rightarrow> u64 list list \<Rightarrow> bool" where
  "network_le flows services a b \<longleftrightarrow> burst_le a b \<and> shaped flows a \<and> shaped flows b \<and> in_range flows services"

lemma shaped_step [simp]: "shaped flows bs \<Longrightarrow> shaped flows (burst_step flows services rates bs)"
  by (auto simp: shaped_def burst_step_def list_all2_conv_all_nth step_flow_def)

lemma shaped_initial [simp]: "shaped flows (initial_bursts flows)"
  by (auto simp: shaped_def initial_bursts_def list_all2_conv_all_nth)

lemma shaped_length: "shaped flows bs \<Longrightarrow> length bs = length flows"
  by (simp add: shaped_def list_all2_lengthD)

lemma burst_step_nth:
  "shaped flows bs \<Longrightarrow> i < length flows \<Longrightarrow>
     burst_step flows services rates bs ! i = step_flow (delays_of flows services rates bs) (flows ! i) (bs ! i)"
  by (simp add: burst_step_def shaped_length)

lemma burst_step_mono:
  assumes "network_le flows services a b"
  shows "network_le flows services (burst_step flows services rates a) (burst_step flows services rates b)"
proof -
  from assms have le: "burst_le a b" and sh: "shaped flows a" "shaped flows b" and r: "in_range flows services"
    by (auto simp: network_le_def)
  have "list_all2 (\<le>) (burst_step flows services rates a ! i) (burst_step flows services rates b ! i)"
    if i: "i < length flows" for i
  proof -
    have "list_all2 (\<le>) (a ! i) (b ! i)"
      using le i shaped_length [OF sh(1)] by (auto simp: burst_le_def list_all2_conv_all_nth)
    moreover have "length (a ! i) = length (path (flows ! i))"
      using sh(1) i by (auto simp: shaped_def list_all2_conv_all_nth)
    moreover have "delays_of flows services rates a ! h \<le> delays_of flows services rates b ! h"
      if "h \<in> set (path (flows ! i))" for h
      using that r nth_mem [OF i] by (intro delays_mono [OF le]) (simp add: in_range_def)
    ultimately show ?thesis
      unfolding burst_step_nth [OF sh(1) i] burst_step_nth [OF sh(2) i] by (rule step_flow_mono)
  qed
  then have "burst_le (burst_step flows services rates a) (burst_step flows services rates b)"
    using shaped_length [OF shaped_step [OF sh(1)]] shaped_length [OF shaped_step [OF sh(2)]]
    by (auto simp: burst_le_def list_all2_conv_all_nth)
  with sh r show ?thesis by (simp add: network_le_def)
qed

interpretation tfa: ascending_iteration "network_le flows services" "burst_step flows services rates"
  for flows services rates
proof unfold_locales
  fix a b c
  assume "network_le flows services a b" "network_le flows services b c"
  then show "network_le flows services a c" by (auto simp: network_le_def intro: burst_le_trans)
qed (rule burst_step_mono)

text \<open>What the loop returns is an iterate of the operator; it stops at a fixed point, at an iterate
  past the ceiling, or at the iteration cap.\<close>

lemma tfa_loop_outcome:
  assumes "stable services rates" "flows_u64 flows" "shaped flows bursts" "iters < TFA_MAX_ITER"
  shows "\<exists>n. let bs = (burst_step flows services rates ^^ n) bursts in
    iters + n < TFA_MAX_ITER
    \<and> (tfa_loop flows services rates iters bursts = Some (Inr (delays_of flows services rates bs, iters + n + 1))
          \<and> burst_step flows services rates bs = bs
       \<or> tfa_loop flows services rates iters bursts = Some (Inl (NonConvergent (iters + n + 1)))
          \<and> (iters + n + 1 = TFA_MAX_ITER \<or> burst_diverged (burst_step flows services rates bs)))"
  using assms
proof (induction "TFA_MAX_ITER - iters" arbitrary: iters bursts rule: less_induct)
  case less
  let ?F = "burst_step flows services rates"
  note unfold = tfa_loop_stable [OF less.prems(1,2) shaped_length [OF less.prems(3)], of iters]
  show ?case
  proof (cases "burst_diverged (?F bursts) \<or> ?F bursts = bursts \<or> iters + 1 \<ge> TFA_MAX_ITER")
    case True
    with less.prems(4) show ?thesis
      by (intro exI [of _ 0]) (auto simp: unfold Let_def)
  next
    case False
    then have run: "tfa_loop flows services rates iters bursts = tfa_loop flows services rates (iters + 1) (?F bursts)"
      by (simp add: unfold Let_def)
    have "TFA_MAX_ITER - (iters + 1) < TFA_MAX_ITER - iters" "shaped flows (?F bursts)" "iters + 1 < TFA_MAX_ITER"
      using less.prems False by auto
    from less.hyps [OF this(1) less.prems(1,2) this(2,3)] obtain n where
      "let bs = (?F ^^ n) (?F bursts) in iters + 1 + n < TFA_MAX_ITER
       \<and> (tfa_loop flows services rates (iters + 1) (?F bursts)
             = Some (Inr (delays_of flows services rates bs, iters + 1 + n + 1)) \<and> ?F bs = bs
          \<or> tfa_loop flows services rates (iters + 1) (?F bursts) = Some (Inl (NonConvergent (iters + 1 + n + 1)))
             \<and> (iters + 1 + n + 1 = TFA_MAX_ITER \<or> burst_diverged (?F bs)))"
      by blast
    then show ?thesis
      by (intro exI [of _ "Suc n"]) (simp add: run Let_def funpow_swap1 del: funpow.simps add: funpow_Suc_right)
  qed
qed

lemma tfa_bound_cases:
  assumes "flows_u64 flows" "flows \<noteq> []" "services \<noteq> []" "in_range flows services"
    and rates: "rates = agg_rate_of flows (length services)" and st: "stable services rates"
  obtains n bs where "bs = (burst_step flows services rates ^^ n) (initial_bursts flows)" "n < TFA_MAX_ITER"
    "burst_step flows services rates bs = bs"
    "tfa_bound flows services = Some (Inr \<lparr>server_delay_ps = delays_of flows services rates bs,
       flow_delay_ps = map (\<lambda>f. fold (\<lambda>h acc. sat_add acc (delays_of flows services rates bs ! h)) (path f) 0) flows,
       iterations = n + 1\<rparr>)"
  | n bs where "bs = (burst_step flows services rates ^^ n) (initial_bursts flows)" "n < TFA_MAX_ITER"
    "tfa_bound flows services = Some (Inl (NonConvergent (n + 1)))"
    "n + 1 = TFA_MAX_ITER \<or> burst_diverged (burst_step flows services rates bs)"
proof -
  have "\<not> (\<exists>f \<in> set flows. \<exists>h \<in> set (path f). h \<ge> length services)"
    using assms(4) by (auto simp: in_range_def not_le)
  moreover have "first_unstable services rates [0..<length services] = None"
    using st by (auto simp: first_unstable_None stable_def)
  ultimately have bound: "tfa_bound flows services =
      (case tfa_loop flows services rates 0 (initial_bursts flows) of
                None \<Rightarrow> None
              | Some (Inl e) \<Rightarrow> Some (Inl e)
              | Some (Inr (delays, iters)) \<Rightarrow>
                  Some (Inr \<lparr>server_delay_ps = delays,
                       flow_delay_ps = map (\<lambda>f. fold (\<lambda>h acc. sat_add acc (delays ! h)) (path f) 0) flows,
                       iterations = iters\<rparr>))"
    using assms(2,3) by (simp only: tfa_bound_def Let_def rates [symmetric] if_False simp_thms option.case)
  have "0 < TFA_MAX_ITER" by (simp add: TFA_MAX_ITER_def)
  from tfa_loop_outcome [OF st assms(1) shaped_initial this] obtain n bs where
    n: "bs = (burst_step flows services rates ^^ n) (initial_bursts flows)" "n < TFA_MAX_ITER"
    and "tfa_loop flows services rates 0 (initial_bursts flows)
        = Some (Inr (delays_of flows services rates bs, n + 1)) \<and> burst_step flows services rates bs = bs
      \<or> tfa_loop flows services rates 0 (initial_bursts flows) = Some (Inl (NonConvergent (n + 1)))
        \<and> (n + 1 = TFA_MAX_ITER \<or> burst_diverged (burst_step flows services rates bs))"
    by (auto simp: Let_def simp del: One_nat_def)
  then show thesis
    using that(1) [OF n] that(2) [OF n] bound by (auto simp del: One_nat_def)
qed


lemma tfa_bound_InrD:
  assumes "tfa_bound flows services = Some (Inr res)"
  shows "flows \<noteq> []" "services \<noteq> []" "in_range flows services"
    "stable services (agg_rate_of flows (length services))"
  using assms
  by (auto simp: tfa_bound_def Let_def in_range_def stable_def first_unstable_None not_le
      split: if_splits option.splits)

lemma tfa_bound_Inr_obtain:
  assumes "tfa_bound flows services = Some (Inr res)" and "flows_u64 flows"
    and "rates = agg_rate_of flows (length services)"
  obtains n bs where "bs = (burst_step flows services rates ^^ n) (initial_bursts flows)" "n < TFA_MAX_ITER"
    "burst_step flows services rates bs = bs"
    "res = \<lparr>server_delay_ps = delays_of flows services rates bs,
       flow_delay_ps = map (\<lambda>f. fold (\<lambda>h acc. sat_add acc (delays_of flows services rates bs ! h)) (path f) 0) flows,
       iterations = n + 1\<rparr>"
  by (rule tfa_bound_cases [OF assms(2) tfa_bound_InrD(1-3) [OF assms(1)] assms(3)
        tfa_bound_InrD(4) [OF assms(1), folded assms(3)]])
    (use that assms(1) in \<open>simp_all del: One_nat_def\<close>)

lemma initial_le_iterates:
  assumes "flows_u64 flows"
  shows "\<forall>i < length flows. 0 < length (path (flows ! i)) \<longrightarrow>
     (burst_step flows services rates ^^ n) (initial_bursts flows) ! i ! 0 = burst_bytes (alpha (flows ! i))"
proof (induction n)
  case (Suc n)
  let ?bs = "(burst_step flows services rates ^^ n) (initial_bursts flows)"
  have "shaped flows ?bs" by (induction n) auto
  with Suc show ?case by (simp add: burst_step_nth step_flow_def)
qed (simp add: initial_bursts_def)

lemma shaped_iterates: "shaped flows ((burst_step flows services rates ^^ n) (initial_bursts flows))"
  by (induction n) auto

lemma tfa_iterates_below:
  assumes "in_range flows services" "shaped flows bs'" "burst_le (initial_bursts flows) bs'"
    and "burst_le (burst_step flows services rates bs') bs'"
  shows "network_le flows services ((burst_step flows services rates ^^ n) (initial_bursts flows)) bs'"
  using assms by (intro tfa.iterates_below) (auto simp: network_le_def)

lemma fold_sat_add_delays:
  "fold (\<lambda>h acc. sat_add acc (d h)) hs 0 = min (\<Sum>h\<leftarrow>hs. d h) u64_max"
  by (simp add: fold_sat_add)




section \<open>Properties\<close>

lemma fixpoint_bursts_grow:
  assumes "shaped flows bs" "burst_step flows services r bs = bs" "i < length flows" "Suc j < length (path (flows ! i))"
  shows "bs ! i ! Suc j = sat_add (bs ! i ! j) (bits_to_bytes_in_window (sustained_rate_bps (alpha (flows ! i)))
    (delays_of flows services r bs ! (path (flows ! i) ! j)))"
proof -
  have "bs ! i ! Suc j = step_flow (delays_of flows services r bs) (flows ! i) (bs ! i) ! Suc j"
    using assms(2) burst_step_nth [OF assms(1,3)] by metis
  then show ?thesis using assms(4) by (simp add: step_flow_def)
qed

text \<open>C3. A TFA result is a certificate: there are input bursts for every flow at every hop that start
  at the flow's own burst, grow at each hop by what arrives during that hop's reported delay, and
  whose total at each server, with the total rate, gives exactly the reported delay, which
  therefore bounds the delay of the aggregate; a flow's bound is the saturated sum along its
  path.\<close>

theorem tfa_result_consistent:
  assumes "tfa_bound flows services = Some (Inr res)" and "flows_u64 flows"
  shows "\<exists>bursts.
    (\<forall>i < length flows. let f = flows ! i; b = bursts ! i in
        length b = length (path f)
      \<and> (path f \<noteq> [] \<longrightarrow> b ! 0 = burst_bytes (alpha f))
      \<and> (\<forall>j. Suc j < length (path f) \<longrightarrow>
            b ! Suc j = sat_add (b ! j) (bits_to_bytes_in_window (sustained_rate_bps (alpha f))
                                           (server_delay_ps res ! (path f ! j))))
      \<and> flow_delay_ps res ! i = min (\<Sum>h\<leftarrow>path f. server_delay_ps res ! h) u64_max)
    \<and> (\<forall>h < length services.
        let \<alpha> = affine (agg_burst_of flows (length services) bursts ! h) (agg_rate_of flows (length services) ! h)
        in sustained_rate_bps \<alpha> \<noteq> 0 \<longrightarrow>
             delay_bound \<alpha> (services ! h) = Inr (server_delay_ps res ! h)
           \<and> (\<forall>t. t + server_delay_ps res ! h \<le> u64_max \<longrightarrow>
                  arrival_at \<alpha> t \<le> service_at (services ! h) (t + server_delay_ps res ! h)))
    \<and> iterations res \<le> TFA_MAX_ITER"
proof -
  note d = tfa_bound_InrD [OF assms(1)]
  let ?r = "agg_rate_of flows (length services)"
  let ?F = "burst_step flows services ?r"
  obtain n bs where bs: "bs = (?F ^^ n) (initial_bursts flows)" "n < TFA_MAX_ITER" and fp: "?F bs = bs"
    and res: "res = \<lparr>server_delay_ps = delays_of flows services ?r bs,
       flow_delay_ps = map (\<lambda>f. fold (\<lambda>h acc. sat_add acc (delays_of flows services ?r bs ! h)) (path f) 0) flows,
       iterations = n + 1\<rparr>"
    by (rule tfa_bound_Inr_obtain [OF assms refl])
  have sh: "shaped flows bs" unfolding bs by (rule shaped_iterates)
  note grow = fixpoint_bursts_grow [OF sh fp]
  have delay: "delay_bound (affine b (?r ! h)) (services ! h)
      = Inr (sat_add (latency_ps (services ! h)) (time_to_send_ps b (rate_bps (services ! h))))"
    if "h < length services" "?r ! h \<noteq> 0" for h b
    using d(4) that by (auto simp: stable_def delay_bound_def)
  have start: "bs ! i ! 0 = burst_bytes (alpha (flows ! i))"
    if "i < length flows" "path (flows ! i) \<noteq> []" for i
    using initial_le_iterates [OF assms(2)] that unfolding bs by simp
  have len: "length (bs ! i) = length (path (flows ! i))" if "i < length flows" for i
    using sh that by (auto simp: shaped_def list_all2_conv_all_nth)
  show ?thesis
  proof (intro exI [of _ bs] conjI allI impI)
    fix i assume "i < length flows"
    then show "let f = flows ! i; b = bs ! i in
        length b = length (path f)
      \<and> (path f \<noteq> [] \<longrightarrow> b ! 0 = burst_bytes (alpha f))
      \<and> (\<forall>j. Suc j < length (path f) \<longrightarrow>
            b ! Suc j = sat_add (b ! j) (bits_to_bytes_in_window (sustained_rate_bps (alpha f))
                                           (server_delay_ps res ! (path f ! j))))
      \<and> flow_delay_ps res ! i = min (\<Sum>h\<leftarrow>path f. server_delay_ps res ! h) u64_max"
      using start grow len by (simp add: res Let_def fold_sat_add_delays)
  next
    fix h assume "h < length services"
    then show "let \<alpha> = affine (agg_burst_of flows (length services) bs ! h) (?r ! h)
        in sustained_rate_bps \<alpha> \<noteq> 0 \<longrightarrow>
             delay_bound \<alpha> (services ! h) = Inr (server_delay_ps res ! h)
           \<and> (\<forall>t. t + server_delay_ps res ! h \<le> u64_max \<longrightarrow>
                  arrival_at \<alpha> t \<le> service_at (services ! h) (t + server_delay_ps res ! h))"
      using delay delay_bound_drains by (simp add: res Let_def delays_of_nth)
  qed (use bs(2) in \<open>simp add: res\<close>)
qed


text \<open>The evaluation rules of a concrete network.\<close>

lemmas tfa_eval = tfa_bound_def tfa_loop.simps accumulate_def crossings_def agg_rate_of_def agg_burst_of_def
  initial_bursts_def propagate_def propagate_flow_def inflate_burst_def output_bound_def delay_bound_def
  affine_def rate_latency_def time_to_send_ps_def bits_to_bytes_in_window_def burst_diverged_def
  TFA_MAX_ITER_def TFA_BURST_CEILING_BYTES_def sat_simps u64_max_def div_ceil_def
  PS_PER_SECOND_def BITS_PER_BYTE_def upt_rec

definition demo_tfa_flows :: "tfa_flow list" where
  "demo_tfa_flows = [\<lparr>alpha = affine 1500 10000000, path = [0, 1]\<rparr>, \<lparr>alpha = affine 500 20000000, path = [1]\<rparr>]"

definition demo_tfa_services :: "service_curve list" where
  "demo_tfa_services = [rate_latency 1000000000 10000000, rate_latency 1000000000 5000000]"


lemma tfa_demo:
  "tfa_bound demo_tfa_flows demo_tfa_services = Some (Inr \<lparr>server_delay_ps = [22000000, 21216000],
     flow_delay_ps = [43216000, 21216000], iterations = 2\<rparr>)"
  by (simp add: tfa_eval demo_tfa_flows_def demo_tfa_services_def)

lemma demo_tfa_flows_u64: "flows_u64 demo_tfa_flows"
  by (simp add: flows_u64_def demo_tfa_flows_def affine_def u64_max_def)

theorem tfa_result_consistent_witness:
  "\<exists>bursts. bursts ! 0 ! 0 = 1500 \<and> bursts ! 0 ! 1 = 1527
     \<and> delay_bound (affine (agg_burst_of demo_tfa_flows 2 bursts ! 1) (agg_rate_of demo_tfa_flows 2 ! 1))
         (demo_tfa_services ! 1) = Inr 21216000"
proof -
  have rate: "agg_rate_of demo_tfa_flows 2 ! Suc 0 = 30000000"
    by (simp add: tfa_eval demo_tfa_flows_def)
  from tfa_result_consistent [OF tfa_demo demo_tfa_flows_u64] obtain bursts where
    flows: "\<forall>i < length demo_tfa_flows. let f = demo_tfa_flows ! i; b = bursts ! i in
        length b = length (path f)
      \<and> (path f \<noteq> [] \<longrightarrow> b ! 0 = burst_bytes (alpha f))
      \<and> (\<forall>j. Suc j < length (path f) \<longrightarrow>
            b ! Suc j = sat_add (b ! j) (bits_to_bytes_in_window (sustained_rate_bps (alpha f))
                                           ([22000000, 21216000] ! (path f ! j))))
      \<and> [43216000, 21216000] ! i = min (\<Sum>h\<leftarrow>path f. [22000000, 21216000] ! h) u64_max"
    and servers: "\<forall>h < length demo_tfa_services.
        let \<alpha> = affine (agg_burst_of demo_tfa_flows (length demo_tfa_services) bursts ! h)
                  (agg_rate_of demo_tfa_flows (length demo_tfa_services) ! h)
        in sustained_rate_bps \<alpha> \<noteq> 0 \<longrightarrow>
             delay_bound \<alpha> (demo_tfa_services ! h) = Inr ([22000000, 21216000] ! h)
           \<and> (\<forall>t. t + [22000000, 21216000] ! h \<le> u64_max \<longrightarrow>
                  arrival_at \<alpha> t \<le> service_at (demo_tfa_services ! h) (t + [22000000, 21216000] ! h))"
    by auto
  from spec [OF flows, of 0] have "bursts ! 0 ! 0 = 1500 \<and> bursts ! 0 ! 1 = 1527"
    by (simp add: demo_tfa_flows_def Let_def tfa_eval)
  moreover from spec [OF servers, of 1] have
    "delay_bound (affine (agg_burst_of demo_tfa_flows 2 bursts ! 1) (agg_rate_of demo_tfa_flows 2 ! 1))
         (demo_tfa_services ! 1) = Inr 21216000"
    by (simp add: demo_tfa_services_def Let_def affine_def numeral_2_eq_2 [symmetric] rate)
  ultimately show ?thesis by blast
qed

text \<open>C34. The reported delays are the tightest the method allows: any assignment of input bursts that
  starts at or above the flows' own bursts and that one round of propagation does not raise gives
  server delays at least as large.\<close>

theorem tfa_result_least:
  assumes "tfa_bound flows services = Some (Inr res)" and "flows_u64 flows"
    and "rates = agg_rate_of flows (length services)"
    and "shaped flows bursts" and "burst_le (initial_bursts flows) bursts"
    and "burst_le (burst_step flows services rates bursts) bursts"
    and "h < length services"
  shows "server_delay_ps res ! h \<le> delays_of flows services rates bursts ! h"
proof -
  obtain n bs where bs: "bs = (burst_step flows services rates ^^ n) (initial_bursts flows)"
    and "server_delay_ps res = delays_of flows services rates bs"
    by (rule tfa_bound_Inr_obtain [OF assms(1,2,3)]) simp
  with tfa_iterates_below [OF tfa_bound_InrD(3) [OF assms(1)] assms(4-6), of n] show ?thesis
    by (auto simp: network_le_def intro: delays_mono assms(7))
qed

theorem tfa_result_least_witness:
  "server_delay_ps \<lparr>server_delay_ps = [22000000, 21216000], flow_delay_ps = [43216000, 21216000],
      iterations = 2\<rparr> ! 1
    \<le> delays_of demo_tfa_flows demo_tfa_services (agg_rate_of demo_tfa_flows (length demo_tfa_services)) [[1600, 1700], [600]] ! 1"
  by (rule tfa_result_least [OF tfa_demo demo_tfa_flows_u64])
    (simp_all add: tfa_eval demo_tfa_flows_def demo_tfa_services_def shaped_def burst_le_def burst_step_def
      step_flow_def delays_of_def)



text \<open>A server crossed only by flows with a burst and no sustained rate is treated as unloaded: the
  reported delay is 0 although the burst needs the service latency and its transmission time.\<close>

theorem tfa_zero_rate_burst_unbounded:
  "let \<alpha> = affine 1500 0; \<beta> = rate_latency 1000000000 10000000 in
     tfa_bound [\<lparr>alpha = \<alpha>, path = [0]\<rparr>] [\<beta>] =
       Some (Inr \<lparr>server_delay_ps = [0], flow_delay_ps = [0], iterations = 1\<rparr>)
     \<and> delay_bound \<alpha> \<beta> = Inr 22000000 \<and> service_at \<beta> 21999999 < arrival_at \<alpha> 1"
  by (simp add: tfa_eval arrival_at_def service_at_def Let_def)

end
