(* ===== verification/Cqf.thy ===== *)
theory Cqf
  imports Spar_Prelude
begin

text \<open>
  Cyclic Queuing and Forwarding, \<^verbatim>\<open>crates/spar-network/src/cqf.rs\<close>: delay and budget formulas, the
  long-link cycle advance, and the two synthesis procedures.

  \<^verbatim>\<open>BTreeMap<u32, u128>\<close> is an association list sorted by key, so that the iteration order of
  the source (the order in which an oversubscribed link is found) is the order of the list. A
  panic (a failed \<^verbatim>\<open>debug_assert!\<close>, an overflowing \<^verbatim>\<open>+\<close> of a debug build) is \<open>None\<close>;
  \<^verbatim>\<open>as u32\<close> and \<^verbatim>\<open>as u64\<close> are remainders. Error values are \<open>Inl\<close>.

  The cycle timeline that the source's comments describe (a frame that arrives in a cycle is
  forwarded in the next, within the window before the dead time) is the step relation
  \<open>frame_run\<close>, against which the delay bounds are proved.
\<close>

section \<open>Flows, schedules, errors\<close>

record link_delay =
  min_ps :: u64
  max_ps :: u64

record cqf_flow =
  flow_id :: u32
  reserved_bits_per_cycle :: u64
  deadline_ps :: u64
  path :: "u32 list"
  link_delays :: "link_delay list"

record cqf_schedule =
  cycle_time_ps :: u64
  csize_bits :: u128
  per_link_bits :: "(u32 \<times> u128) list"

datatype cqf_synth_error =
    NoFlows
  | EmptyPath u32
  | DegenerateFlow u32
  | DuplicateFlowId u32
  | ZeroLinkRate
  | DeadlineTooTight u32 u32 u64
  | Oversubscribed u32 u128 u128
  | SelfCheck string
  | DeadTimeTooLarge u64 u64
  | LinkDelayLenMismatch u32 usize usize
  | BufferBudgetExceeded u32 u32
  | LongLinkDeadlineTooTight u32


section \<open>Delay and budget formulas\<close>

definition as_u32 :: "nat \<Rightarrow> u32" where
  "as_u32 n = n mod 2 ^ 32"

definition cqf_delay_max_ps :: "u32 \<Rightarrow> u64 \<Rightarrow> u128" where
  "cqf_delay_max_ps hops cycle_ps = (hops + 1) * cycle_ps"

definition cqf_delay_min_ps :: "u32 \<Rightarrow> u64 \<Rightarrow> u128" where
  "cqf_delay_min_ps hops cycle_ps = (hops - 1) * cycle_ps"

definition cqf_cycle_budget_bits :: "u64 \<Rightarrow> u64 \<Rightarrow> u128" where
  "cqf_cycle_budget_bits cycle_ps link_rate_bps = link_rate_bps * cycle_ps div 1000000000000"

definition cqf_hop_advance_cycles :: "u64 \<Rightarrow> u64 \<Rightarrow> u64 \<Rightarrow> u64 option" where
  "cqf_hop_advance_cycles link_delay_ps dead_time_ps cycle_ps =
     (if \<not> dead_time_ps < cycle_ps then None
      else let numerator = int link_delay_ps - int dead_time_ps
           in Some (nat ((2 + numerator div int cycle_ps) mod 2 ^ 64)))"

definition cqf_delay_max_longlink_ps :: "u64 list \<Rightarrow> u64 \<Rightarrow> u64 \<Rightarrow> u128 option" where
  "cqf_delay_max_longlink_ps link_delays_max_ps dead_time_ps cycle_ps =
     map_option (\<lambda>ks. cycle_ps + cycle_ps * sum_list ks)
       (those (map (\<lambda>d. cqf_hop_advance_cycles d dead_time_ps cycle_ps) link_delays_max_ps))"

definition cqf_delay_min_longlink_ps :: "u64 list \<Rightarrow> u64 \<Rightarrow> u64 \<Rightarrow> u128 option" where
  "cqf_delay_min_longlink_ps link_delays_min_ps dead_time_ps cycle_ps =
     (if link_delays_min_ps = [] then Some 0
      else map_option (\<lambda>ks. cycle_ps * sum_list ks)
        (those (map (\<lambda>d. cqf_hop_advance_cycles d dead_time_ps cycle_ps) (butlast link_delays_min_ps))))"

definition cqf_cycle_budget_bits_with_dead_time :: "u64 \<Rightarrow> u64 \<Rightarrow> u64 \<Rightarrow> u128" where
  "cqf_cycle_budget_bits_with_dead_time cycle_ps dead_time_ps link_rate_bps =
     link_rate_bps * sat_sub cycle_ps dead_time_ps div 1000000000000"

fun buffer_loop :: "u64 \<Rightarrow> u64 \<Rightarrow> link_delay list \<Rightarrow> u32 \<Rightarrow> u32 option" where
  "buffer_loop dead_time_ps cycle_ps [] needed = Some needed"
| "buffer_loop dead_time_ps cycle_ps (ld # lds) needed = do {
     k_max \<leftarrow> cqf_hop_advance_cycles (max_ps ld) dead_time_ps cycle_ps;
     k_min \<leftarrow> cqf_hop_advance_cycles (min_ps ld) dead_time_ps cycle_ps;
     let jitter = as_u32 (sat_sub k_max k_min);
     if jitter + 2 \<ge> 2 ^ 32 then None
     else buffer_loop dead_time_ps cycle_ps lds (max needed (jitter + 2))
   }"

definition cqf_buffer_count :: "link_delay list \<Rightarrow> u64 \<Rightarrow> u64 \<Rightarrow> u32 \<Rightarrow> (u32 + u32) option" where
  "cqf_buffer_count lds dead_time_ps cycle_ps cap =
     map_option (\<lambda>needed. if needed > cap then Inl needed else Inr needed)
       (buffer_loop dead_time_ps cycle_ps lds 3)"


section \<open>Synthesis\<close>

text \<open>\<^verbatim>\<open>*map.entry(k).or_insert(0) += v\<close>\<close>

fun entry_add :: "u32 \<Rightarrow> u128 \<Rightarrow> (u32 \<times> u128) list \<Rightarrow> (u32 \<times> u128) list" where
  "entry_add k v [] = [(k, v)]"
| "entry_add k v ((k', v') # m) =
     (if k < k' then (k, v) # (k', v') # m
      else if k = k' then (k', v' + v) # m
      else (k', v') # entry_add k v m)"

fun validate_flows :: "u32 list \<Rightarrow> cqf_flow list \<Rightarrow> cqf_synth_error option" where
  "validate_flows seen_ids [] = None"
| "validate_flows seen_ids (f # fs) =
     (if flow_id f \<in> set seen_ids then Some (DuplicateFlowId (flow_id f))
      else if path f = [] then Some (EmptyPath (flow_id f))
      else if reserved_bits_per_cycle f = 0 \<or> deadline_ps f = 0 then Some (DegenerateFlow (flow_id f))
      else validate_flows (flow_id f # seen_ids) fs)"

definition flow_limit_ps :: "cqf_flow \<Rightarrow> u64" where
  "flow_limit_ps f = deadline_ps f div (as_u32 (length (path f)) + 1)"

definition floor_ns :: "u64 \<Rightarrow> u64" where
  "floor_ns t = t div 1000 * 1000"

text \<open>\<^verbatim>\<open>Iterator::min_by_key\<close> returns the first of the minimal elements.\<close>

fun min_by_key :: "('a \<Rightarrow> nat) \<Rightarrow> 'a list \<Rightarrow> 'a option" where
  "min_by_key key [] = None"
| "min_by_key key (x # xs) = Some (fold (\<lambda>y best. if key y < key best then y else best) xs x)"

definition aggregate_links :: "cqf_flow list \<Rightarrow> (u32 \<times> u128) list" where
  "aggregate_links flows =
     fold (\<lambda>f m. fold (\<lambda>link m. entry_add link (reserved_bits_per_cycle f) m) (path f) m) flows []"

definition first_oversubscribed :: "u128 \<Rightarrow> (u32 \<times> u128) list \<Rightarrow> cqf_synth_error option" where
  "first_oversubscribed csize m =
     map_option (\<lambda>(link, required). Oversubscribed link required csize)
       (find (\<lambda>(_, required). required > csize) m)"

definition self_check :: "cqf_schedule \<Rightarrow> cqf_flow list \<Rightarrow> cqf_synth_error option" where
  "self_check schedule flows =
     (if \<exists>f \<in> set flows. cqf_delay_max_ps (as_u32 (length (path f))) (cycle_time_ps schedule) > deadline_ps f
      then Some (SelfCheck ''flow delay exceeds deadline'')
      else if \<exists>(_, required) \<in> set (per_link_bits schedule). required > csize_bits schedule
      then Some (SelfCheck ''link reservation exceeds csize'')
      else None)"

definition synthesize_cqf :: "cqf_flow list \<Rightarrow> u64 \<Rightarrow> cqf_synth_error + cqf_schedule" where
  "synthesize_cqf flows link_rate_bps =
     (if flows = [] then Inl NoFlows
      else if link_rate_bps = 0 then Inl ZeroLinkRate
      else case validate_flows [] flows of
        Some e \<Rightarrow> Inl e
      | None \<Rightarrow>
         let cycle_ps = floor_ns (fold (\<lambda>f c. min c (flow_limit_ps f)) flows u64_max)
         in if cycle_ps = 0
         then (let tightest = the (min_by_key flow_limit_ps flows)
               in Inl (DeadlineTooTight (flow_id tightest) (as_u32 (length (path tightest))) (deadline_ps tightest)))
         else let csize = cqf_cycle_budget_bits cycle_ps link_rate_bps;
                  per_link = aggregate_links flows
         in case first_oversubscribed csize per_link of
           Some e \<Rightarrow> Inl e
         | None \<Rightarrow>
            let schedule = \<lparr>cycle_time_ps = cycle_ps, csize_bits = csize, per_link_bits = per_link\<rparr>
            in case self_check schedule flows of Some e \<Rightarrow> Inl e | None \<Rightarrow> Inr schedule)"

definition CQF_DEFAULT_BUFFER_CAP :: u32 where
  "CQF_DEFAULT_BUFFER_CAP = 7"

record cqf_long_link_schedule =
  ll_cycle_time_ps :: u64
  ll_dead_time_ps :: u64
  ll_csize_bits :: u128
  ll_per_link_bits :: "(u32 \<times> u128) list"
  ll_buffers :: u32

fun validate_flows_longlink :: "u32 list \<Rightarrow> cqf_flow list \<Rightarrow> cqf_synth_error option" where
  "validate_flows_longlink seen_ids [] = None"
| "validate_flows_longlink seen_ids (f # fs) =
     (if flow_id f \<in> set seen_ids then Some (DuplicateFlowId (flow_id f))
      else if path f = [] then Some (EmptyPath (flow_id f))
      else if reserved_bits_per_cycle f = 0 \<or> deadline_ps f = 0 then Some (DegenerateFlow (flow_id f))
      else if link_delays f \<noteq> [] \<and> length (link_delays f) \<noteq> length (path f)
      then Some (LinkDelayLenMismatch (flow_id f) (length (path f)) (length (link_delays f)))
      else validate_flows_longlink (flow_id f # seen_ids) fs)"

text \<open>\<^verbatim>\<open>flow.link_delays.get(i)\<close> with its default, for every hop of the path.\<close>

definition hop_delay :: "cqf_flow \<Rightarrow> nat \<Rightarrow> link_delay" where
  "hop_delay f i = (if i < length (link_delays f) then link_delays f ! i else \<lparr>min_ps = 0, max_ps = 0\<rparr>)"

definition hop_max :: "cqf_flow \<Rightarrow> nat \<Rightarrow> u64" where
  "hop_max f i = (if i < length (link_delays f) then max_ps (link_delays f ! i) else 0)"

definition sum_k :: "u64 \<Rightarrow> cqf_flow \<Rightarrow> u64" where
  "sum_k dead_time_ps f = fold (\<lambda>i acc. acc + (if hop_max f i < dead_time_ps then 1 else 2)) [0..<length (path f)] 0"

text \<open>The selection loop: cycle limit, id of the flow that set it, largest link delay.\<close>

fun select_cycle :: "u64 \<Rightarrow> cqf_flow list \<Rightarrow> u64 \<times> u32 \<times> u64 \<Rightarrow> u64 \<times> u32 \<times> u64" where
  "select_cycle dead_time_ps [] acc = acc"
| "select_cycle dead_time_ps (f # fs) (cycle_ps, tightest_id, max_link_delay_ps) =
     (let max_link_delay_ps = fold (\<lambda>i m. max m (hop_max f i)) [0..<length (path f)] max_link_delay_ps;
          limit_ps = deadline_ps f div (1 + sum_k dead_time_ps f)
      in select_cycle dead_time_ps fs
           (if limit_ps < cycle_ps then (limit_ps, flow_id f, max_link_delay_ps)
            else (cycle_ps, tightest_id, max_link_delay_ps)))"

definition all_hops :: "cqf_flow list \<Rightarrow> link_delay list" where
  "all_hops flows = concat (map (\<lambda>f. map (hop_delay f) [0..<length (path f)]) flows)"

text \<open>The final loop over the flows, stopping at the first that misses its deadline.\<close>

fun certify_longlink :: "u64 \<Rightarrow> u64 \<Rightarrow> cqf_flow list \<Rightarrow> cqf_synth_error option option" where
  "certify_longlink dead_time_ps cycle_ps [] = Some None"
| "certify_longlink dead_time_ps cycle_ps (f # fs) = do {
     d \<leftarrow> cqf_delay_max_longlink_ps (map (hop_max f) [0..<length (path f)]) dead_time_ps cycle_ps;
     if d > deadline_ps f then Some (Some (SelfCheck ''long-link flow delay exceeds deadline''))
     else certify_longlink dead_time_ps cycle_ps fs
   }"

definition synthesize_cqf_longlink ::
    "cqf_flow list \<Rightarrow> u64 \<Rightarrow> u64 \<Rightarrow> u32 \<Rightarrow> (cqf_synth_error + cqf_long_link_schedule) option" where
  "synthesize_cqf_longlink flows link_rate_bps dead_time_ps buffer_cap =
     (if flows = [] then Some (Inl NoFlows)
      else if link_rate_bps = 0 then Some (Inl ZeroLinkRate)
      else case validate_flows_longlink [] flows of
        Some e \<Rightarrow> Some (Inl e)
      | None \<Rightarrow>
         let (limit, tightest_id, max_link_delay_ps) =
               select_cycle dead_time_ps flows (u64_max, flow_id (hd flows), 0);
             cycle_ps = floor_ns limit
         in if cycle_ps = 0 \<or> cycle_ps \<le> max_link_delay_ps
         then Some (Inl (LongLinkDeadlineTooTight tightest_id))
         else if dead_time_ps \<ge> cycle_ps then Some (Inl (DeadTimeTooLarge dead_time_ps cycle_ps))
         else let csize = cqf_cycle_budget_bits_with_dead_time cycle_ps dead_time_ps link_rate_bps;
                  per_link = aggregate_links flows
         in case first_oversubscribed csize per_link of
           Some e \<Rightarrow> Some (Inl e)
         | None \<Rightarrow>
           (case cqf_buffer_count (all_hops flows) dead_time_ps cycle_ps buffer_cap of
              None \<Rightarrow> None
            | Some (Inl needed) \<Rightarrow> Some (Inl (BufferBudgetExceeded needed buffer_cap))
            | Some (Inr b) \<Rightarrow>
               (case certify_longlink dead_time_ps cycle_ps flows of
                  None \<Rightarrow> None
                | Some (Some e) \<Rightarrow> Some (Inl e)
                | Some None \<Rightarrow>
                    Some (Inr \<lparr>ll_cycle_time_ps = cycle_ps, ll_dead_time_ps = dead_time_ps,
                               ll_csize_bits = csize, ll_per_link_bits = per_link, ll_buffers = b\<rparr>))))"


section \<open>Cycle selection\<close>

text \<open>Both procedures take the smallest of the per-flow limits \<open>deadline / weight\<close>, rounded down to
  a whole nanosecond. The interface is the weight of a flow and its deadline; that the choice meets
  every deadline and is the largest that does so follows once.\<close>

locale cycle_selection =
  fixes weight :: "'f \<Rightarrow> nat" and deadline :: "'f \<Rightarrow> u64"
  assumes weight_pos: "0 < weight f"
begin

lemma limit_le_iff: "t \<le> fold (\<lambda>f c. min c (deadline f div weight f)) fs c
    \<longleftrightarrow> t \<le> c \<and> (\<forall>f \<in> set fs. weight f * t \<le> deadline f)"
  by (induction fs arbitrary: c) (auto simp: less_eq_div_iff_mult_less_eq weight_pos mult.commute)

lemma floor_ns_le: "floor_ns t \<le> t"
  by (simp add: floor_ns_def)

lemma meets_deadline:
  "f \<in> set fs \<Longrightarrow> weight f * floor_ns (fold (\<lambda>f c. min c (deadline f div weight f)) fs c) \<le> deadline f"
  using limit_le_iff [of "floor_ns (fold (\<lambda>f c. min c (deadline f div weight f)) fs c)" fs c] floor_ns_le by blast

lemma greatest:
  assumes "1000 dvd t" "t \<le> c" "\<forall>f \<in> set fs. weight f * t \<le> deadline f"
  shows "t \<le> floor_ns (fold (\<lambda>f c. min c (deadline f div weight f)) fs c)"
proof -
  let ?m = "fold (\<lambda>f c. min c (deadline f div weight f)) fs c"
  from assms(1) obtain q where q: "t = q * 1000" by (metis dvd_def mult.commute)
  from assms(2,3) have "t \<le> ?m" by (simp add: limit_le_iff)
  with q have "q \<le> ?m div 1000" by (simp add: less_eq_div_iff_mult_less_eq)
  with q show ?thesis by (simp add: floor_ns_def)
qed

end

interpretation std: cycle_selection "\<lambda>f. as_u32 (length (path f)) + 1" deadline_ps
  by unfold_locales simp

interpretation longlink: cycle_selection "\<lambda>f. 1 + sum_k dead_time_ps f" deadline_ps
  for dead_time_ps
  by unfold_locales simp


section \<open>Link loads\<close>

definition link_load :: "cqf_flow list \<Rightarrow> u32 \<Rightarrow> nat" where
  "link_load flows link = (\<Sum>f\<leftarrow>flows. reserved_bits_per_cycle f * count_list (path f) link)"

lemma entry_add_keys: "fst ` set (entry_add k v m) = insert k (fst ` set m)"
  by (induction k v m rule: entry_add.induct) auto

lemma entry_add_sorted: "sorted_wrt (<) (map fst m) \<Longrightarrow> sorted_wrt (<) (map fst (entry_add k v m))"
proof (induction k v m rule: entry_add.induct)
  case (2 k v k' v' m)
  then show ?case using entry_add_keys [of k v m] by (auto simp: image_iff)
qed simp

definition value_of :: "(u32 \<times> u128) list \<Rightarrow> u32 \<Rightarrow> nat" where
  "value_of m k = (case map_of m k of Some v \<Rightarrow> v | None \<Rightarrow> 0)"

lemma value_of_entry_add:
  "sorted_wrt (<) (map fst m) \<Longrightarrow> value_of (entry_add k v m) x = value_of m x + (if x = k then v else 0)"
proof (induction k v m rule: entry_add.induct)
  case (2 k v k' v' m)
  have "map_of m k = None" if "k < k'"
    using that 2 by (auto simp: map_of_eq_None_iff)
  with 2 show ?case by (auto simp: value_of_def)
qed (simp add: value_of_def)

lemma entry_add_fold:
  assumes "sorted_wrt (<) (map fst m)"
  shows "sorted_wrt (<) (map fst (fold (\<lambda>link m. entry_add link v m) ls m))"
    and "fst ` set (fold (\<lambda>link m. entry_add link v m) ls m) = set ls \<union> fst ` set m"
    and "value_of (fold (\<lambda>link m. entry_add link v m) ls m) x = value_of m x + v * count_list ls x"
  using assms
  by (induction ls arbitrary: m)
    (auto simp: entry_add_sorted entry_add_keys value_of_entry_add)

lemma aggregate_fold:
  assumes "sorted_wrt (<) (map fst m)"
  defines "agg \<equiv> fold (\<lambda>f m. fold (\<lambda>link m. entry_add link (reserved_bits_per_cycle f) m) (path f) m)"
  shows "sorted_wrt (<) (map fst (agg flows m))"
    and "fst ` set (agg flows m) = (\<Union>f \<in> set flows. set (path f)) \<union> fst ` set m"
    and "value_of (agg flows m) x = value_of m x + link_load flows x"
  using assms(1) unfolding agg_def
  by (induction flows arbitrary: m) (auto simp: entry_add_fold link_load_def)

lemma aggregate_links_sorted: "sorted_wrt (<) (map fst (aggregate_links flows))"
  unfolding aggregate_links_def by (rule aggregate_fold) simp

lemma set_aggregate_links:
  "set (aggregate_links flows) = (\<lambda>l. (l, link_load flows l)) ` (\<Union>f \<in> set flows. set (path f))"
proof -
  let ?m = "aggregate_links flows"
  have keys: "fst ` set ?m = (\<Union>f \<in> set flows. set (path f))"
    and load: "\<And>l. value_of ?m l = link_load flows l"
    unfolding aggregate_links_def using aggregate_fold(2,3) [of "[]" flows] by (simp_all add: value_of_def)
  have "distinct (map fst ?m)"
    using aggregate_links_sorted [of flows] by (simp add: strict_sorted_iff)
  then have "v = value_of ?m l" if "(l, v) \<in> set ?m" for l v
    using that by (simp add: value_of_def)
  with load have pair: "v = link_load flows l" if "(l, v) \<in> set ?m" for l v
    using that by metis
  show ?thesis unfolding keys [symmetric] using pair by force
qed

lemma first_oversubscribed_None:
  "first_oversubscribed csize m = None \<longleftrightarrow> (\<forall>(l, required) \<in> set m. required \<le> csize)"
  by (auto simp: first_oversubscribed_def find_None_iff not_less)

lemma admitted_iff:
  "first_oversubscribed csize (aggregate_links flows) = None
     \<longleftrightarrow> (\<forall>f \<in> set flows. \<forall>l \<in> set (path f). link_load flows l \<le> csize)"
  by (auto simp: first_oversubscribed_None set_aggregate_links)

lemma first_oversubscribed_Some:
  "first_oversubscribed csize m = Some e \<Longrightarrow>
     \<exists>l required. e = Oversubscribed l required csize \<and> (l, required) \<in> set m \<and> csize < required"
  by (auto simp: first_oversubscribed_def find_Some_iff) (metis nth_mem)


section \<open>Validated input\<close>

definition valid_flow :: "cqf_flow \<Rightarrow> bool" where
  "valid_flow f \<longleftrightarrow> path f \<noteq> [] \<and> reserved_bits_per_cycle f \<noteq> 0 \<and> deadline_ps f \<noteq> 0"

definition delays_parallel :: "cqf_flow \<Rightarrow> bool" where
  "delays_parallel f \<longleftrightarrow> link_delays f = [] \<or> length (link_delays f) = length (path f)"

lemma validate_flows_None:
  "validate_flows seen flows = None \<longleftrightarrow>
     distinct (map flow_id flows) \<and> set (map flow_id flows) \<inter> set seen = {} \<and> (\<forall>f \<in> set flows. valid_flow f)"
  by (induction seen flows rule: validate_flows.induct) (auto simp: valid_flow_def)

lemma validate_flows_longlink_None:
  "validate_flows_longlink seen flows = None \<longleftrightarrow>
     validate_flows seen flows = None \<and> (\<forall>f \<in> set flows. delays_parallel f)"
  by (induction seen flows rule: validate_flows.induct) (auto simp: delays_parallel_def)

lemma validate_flows_error:
  "validate_flows seen flows = Some e \<Longrightarrow>
     \<exists>f \<in> set flows. e = DuplicateFlowId (flow_id f) \<or> e = EmptyPath (flow_id f) \<and> path f = []
       \<or> e = DegenerateFlow (flow_id f) \<and> (reserved_bits_per_cycle f = 0 \<or> deadline_ps f = 0)"
  by (induction seen flows rule: validate_flows.induct) (auto split: if_splits)

lemma validate_flows_longlink_error:
  "validate_flows_longlink seen flows = Some e \<Longrightarrow>
     \<exists>f \<in> set flows. e = DuplicateFlowId (flow_id f) \<or> e = EmptyPath (flow_id f) \<and> path f = []
       \<or> e = DegenerateFlow (flow_id f) \<and> (reserved_bits_per_cycle f = 0 \<or> deadline_ps f = 0)
       \<or> e = LinkDelayLenMismatch (flow_id f) (length (path f)) (length (link_delays f)) \<and> \<not> delays_parallel f"
  by (induction seen flows rule: validate_flows_longlink.induct) (auto simp: delays_parallel_def split: if_splits)

lemma min_by_key_least:
  assumes "flows \<noteq> []" "min_by_key key flows = Some f"
  shows "f \<in> set flows \<and> (\<forall>g \<in> set flows. key f \<le> key g)"
proof -
  have "fold (\<lambda>y best. if key y < key best then y else best) xs x \<in> set (x # xs)
     \<and> (\<forall>g \<in> set (x # xs). key (fold (\<lambda>y best. if key y < key best then y else best) xs x) \<le> key g)" for xs x
    by (induction xs arbitrary: x) (force+)
  with assms show ?thesis by (cases flows) auto
qed

lemma self_check_passes:
  assumes "\<forall>f \<in> set flows. (as_u32 (length (path f)) + 1) * cycle_time_ps s \<le> deadline_ps f"
    and "first_oversubscribed (csize_bits s) (per_link_bits s) = None"
  shows "self_check s flows = None"
  using assms by (fastforce simp: self_check_def cqf_delay_max_ps_def first_oversubscribed_None)



section \<open>Cycle advance in closed form\<close>

lemma hop_advance_eq:
  assumes "dt < t" "2 \<le> t" "d \<le> u64_max"
  shows "cqf_hop_advance_cycles d dt t = Some ((d + (t - dt)) div t + 1)"
proof -
  have "2 + (int d - int dt) div int t = (int d - int dt + int t) div int t + 1"
    using assms div_add_self2 [of "int t" "int d - int dt"] by linarith
  also have "int d - int dt + int t = int (d + (t - dt))" using assms by simp
  finally have eq: "2 + (int d - int dt) div int t = int ((d + (t - dt)) div t + 1)"
    by (simp add: zdiv_int)
  have "(d + (t - dt)) div t \<le> (d + t) div t" by (simp add: div_le_mono)
  also have "\<dots> \<le> d div 2 + 1" using assms div_add_self2 [of t d] div_le_mono2 [of 2 t d] by linarith
  finally have "(d + (t - dt)) div t + 1 \<le> d div 2 + 2" by simp
  also have "\<dots> < 2 ^ 64" using assms(3) by (simp add: u64_max_def)
  finally have "int ((d + (t - dt)) div t + 1) < 2 ^ 64"
    by (metis of_nat_less_iff of_nat_numeral of_nat_power)
  then have "int ((d + (t - dt)) div t + 1) mod 2 ^ 64 = int ((d + (t - dt)) div t + 1)"
    by (intro mod_pos_pos_trivial) simp_all
  then show ?thesis using assms(1) by (simp only: cqf_hop_advance_cycles_def Let_def eq) simp
qed

text \<open>In cycles longer than the link, a hop takes one cycle if the link is shorter than the dead
  time and two otherwise.\<close>

lemma hop_advance_regime:
  assumes "dt < t" "d < t" "2 \<le> t" "d \<le> u64_max"
  shows "cqf_hop_advance_cycles d dt t = Some (if d < dt then 1 else 2)"
proof (cases "d < dt")
  case True
  then have "(d + (t - dt)) div t = 0" using assms by simp
  with True show ?thesis by (simp only: hop_advance_eq [OF assms(1,3,4)]) simp
next
  case False
  have "(d + (t - dt)) div t = 1"
    using False assms by (intro div_nat_eqI) simp_all
  with False show ?thesis by (simp only: hop_advance_eq [OF assms(1,3,4)]) simp
qed

lemma delay_max_longlink_eq:
  assumes "\<And>d. d \<in> set ds \<Longrightarrow> cqf_hop_advance_cycles d dt t = Some (k d)"
  shows "cqf_delay_max_longlink_ps ds dt t = Some (t * (1 + (\<Sum>d\<leftarrow>ds. k d)))"
  using those_map_Some [of ds "\<lambda>d. cqf_hop_advance_cycles d dt t" k] assms
  by (simp add: cqf_delay_max_longlink_ps_def algebra_simps)

lemma delay_min_longlink_eq:
  assumes "\<And>d. d \<in> set ds \<Longrightarrow> cqf_hop_advance_cycles d dt t = Some (k d)"
  shows "cqf_delay_min_longlink_ps ds dt t = Some (t * (\<Sum>d\<leftarrow>butlast ds. k d))"
  using those_map_Some [of "butlast ds" "\<lambda>d. cqf_hop_advance_cycles d dt t" k] assms
  by (auto simp: cqf_delay_min_longlink_ps_def dest: in_set_butlastD)

lemma sum_k_eq: "sum_k dt f = (\<Sum>i\<leftarrow>[0..<length (path f)]. if hop_max f i < dt then 1 else 2)"
proof -
  have "fold (\<lambda>i acc. acc + (if hop_max f i < dt then 1 else 2)) is a
      = a + (\<Sum>i\<leftarrow>is. if hop_max f i < dt then 1 else 2)" for "is" and a :: nat
    by (induction "is" arbitrary: a) auto
  then show ?thesis by (simp add: sum_k_def)
qed

lemma fold_max_hops: "fold (\<lambda>i m. max m (h i)) is (a::nat) < t \<longleftrightarrow> a < t \<and> (\<forall>i \<in> set is. h i < t)"
  by (induction "is" arbitrary: a) auto

lemma select_cycle_fst:
  "fst (select_cycle dt fs (c, i, m)) = fold (\<lambda>f c. min c (deadline_ps f div (1 + sum_k dt f))) fs c"
  by (induction fs arbitrary: c i m) (auto simp: Let_def min_def)

lemma select_cycle_delay:
  "snd (snd (select_cycle dt fs (c, i, m))) < t \<longleftrightarrow>
     m < t \<and> (\<forall>f \<in> set fs. \<forall>j < length (path f). hop_max f j < t)"
  by (induction fs arbitrary: c i m) (auto simp: Let_def fold_max_hops)

definition delays_u64 :: "cqf_flow list \<Rightarrow> bool" where
  "delays_u64 flows \<longleftrightarrow> (\<forall>f \<in> set flows. \<forall>ld \<in> set (link_delays f). min_ps ld \<le> u64_max \<and> max_ps ld \<le> u64_max)"

lemma hop_delay_u64:
  "delays_u64 flows \<Longrightarrow> f \<in> set flows \<Longrightarrow> min_ps (hop_delay f i) \<le> u64_max \<and> max_ps (hop_delay f i) \<le> u64_max"
  by (auto simp: delays_u64_def hop_delay_def)

lemma hop_max_delay: "hop_max f i = max_ps (hop_delay f i)"
  by (simp add: hop_max_def hop_delay_def)

lemma delay_max_regime:
  assumes "delays_u64 flows" "f \<in> set flows" "dt < t" "2 \<le> t" "\<forall>j < length (path f). hop_max f j < t"
  shows "cqf_delay_max_longlink_ps (map (hop_max f) [0..<length (path f)]) dt t = Some ((1 + sum_k dt f) * t)"
proof -
  have "cqf_hop_advance_cycles d dt t = Some (if d < dt then 1 else 2)"
    if "d \<in> set (map (hop_max f) [0..<length (path f)])" for d
    using that assms hop_delay_u64 [OF assms(1,2)]
    by (intro hop_advance_regime) (auto simp: hop_max_delay)
  from delay_max_longlink_eq [of "map (hop_max f) [0..<length (path f)]", OF this] show ?thesis
    by (simp add: sum_k_eq comp_def mult.commute)
qed

lemma buffer_loop_regime:
  assumes "dt < t" "2 \<le> t"
  shows "\<forall>ld \<in> set lds. max_ps ld < t \<and> max_ps ld \<le> u64_max \<and> min_ps ld \<le> u64_max \<Longrightarrow>
    buffer_loop dt t lds 3 = Some 3"
proof (induction lds)
  case (Cons ld lds)
  from Cons.prems have "cqf_hop_advance_cycles (max_ps ld) dt t = Some (if max_ps ld < dt then 1 else 2)"
    using assms by (intro hop_advance_regime) auto
  moreover from Cons.prems have "cqf_hop_advance_cycles (min_ps ld) dt t = Some ((min_ps ld + (t - dt)) div t + 1)"
    using assms by (intro hop_advance_eq) auto
  moreover have "as_u32 n + 2 < 2 ^ 32 \<and> max 3 (as_u32 n + 2) = 3" if "n \<le> 1" for n
    using that by (auto simp: as_u32_def)
  moreover have "(if max_ps ld < dt then 1 else 2) - ((min_ps ld + (t - dt)) div t + 1) \<le> (1::nat)" by auto
  ultimately have "buffer_loop dt t (ld # lds) 3 = buffer_loop dt t lds 3"
    by (simp only: buffer_loop.simps bind.bind_lunit Let_def sat_sub_diff) (simp only: not_le [symmetric] if_False simp_thms)
  with Cons show ?case by simp
qed simp

lemma certify_passes:
  assumes "\<forall>f \<in> set fs. \<exists>d \<le> deadline_ps f.
     cqf_delay_max_longlink_ps (map (hop_max f) [0..<length (path f)]) dt t = Some d"
  shows "certify_longlink dt t fs = Some None"
  using assms by (induction fs) auto



section \<open>The cycle timeline\<close>

text \<open>A frame present at time \<open>a\<close> is forwarded in the cycle after the one it arrived in, at any
  instant of that cycle's window before the dead time, and crosses the link in some time between the
  link's bounds. \<open>frame_run t dt ready hops arrival\<close>: it can be at its destination at \<open>arrival\<close>.\<close>

inductive frame_run :: "nat \<Rightarrow> nat \<Rightarrow> nat \<Rightarrow> link_delay list \<Rightarrow> nat \<Rightarrow> bool" for t dt where
  delivered: "frame_run t dt a [] a"
| forward: "\<lbrakk> c = a div t + 1; c * t \<le> send; send \<le> (c + 1) * t - dt; min_ps l \<le> d; d \<le> max_ps l;
      frame_run t dt (send + d) ls a' \<rbrakk> \<Longrightarrow> frame_run t dt a (l # ls) a'"

inductive_simps frame_run_Nil: "frame_run t dt a [] a'"
inductive_cases frame_run_ConsE: "frame_run t dt a (l # ls) a'"

lemma hop_cycles_bound:
  fixes t :: nat
  assumes "dt < t" "send \<le> (c + 1) * t - dt" "d \<le> m"
  shows "(send + d) div t + 1 \<le> c + ((m + (t - dt)) div t + 1)"
proof -
  have "(c + 1) * t = c * t + t" by (simp add: algebra_simps)
  with assms have "send + d \<le> m + (t - dt) + c * t" by linarith
  then have "(send + d) div t \<le> (m + (t - dt) + c * t) div t" by (rule div_le_mono)
  also have "\<dots> = (m + (t - dt)) div t + c"
    using assms(1) div_mult_self1 [of t "m + (t - dt)" c] by linarith
  finally show ?thesis by simp
qed

lemma frame_run_upper:
  "frame_run t dt a ls a' \<Longrightarrow> dt < t \<Longrightarrow>
     a' \<le> (a div t + 1 + (\<Sum>l\<leftarrow>ls. (max_ps l + (t - dt)) div t + 1)) * t"
proof (induction rule: frame_run.induct)
  case (delivered a)
  then show ?case by (metis add.right_neutral dividend_less_div_times less_imp_le_nat list.map(1) mult.commute
      mult_Suc_right Suc_eq_plus1 add.commute sum_list.Nil less_nat_zero_code not_gr_zero)
next
  case (forward c a send l d ls a')
  from hop_cycles_bound [OF forward.prems forward.hyps(3,5)]
  have "(send + d) div t + 1 + (\<Sum>l\<leftarrow>ls. (max_ps l + (t - dt)) div t + 1)
      \<le> a div t + 1 + (\<Sum>l\<leftarrow>l # ls. (max_ps l + (t - dt)) div t + 1)"
    using forward.hyps(1) by simp
  then have "((send + d) div t + 1 + (\<Sum>l\<leftarrow>ls. (max_ps l + (t - dt)) div t + 1)) * t
      \<le> (a div t + 1 + (\<Sum>l\<leftarrow>l # ls. (max_ps l + (t - dt)) div t + 1)) * t"
    by (rule mult_le_mono1)
  with forward.IH [OF forward.prems] show ?case by (rule order_trans)
qed

lemma frame_run_within:
  assumes "frame_run t dt a ls a'" "dt < t"
  shows "a' \<le> a + t * (1 + (\<Sum>l\<leftarrow>ls. (max_ps l + (t - dt)) div t + 1))"
proof -
  let ?k = "\<Sum>l\<leftarrow>ls. (max_ps l + (t - dt)) div t + 1"
  have "a' \<le> (a div t + 1 + ?k) * t"
    by (rule frame_run_upper [OF assms])
  also have "\<dots> = a div t * t + t * (1 + ?k)" by (simp add: algebra_simps)
  also have "\<dots> \<le> a + t * (1 + ?k)" by simp
  finally show ?thesis .
qed

text \<open>Link delays of the range the formulas are meant for.\<close>

definition links_ok :: "link_delay list \<Rightarrow> bool" where
  "links_ok lds \<longleftrightarrow> (\<forall>l \<in> set lds. min_ps l \<le> max_ps l \<and> max_ps l \<le> u64_max)"

lemma delay_max_eq:
  assumes "dt < t" "2 \<le> t" "links_ok lds"
  shows "cqf_delay_max_longlink_ps (map max_ps lds) dt t
    = Some (t * (1 + (\<Sum>l\<leftarrow>lds. (max_ps l + (t - dt)) div t + 1)))"
proof -
  have "cqf_hop_advance_cycles d dt t = Some ((d + (t - dt)) div t + 1)" if "d \<in> set (map max_ps lds)" for d
    using that assms by (intro hop_advance_eq) (auto simp: links_ok_def)
  from delay_max_longlink_eq [of "map max_ps lds", OF this] show ?thesis by (simp add: comp_def)
qed

lemma delay_min_eq:
  assumes "dt < t" "2 \<le> t" "links_ok lds"
  shows "cqf_delay_min_longlink_ps (map min_ps lds) dt t
    = Some (t * (\<Sum>l\<leftarrow>butlast lds. (min_ps l + (t - dt)) div t + 1))"
proof -
  have "cqf_hop_advance_cycles d dt t = Some ((d + (t - dt)) div t + 1)" if "d \<in> set (map min_ps lds)" for d
    using that assms by (intro hop_advance_eq) (auto simp: links_ok_def)
  from delay_min_longlink_eq [of "map min_ps lds", OF this] show ?thesis by (simp add: comp_def map_butlast)
qed


section \<open>Outcomes of the two procedures\<close>

lemma as_u32_small [simp]: "n < 2 ^ 32 \<Longrightarrow> as_u32 n = n"
  by (simp add: as_u32_def)

lemma floor_ns_dvd [simp]: "1000 dvd floor_ns t"
  by (simp add: floor_ns_def)

definition std_cycle :: "cqf_flow list \<Rightarrow> u64" where
  "std_cycle flows = floor_ns (fold (\<lambda>f c. min c (flow_limit_ps f)) flows u64_max)"

definition ll_cycle :: "u64 \<Rightarrow> cqf_flow list \<Rightarrow> u64" where
  "ll_cycle dt flows = floor_ns (fold (\<lambda>f c. min c (deadline_ps f div (1 + sum_k dt f))) flows u64_max)"

definition accepted :: "cqf_flow list \<Rightarrow> u64 \<Rightarrow> bool" where
  "accepted flows rate \<longleftrightarrow> flows \<noteq> [] \<and> rate \<noteq> 0 \<and> distinct (map flow_id flows) \<and> (\<forall>f \<in> set flows. valid_flow f)"

definition admits :: "cqf_flow list \<Rightarrow> u128 \<Rightarrow> bool" where
  "admits flows csize \<longleftrightarrow> (\<forall>f \<in> set flows. \<forall>l \<in> set (path f). link_load flows l \<le> csize)"

lemma accepted_validate: "accepted flows rate \<longleftrightarrow> flows \<noteq> [] \<and> rate \<noteq> 0 \<and> validate_flows [] flows = None"
  by (auto simp: accepted_def validate_flows_None)

lemma std_cycle_self_check:
  assumes "admits flows csize"
  shows "self_check \<lparr>cycle_time_ps = std_cycle flows, csize_bits = csize, per_link_bits = aggregate_links flows\<rparr> flows = None"
  using assms std.meets_deadline [of _ flows u64_max]
  by (intro self_check_passes) (auto simp: admitted_iff admits_def std_cycle_def flow_limit_ps_def)

text \<open>What \<open>synthesize_cqf\<close> returns on input that passes validation.\<close>

lemma synthesize_cqf_accepted:
  assumes "accepted flows rate"
  defines "csize \<equiv> cqf_cycle_budget_bits (std_cycle flows) rate"
  shows "synthesize_cqf flows rate =
    (if std_cycle flows = 0
     then let f = the (min_by_key flow_limit_ps flows)
          in Inl (DeadlineTooTight (flow_id f) (as_u32 (length (path f))) (deadline_ps f))
     else case first_oversubscribed csize (aggregate_links flows) of
        Some e \<Rightarrow> Inl e
      | None \<Rightarrow> Inr \<lparr>cycle_time_ps = std_cycle flows, csize_bits = csize, per_link_bits = aggregate_links flows\<rparr>)"
proof -
  have "self_check \<lparr>cycle_time_ps = std_cycle flows, csize_bits = csize, per_link_bits = aggregate_links flows\<rparr> flows = None"
    if "first_oversubscribed csize (aggregate_links flows) = None"
    using that by (intro std_cycle_self_check) (simp add: admitted_iff admits_def)
  with assms show ?thesis
    by (simp add: synthesize_cqf_def accepted_validate std_cycle_def [symmetric] csize_def Let_def split: option.split)
qed

lemma synthesize_cqf_Inr:
  "synthesize_cqf flows rate = Inr s \<longleftrightarrow>
     accepted flows rate \<and> std_cycle flows \<noteq> 0 \<and> admits flows (cqf_cycle_budget_bits (std_cycle flows) rate)
     \<and> s = \<lparr>cycle_time_ps = std_cycle flows, csize_bits = cqf_cycle_budget_bits (std_cycle flows) rate,
            per_link_bits = aggregate_links flows\<rparr>"
proof (cases "accepted flows rate")
  case True
  then show ?thesis
    by (auto simp: synthesize_cqf_accepted admits_def admitted_iff [symmetric] Let_def split: option.split)
next
  case False
  then show ?thesis by (auto simp: synthesize_cqf_def accepted_validate split: option.split if_splits)
qed

text \<open>The regime of the long-link synthesis: a cycle longer than the dead time and than every link.\<close>

definition dominates :: "u64 \<Rightarrow> u64 \<Rightarrow> cqf_flow list \<Rightarrow> bool" where
  "dominates t dt flows \<longleftrightarrow> dt < t \<and> (\<forall>f \<in> set flows. \<forall>j < length (path f). hop_max f j < t)"

lemma select_cycle_outcome:
  "\<exists>i m. select_cycle dt flows (u64_max, i0, 0)
       = (fold (\<lambda>f c. min c (deadline_ps f div (1 + sum_k dt f))) flows u64_max, i, m)
    \<and> (\<forall>t > 0. m < t \<longleftrightarrow> (\<forall>f \<in> set flows. \<forall>j < length (path f). hop_max f j < t))"
  using select_cycle_fst [of dt flows u64_max i0 0] select_cycle_delay [of dt flows u64_max i0 0]
  by (cases "select_cycle dt flows (u64_max, i0, 0)") auto

lemma ll_cycle_ge_2: "ll_cycle dt flows \<noteq> 0 \<Longrightarrow> 2 \<le> ll_cycle dt flows"
  by (auto simp: ll_cycle_def floor_ns_def)

lemma ll_certified:
  assumes "delays_u64 flows" "dominates (ll_cycle dt flows) dt flows"
  shows "certify_longlink dt (ll_cycle dt flows) flows = Some None"
    and "cqf_buffer_count (all_hops flows) dt (ll_cycle dt flows) cap = Some (if cap < 3 then Inl 3 else Inr 3)"
proof -
  let ?t = "ll_cycle dt flows"
  have t: "dt < ?t" "2 \<le> ?t" using assms(2) ll_cycle_ge_2 by (auto simp: dominates_def)
  show "certify_longlink dt ?t flows = Some None"
  proof (rule certify_passes, rule ballI)
    fix f assume f: "f \<in> set flows"
    have "(1 + sum_k dt f) * ?t \<le> deadline_ps f"
      using longlink.meets_deadline [OF f, of dt u64_max] by (simp add: ll_cycle_def)
    with delay_max_regime [OF assms(1) f t] assms(2) f
    show "\<exists>d \<le> deadline_ps f. cqf_delay_max_longlink_ps (map (hop_max f) [0..<length (path f)]) dt ?t = Some d"
      by (auto simp: dominates_def)
  qed
  have "buffer_loop dt ?t (all_hops flows) 3 = Some 3"
    using assms hop_delay_u64 [OF assms(1)]
    by (intro buffer_loop_regime t) (auto simp: all_hops_def dominates_def hop_max_delay)
  then show "cqf_buffer_count (all_hops flows) dt ?t cap = Some (if cap < 3 then Inl 3 else Inr 3)"
    by (simp add: cqf_buffer_count_def)
qed

lemma synthesize_longlink_accepted:
  assumes "accepted flows rate" "\<forall>f \<in> set flows. delays_parallel f" "delays_u64 flows"
    and t_def: "t = ll_cycle dt flows" and csize_def: "csize = cqf_cycle_budget_bits_with_dead_time t dt rate"
  obtains i where "synthesize_cqf_longlink flows rate dt cap = Some (
    if t = 0 \<or> \<not> (\<forall>f \<in> set flows. \<forall>j < length (path f). hop_max f j < t) then Inl (LongLinkDeadlineTooTight i)
    else if t \<le> dt then Inl (DeadTimeTooLarge dt t)
    else case first_oversubscribed csize (aggregate_links flows) of
        Some e \<Rightarrow> Inl e
      | None \<Rightarrow> if cap < 3 then Inl (BufferBudgetExceeded 3 cap)
          else Inr \<lparr>ll_cycle_time_ps = t, ll_dead_time_ps = dt, ll_csize_bits = csize,
                    ll_per_link_bits = aggregate_links flows, ll_buffers = 3\<rparr>)"
proof -
  have valid: "flows \<noteq> []" "rate \<noteq> 0" "validate_flows_longlink [] flows = None"
    using assms(1,2) by (auto simp: accepted_validate validate_flows_longlink_None)
  obtain limit i m where sel: "select_cycle dt flows (u64_max, flow_id (hd flows), 0) = (limit, i, m)"
    and t: "floor_ns limit = t"
    and m: "\<forall>t > 0. m < t \<longleftrightarrow> (\<forall>f \<in> set flows. \<forall>j < length (path f). hop_max f j < t)"
    using select_cycle_outcome t_def unfolding ll_cycle_def by blast
  have regime: "(t = 0 \<or> t \<le> m) \<longleftrightarrow> t = 0 \<or> \<not> (\<forall>f \<in> set flows. \<forall>j < length (path f). hop_max f j < t)"
    using spec [OF m, of t] by auto
  have cert: "certify_longlink dt t flows = Some None"
      "cqf_buffer_count (all_hops flows) dt t cap = Some (if cap < 3 then Inl 3 else Inr 3)"
    if "\<not> (t = 0 \<or> t \<le> m)" "\<not> t \<le> dt"
    using that ll_certified [OF assms(3), of dt] spec [OF m, of t] by (auto simp: t_def dominates_def)
  have "synthesize_cqf_longlink flows rate dt cap =
    (if t = 0 \<or> t \<le> m then Some (Inl (LongLinkDeadlineTooTight i))
     else if dt \<ge> t then Some (Inl (DeadTimeTooLarge dt t))
     else case first_oversubscribed csize (aggregate_links flows) of
           Some e \<Rightarrow> Some (Inl e)
         | None \<Rightarrow> if cap < 3 then Some (Inl (BufferBudgetExceeded 3 cap))
             else Some (Inr \<lparr>ll_cycle_time_ps = t, ll_dead_time_ps = dt, ll_csize_bits = csize,
                    ll_per_link_bits = aggregate_links flows, ll_buffers = 3\<rparr>))"
    using valid cert by (simp add: synthesize_cqf_longlink_def sel t csize_def Let_def split: option.split)
  then show ?thesis
    by (intro that [of i]) (simp only: regime if_distrib [of Some] option.case_distrib [of Some])
qed

lemma synthesize_longlink_InrD:
  assumes "synthesize_cqf_longlink flows rate dt cap = Some (Inr s)"
  shows "accepted flows rate" "\<forall>f \<in> set flows. delays_parallel f"
proof -
  from assms have "flows \<noteq> []" "rate \<noteq> 0" "validate_flows_longlink [] flows = None"
    by (auto simp: synthesize_cqf_longlink_def split: if_splits option.splits)
  then show "accepted flows rate" "\<forall>f \<in> set flows. delays_parallel f"
    by (simp_all add: accepted_validate validate_flows_longlink_None)
qed

lemma synthesize_longlink_Inr:
  assumes "delays_u64 flows"
  shows "synthesize_cqf_longlink flows rate dt cap = Some (Inr s) \<longleftrightarrow>
    accepted flows rate \<and> (\<forall>f \<in> set flows. delays_parallel f) \<and> 3 \<le> cap
    \<and> ll_cycle dt flows \<noteq> 0 \<and> dominates (ll_cycle dt flows) dt flows
    \<and> admits flows (cqf_cycle_budget_bits_with_dead_time (ll_cycle dt flows) dt rate)
    \<and> s = \<lparr>ll_cycle_time_ps = ll_cycle dt flows, ll_dead_time_ps = dt,
            ll_csize_bits = cqf_cycle_budget_bits_with_dead_time (ll_cycle dt flows) dt rate,
            ll_per_link_bits = aggregate_links flows, ll_buffers = 3\<rparr>"
proof (cases "accepted flows rate \<and> (\<forall>f \<in> set flows. delays_parallel f)")
  case True
  then have t: "accepted flows rate" "\<forall>f \<in> set flows. delays_parallel f" by auto
  show ?thesis
    by (rule synthesize_longlink_accepted [OF t assms refl refl, of dt cap])
      (use t in \<open>auto simp: dominates_def admits_def admitted_iff [symmetric] split: option.split\<close>)
qed (use synthesize_longlink_InrD in blast)

lemma budget_dead_time_mono:
  "t \<le> t' \<Longrightarrow> cqf_cycle_budget_bits_with_dead_time t dt rate \<le> cqf_cycle_budget_bits_with_dead_time t' dt rate"
  by (simp add: cqf_cycle_budget_bits_with_dead_time_def div_le_mono diff_le_mono)

lemma ll_cycle_greatest:
  assumes "delays_u64 flows" "1000 dvd t" "t \<le> u64_max" "0 < t" "dominates t dt flows"
    and "\<forall>f \<in> set flows. \<forall>d. cqf_delay_max_longlink_ps (map (hop_max f) [0..<length (path f)]) dt t = Some d
           \<longrightarrow> d \<le> deadline_ps f"
  shows "t \<le> ll_cycle dt flows"
proof -
  have "2 \<le> t" using assms(2,4) by (auto simp: dvd_def)
  then have "(1 + sum_k dt f) * t \<le> deadline_ps f" if "f \<in> set flows" for f
    using delay_max_regime [OF assms(1) that, of dt t] assms(5,6) that by (auto simp: dominates_def)
  then show ?thesis unfolding ll_cycle_def by (intro longlink.greatest assms) blast
qed

lemma ll_cycle_meets:
  assumes "delays_u64 flows" "dominates (ll_cycle dt flows) dt flows" "f \<in> set flows"
  shows "\<exists>d \<le> deadline_ps f.
    cqf_delay_max_longlink_ps (map (hop_max f) [0..<length (path f)]) dt (ll_cycle dt flows) = Some d"
proof -
  have "dt < ll_cycle dt flows" "2 \<le> ll_cycle dt flows"
    using assms(2) ll_cycle_ge_2 [of dt flows] by (auto simp: dominates_def)
  then show ?thesis
    using delay_max_regime [OF assms(1,3)] longlink.meets_deadline [OF assms(3), of dt u64_max] assms(2,3)
    by (auto simp: dominates_def ll_cycle_def)
qed

lemma ll_cycle_range: "ll_cycle dt flows \<le> u64_max"
proof -
  have "fold (\<lambda>f c. min c (g f)) fs c \<le> (c::nat)" for g fs c
    by (induction fs arbitrary: c) (auto intro: order_trans [OF _ min.cobounded1])
  then show ?thesis unfolding ll_cycle_def by (rule order_trans [OF std.floor_ns_le])
qed

lemma dominates_mono: "t \<le> t' \<Longrightarrow> dominates t dt flows \<Longrightarrow> dominates t' dt flows"
  by (auto simp: dominates_def intro: less_le_trans)


section \<open>Properties\<close>

text \<open>C9. The long-link worst case is sound against the cycle timeline: whatever the phase at which a
  frame is presented, the instants at which it is sent within its windows and the latencies its links
  take, it is delivered within the value that \<open>cqf_delay_max_longlink_ps\<close> returns.\<close>

theorem longlink_delay_max_sound:
  assumes "dead_time < cycle" "2 \<le> cycle" "links_ok lds"
    and "frame_run cycle dead_time ready lds arrival"
  shows "\<exists>d_max. cqf_delay_max_longlink_ps (map max_ps lds) dead_time cycle = Some d_max
    \<and> arrival \<le> ready + d_max"
  using delay_max_eq [OF assms(1-3)] frame_run_within [OF assms(4,1)] by simp

text \<open>Two links, of 1 and 25 microseconds, in 10-microsecond cycles with a dead time of 2.\<close>

definition demo_links :: "link_delay list" where
  "demo_links = [\<lparr>min_ps = 1000000, max_ps = 1000000\<rparr>, \<lparr>min_ps = 25000000, max_ps = 25000000\<rparr>]"

lemma demo_run: "frame_run 10000000 2000000 3000000 demo_links 53000000"
proof -
  have "frame_run 10000000 2000000 19000000 [\<lparr>min_ps = 25000000, max_ps = 25000000\<rparr>] 53000000"
    by (rule frame_run.forward [where c = 2 and send = 28000000 and d = 25000000])
      (simp_all add: frame_run_Nil)
  then show ?thesis unfolding demo_links_def
    by - (rule frame_run.forward [where c = 1 and send = 18000000 and d = 1000000], simp_all)
qed

theorem longlink_delay_max_sound_witness:
  "\<exists>d_max. cqf_delay_max_longlink_ps (map max_ps demo_links) 2000000 10000000 = Some d_max
    \<and> 53000000 \<le> 3000000 + d_max"
  by (rule longlink_delay_max_sound [OF _ _ _ demo_run])
    (simp_all add: links_ok_def demo_links_def u64_max_def)

text \<open>The cycle advance of a hop is exact: it is the least number of cycles after which a frame
  sent at the last instant of its window, over a link of that latency, has strictly passed into the
  receiver's earlier cycle and can be forwarded.\<close>

theorem hop_advance_least:
  assumes "dead_time < cycle" "2 \<le> cycle" "d \<le> u64_max"
  shows "\<exists>k. cqf_hop_advance_cycles d dead_time cycle = Some k \<and> 1 \<le> k
    \<and> cycle - dead_time + d < k * cycle \<and> (\<forall>k'. cycle - dead_time + d < k' * cycle \<longrightarrow> k \<le> k')"
proof -
  let ?q = "(d + (cycle - dead_time)) div cycle"
  have c: "0 < cycle" using assms by simp
  have "cycle - dead_time + d < (?q + 1) * cycle"
    using c dividend_less_div_times [of cycle "d + (cycle - dead_time)"] by (simp add: algebra_simps)
  moreover have "?q + 1 \<le> k'" if "cycle - dead_time + d < k' * cycle" for k'
    using that c by (simp add: Suc_le_eq div_less_iff_less_mult add.commute)
  ultimately show ?thesis using hop_advance_eq [OF assms] by simp
qed

theorem hop_advance_least_witness:
  "\<exists>k. cqf_hop_advance_cycles 25000000 2000000 10000000 = Some k \<and> 1 \<le> k
    \<and> 10000000 - 2000000 + 25000000 < k * 10000000
    \<and> (\<forall>k'. 10000000 - 2000000 + 25000000 < k' * 10000000 \<longrightarrow> k \<le> k')"
  by (rule hop_advance_least) (simp_all add: u64_max_def)


text \<open>C37. A synthesized CQF schedule is sound and as wide as possible: the cycle is a positive whole
  number of nanoseconds, every flow's worst-case delay is within its deadline, the reservations
  recorded per link are the flows' totals and fit the cycle budget, and no larger whole-nanosecond
  cycle meets every deadline.\<close>

theorem synthesize_cqf_sound:
  assumes "synthesize_cqf flows rate = Inr s" and "\<forall>f \<in> set flows. length (path f) < 2 ^ 32"
  shows "0 < cycle_time_ps s \<and> 1000 dvd cycle_time_ps s
    \<and> csize_bits s = rate * cycle_time_ps s div 10 ^ 12
    \<and> (\<forall>f \<in> set flows. cqf_delay_max_ps (length (path f)) (cycle_time_ps s) \<le> deadline_ps f)
    \<and> (\<forall>f \<in> set flows. \<forall>l \<in> set (path f).
          map_of (per_link_bits s) l = Some (link_load flows l) \<and> link_load flows l \<le> csize_bits s)
    \<and> (\<forall>t. 1000 dvd t \<and> t \<le> u64_max \<and> (\<forall>f \<in> set flows. cqf_delay_max_ps (length (path f)) t \<le> deadline_ps f)
          \<longrightarrow> t \<le> cycle_time_ps s)"
proof -
  from assms(1) have s: "std_cycle flows \<noteq> 0" "admits flows (cqf_cycle_budget_bits (std_cycle flows) rate)"
    "s = \<lparr>cycle_time_ps = std_cycle flows, csize_bits = cqf_cycle_budget_bits (std_cycle flows) rate,
            per_link_bits = aggregate_links flows\<rparr>"
    by (simp_all add: synthesize_cqf_Inr)
  have "cqf_delay_max_ps (length (path f)) (std_cycle flows) \<le> deadline_ps f" if "f \<in> set flows" for f
    using std.meets_deadline [OF that, of u64_max] assms(2) that
    by (simp add: std_cycle_def flow_limit_ps_def cqf_delay_max_ps_def)
  moreover have "map_of (aggregate_links flows) l = Some (link_load flows l)"
    if "f \<in> set flows" "l \<in> set (path f)" for f l
    using that aggregate_links_sorted [of flows]
    by (subst map_of_eq_Some_iff) (auto simp: set_aggregate_links strict_sorted_iff)
  moreover have "t \<le> std_cycle flows"
    if "1000 dvd t" "t \<le> u64_max" "\<forall>f \<in> set flows. cqf_delay_max_ps (length (path f)) t \<le> deadline_ps f" for t
    using std.greatest [OF that(1,2), of flows] that(3) assms(2)
    by (simp add: std_cycle_def flow_limit_ps_def cqf_delay_max_ps_def)
  ultimately show ?thesis using s by (simp add: cqf_cycle_budget_bits_def admits_def std_cycle_def)
qed

definition demo_flows :: "cqf_flow list" where
  "demo_flows =
     [\<lparr>flow_id = 1, reserved_bits_per_cycle = 4000, deadline_ps = 40000000, path = [1, 2, 3], link_delays = []\<rparr>,
      \<lparr>flow_id = 2, reserved_bits_per_cycle = 3000, deadline_ps = 50000000, path = [2], link_delays = []\<rparr>]"

lemmas cqf_eval = synthesize_cqf_def synthesize_cqf_longlink_def demo_flows_def floor_ns_def flow_limit_ps_def
  as_u32_def u64_max_def aggregate_links_def first_oversubscribed_def self_check_def cqf_delay_max_ps_def
  cqf_cycle_budget_bits_def Let_def

lemma synthesize_cqf_demo:
  "synthesize_cqf demo_flows 1000000000 = Inr \<lparr>cycle_time_ps = 10000000, csize_bits = 10000,
     per_link_bits = [(1, 4000), (2, 7000), (3, 4000)]\<rparr>"
  by (simp add: cqf_eval numeral_2_eq_2 [symmetric])

theorem synthesize_cqf_sound_witness:
  "cqf_delay_max_ps 3 10000000 \<le> 40000000 \<and> link_load demo_flows 2 \<le> 10000"
  using synthesize_cqf_sound [OF synthesize_cqf_demo] by (simp add: demo_flows_def numeral_3_eq_3)

text \<open>C36. CQF synthesis is complete: on distinct, non-degenerate flows it succeeds exactly when some
  positive whole-nanosecond cycle meets every deadline and admits every link's reservation.\<close>

theorem synthesize_cqf_complete:
  assumes "\<forall>f \<in> set flows. length (path f) < 2 ^ 32"
  shows "(\<exists>s. synthesize_cqf flows rate = Inr s) \<longleftrightarrow>
    flows \<noteq> [] \<and> rate \<noteq> 0 \<and> distinct (map flow_id flows) \<and> (\<forall>f \<in> set flows. valid_flow f)
    \<and> (\<exists>t. 0 < t \<and> t \<le> u64_max \<and> 1000 dvd t
         \<and> (\<forall>f \<in> set flows. cqf_delay_max_ps (length (path f)) t \<le> deadline_ps f)
         \<and> (\<forall>f \<in> set flows. \<forall>l \<in> set (path f). link_load flows l \<le> cqf_cycle_budget_bits t rate))"
    (is "?L \<longleftrightarrow> ?R")
proof -
  have limit: "(\<forall>f \<in> set flows. cqf_delay_max_ps (length (path f)) t \<le> deadline_ps f)
      \<longleftrightarrow> (\<forall>f \<in> set flows. (as_u32 (length (path f)) + 1) * t \<le> deadline_ps f)" for t
    using assms by (simp add: cqf_delay_max_ps_def)
  have up: "t \<le> std_cycle flows"
    if "t \<le> u64_max" "1000 dvd t" "\<forall>f \<in> set flows. cqf_delay_max_ps (length (path f)) t \<le> deadline_ps f" for t
    using std.greatest [OF that(2,1), of flows] that(3)
    by (simp add: std_cycle_def flow_limit_ps_def limit)
  have mono: "cqf_cycle_budget_bits t rate \<le> cqf_cycle_budget_bits t' rate" if "t \<le> t'" for t t'
    using that by (simp add: cqf_cycle_budget_bits_def div_le_mono)
  have here: "\<forall>f \<in> set flows. cqf_delay_max_ps (length (path f)) (std_cycle flows) \<le> deadline_ps f"
    using std.meets_deadline [of _ flows u64_max] by (auto simp: limit std_cycle_def flow_limit_ps_def)
  have "std_cycle flows \<le> u64_max" "1000 dvd std_cycle flows"
    using std.limit_le_iff [of "fold (\<lambda>f c. min c (deadline_ps f div (as_u32 (length (path f)) + 1))) flows u64_max" flows u64_max]
      std.floor_ns_le
    by (auto simp: std_cycle_def flow_limit_ps_def intro: order_trans)
  show ?thesis
  proof
    assume ?L
    then have "accepted flows rate" "std_cycle flows \<noteq> 0" "admits flows (cqf_cycle_budget_bits (std_cycle flows) rate)"
      by (auto simp: synthesize_cqf_Inr)
    with \<open>std_cycle flows \<le> u64_max\<close> \<open>1000 dvd std_cycle flows\<close> here show ?R
      unfolding accepted_def admits_def by blast
  next
    assume r: ?R
    then obtain t where t: "0 < t" "t \<le> std_cycle flows"
      "\<forall>f \<in> set flows. \<forall>l \<in> set (path f). link_load flows l \<le> cqf_cycle_budget_bits t rate"
      using up by blast
    from t mono [OF t(2)] have "admits flows (cqf_cycle_budget_bits (std_cycle flows) rate)"
      unfolding admits_def by (meson order_trans)
    with r t show ?L unfolding synthesize_cqf_Inr accepted_def by (metis less_le_not_le not_gr_zero)
  qed
qed

theorem synthesize_cqf_complete_witness:
  "\<exists>s. synthesize_cqf demo_flows 1000000000 = Inr s"
proof (rule iffD2 [OF synthesize_cqf_complete])
  show "demo_flows \<noteq> [] \<and> (1000000000::nat) \<noteq> 0 \<and> distinct (map flow_id demo_flows)
    \<and> (\<forall>f \<in> set demo_flows. valid_flow f)
    \<and> (\<exists>t. 0 < t \<and> t \<le> u64_max \<and> 1000 dvd t
         \<and> (\<forall>f \<in> set demo_flows. cqf_delay_max_ps (length (path f)) t \<le> deadline_ps f)
         \<and> (\<forall>f \<in> set demo_flows. \<forall>l \<in> set (path f). link_load demo_flows l \<le> cqf_cycle_budget_bits t 1000000000))"
    by (simp add: demo_flows_def valid_flow_def)
      (rule exI [of _ 8000000], simp add: cqf_eval link_load_def)
qed (simp add: demo_flows_def)


text \<open>C7. A long-link schedule meets every deadline on the cycle timeline itself: a frame of a flow
  that crosses its links, presented at any phase, is delivered within the flow's deadline; the cycle
  exceeds the dead time and every link delay, the reservations fit the transmittable window, and
  three cyclic buffers always suffice.\<close>

theorem synthesize_cqf_longlink_sound:
  assumes "synthesize_cqf_longlink flows rate dt cap = Some (Inr s)" and "delays_u64 flows"
    and "f \<in> set flows" "links_ok (link_delays f)"
    and "frame_run (ll_cycle_time_ps s) dt ready (map (hop_delay f) [0..<length (path f)]) arrival"
  shows "arrival \<le> ready + deadline_ps f
    \<and> dt < ll_cycle_time_ps s \<and> (\<forall>j < length (path f). hop_max f j < ll_cycle_time_ps s)
    \<and> (\<forall>l \<in> set (path f). link_load flows l \<le> ll_csize_bits s)
    \<and> ll_csize_bits s = rate * (ll_cycle_time_ps s - dt) div 10 ^ 12
    \<and> ll_buffers s = 3"
proof -
  from assms(1) have s: "dominates (ll_cycle dt flows) dt flows" "ll_cycle dt flows \<noteq> 0"
    "admits flows (cqf_cycle_budget_bits_with_dead_time (ll_cycle dt flows) dt rate)"
    "s = \<lparr>ll_cycle_time_ps = ll_cycle dt flows, ll_dead_time_ps = dt,
            ll_csize_bits = cqf_cycle_budget_bits_with_dead_time (ll_cycle dt flows) dt rate,
            ll_per_link_bits = aggregate_links flows, ll_buffers = 3\<rparr>"
    by (simp_all add: synthesize_longlink_Inr [OF assms(2)])
  let ?t = "ll_cycle dt flows" and ?lds = "map (hop_delay f) [0..<length (path f)]"
  have t: "dt < ?t" "2 \<le> ?t" using s ll_cycle_ge_2 by (auto simp: dominates_def)
  have ok: "links_ok ?lds" using assms(4) by (auto simp: links_ok_def hop_delay_def)
  have "map max_ps ?lds = map (hop_max f) [0..<length (path f)]" by (simp add: hop_max_delay)
  with ll_cycle_meets [OF assms(2) s(1) assms(3)] delay_max_eq [OF t ok]
  have "?t * (1 + (\<Sum>l\<leftarrow>?lds. (max_ps l + (?t - dt)) div ?t + 1)) \<le> deadline_ps f"
    by (auto simp only: option.inject)
  moreover have "arrival \<le> ready + ?t * (1 + (\<Sum>l\<leftarrow>?lds. (max_ps l + (?t - dt)) div ?t + 1))"
    using assms(5) unfolding s(4) cqf_long_link_schedule.simps by (rule frame_run_within [OF _ t(1)])
  ultimately have "arrival \<le> ready + deadline_ps f" by linarith
  with s assms(3) show ?thesis
    by (auto simp: dominates_def admits_def cqf_cycle_budget_bits_with_dead_time_def)
qed

definition demo_long :: cqf_flow where
  "demo_long = \<lparr>flow_id = 7, reserved_bits_per_cycle = 4000, deadline_ps = 80000000, path = [1, 2],
      link_delays = [\<lparr>min_ps = 1000000, max_ps = 1000000\<rparr>, \<lparr>min_ps = 5000000, max_ps = 8000000\<rparr>]\<rparr>"

lemma demo_long_facts:
  "path demo_long = [1, 2]" "deadline_ps demo_long = 80000000" "sum_k 2000000 demo_long = 3"
  "map (hop_delay demo_long) [0..<2] = link_delays demo_long"
  "delays_u64 [demo_long]" "links_ok (link_delays demo_long)"
  by (simp_all add: demo_long_def sum_k_def hop_max_def hop_delay_def delays_u64_def links_ok_def u64_max_def upt_rec)

lemma synthesize_long_demo:
  "synthesize_cqf_longlink [demo_long] 1000000000 2000000 7 = Some (Inr
     \<lparr>ll_cycle_time_ps = 20000000, ll_dead_time_ps = 2000000, ll_csize_bits = 18000,
      ll_per_link_bits = [(1, 4000), (2, 4000)], ll_buffers = 3\<rparr>)"
proof -
  have t: "ll_cycle 2000000 [demo_long] = 20000000"
    by (simp add: ll_cycle_def demo_long_facts floor_ns_def u64_max_def)
  show ?thesis
    by (subst synthesize_longlink_Inr)
      (simp_all add: demo_long_facts t, simp_all add: demo_long_def accepted_def valid_flow_def delays_parallel_def
        dominates_def All_less_Suc hop_max_def admits_def link_load_def cqf_cycle_budget_bits_with_dead_time_def
        aggregate_links_def)
qed

lemma demo_long_run: "frame_run 20000000 2000000 0 (map (hop_delay demo_long) [0..<length (path demo_long)]) 66000000"
proof -
  have "frame_run 20000000 2000000 39000000 [\<lparr>min_ps = 5000000, max_ps = 8000000\<rparr>] 66000000"
    by (rule frame_run.forward [where c = 2 and send = 58000000 and d = 8000000])
      (simp_all add: frame_run_Nil)
  then have "frame_run 20000000 2000000 0 (link_delays demo_long) 66000000"
    unfolding demo_long_def cqf_flow.simps
    by - (rule frame_run.forward [where c = 1 and send = 38000000 and d = 1000000], simp_all)
  moreover have "length (path demo_long) = 2" by (simp add: demo_long_facts)
  ultimately show ?thesis by (simp only: demo_long_facts)
qed

theorem synthesize_cqf_longlink_sound_witness: "66000000 \<le> 0 + deadline_ps demo_long"
  using synthesize_cqf_longlink_sound [OF synthesize_long_demo, of demo_long 0 66000000] demo_long_run
  by (simp only: demo_long_facts cqf_long_link_schedule.simps list.set)


text \<open>C38. Long-link synthesis is complete for its regime: on valid flows and a buffer cap of at least
  three it succeeds exactly when some whole-nanosecond cycle longer than the dead time and every
  link meets the exact long-link bound of every flow and admits every link's reservation.\<close>

theorem synthesize_cqf_longlink_complete:
  assumes "delays_u64 flows" and "3 \<le> cap"
  shows "(\<exists>s. synthesize_cqf_longlink flows rate dt cap = Some (Inr s)) \<longleftrightarrow>
    flows \<noteq> [] \<and> rate \<noteq> 0 \<and> distinct (map flow_id flows)
    \<and> (\<forall>f \<in> set flows. valid_flow f \<and> delays_parallel f)
    \<and> (\<exists>t. t \<le> u64_max \<and> 1000 dvd t \<and> dominates t dt flows
         \<and> (\<forall>f \<in> set flows. \<exists>d \<le> deadline_ps f.
               cqf_delay_max_longlink_ps (map (hop_max f) [0..<length (path f)]) dt t = Some d)
         \<and> (\<forall>f \<in> set flows. \<forall>l \<in> set (path f).
               link_load flows l \<le> cqf_cycle_budget_bits_with_dead_time t dt rate))"
    (is "?L \<longleftrightarrow> ?R")
proof
  assume ?L
  then have ok: "accepted flows rate" "\<forall>f \<in> set flows. delays_parallel f" "dominates (ll_cycle dt flows) dt flows"
    "admits flows (cqf_cycle_budget_bits_with_dead_time (ll_cycle dt flows) dt rate)"
    by (auto simp: synthesize_longlink_Inr [OF assms(1)])
  moreover have "1000 dvd ll_cycle dt flows" by (simp add: ll_cycle_def)
  ultimately show ?R
    using ll_cycle_range [of dt flows] ll_cycle_meets [OF assms(1) ok(3)]
    unfolding accepted_def admits_def by blast
next
  assume r: ?R
  then obtain t where t: "t \<le> u64_max" "1000 dvd t" "dominates t dt flows"
    "\<forall>f \<in> set flows. \<exists>d \<le> deadline_ps f.
        cqf_delay_max_longlink_ps (map (hop_max f) [0..<length (path f)]) dt t = Some d"
    "admits flows (cqf_cycle_budget_bits_with_dead_time t dt rate)"
    unfolding admits_def by blast
  have pos: "0 < t" using t(3) by (auto simp: dominates_def)
  have up: "t \<le> ll_cycle dt flows"
    using t(4) by (intro ll_cycle_greatest [OF assms(1) t(2,1) pos t(3)]) fastforce
  have "admits flows (cqf_cycle_budget_bits_with_dead_time (ll_cycle dt flows) dt rate)"
    using t(5) budget_dead_time_mono [OF up] unfolding admits_def by (meson order_trans)
  with r up pos dominates_mono [OF up t(3)] assms(2) show ?L
    unfolding synthesize_longlink_Inr [OF assms(1)] accepted_def by (metis less_le_not_le)
qed

theorem synthesize_cqf_longlink_complete_witness:
  "\<exists>t. t \<le> u64_max \<and> 1000 dvd t \<and> dominates t 2000000 [demo_long]
    \<and> (\<exists>d \<le> 80000000. cqf_delay_max_longlink_ps (map (hop_max demo_long) [0..<2]) 2000000 t = Some d)"
proof -
  have "\<exists>s. synthesize_cqf_longlink [demo_long] 1000000000 2000000 7 = Some (Inr s)"
    using synthesize_long_demo by blast
  moreover have "3 \<le> (7::nat)" by simp
  ultimately show ?thesis
    using iffD1 [OF synthesize_cqf_longlink_complete [OF demo_long_facts(5)]]
    by (fastforce simp: demo_long_facts(1,2) numeral_2_eq_2)
qed

text \<open>The defensive paths are dead: neither procedure ever reports a failed self-check, and the
  long-link procedure never panics on 64-bit link delays.\<close>

theorem cqf_self_check_unreachable:
  assumes "delays_u64 flows"
  shows "synthesize_cqf flows rate \<noteq> Inl (SelfCheck why)
    \<and> synthesize_cqf_longlink flows rate dt cap \<noteq> None
    \<and> synthesize_cqf_longlink flows rate dt cap \<noteq> Some (Inl (SelfCheck why))"
proof (intro conjI)
  show "synthesize_cqf flows rate \<noteq> Inl (SelfCheck why)"
  proof (cases "accepted flows rate")
    case True
    then show ?thesis
      by (auto simp: synthesize_cqf_accepted Let_def split: option.split dest!: first_oversubscribed_Some)
  next
    case False
    then have "flows = [] \<or> rate = 0 \<or> (\<exists>e. validate_flows [] flows = Some e)"
      using accepted_validate [of flows rate] by auto
    then show ?thesis
      by (auto simp: synthesize_cqf_def dest: validate_flows_error)
  qed
  have "\<exists>r. synthesize_cqf_longlink flows rate dt cap = Some r \<and> r \<noteq> Inl (SelfCheck why)"
  proof (cases "accepted flows rate \<and> (\<forall>f \<in> set flows. delays_parallel f)")
    case True
    then have t: "accepted flows rate" "\<forall>f \<in> set flows. delays_parallel f" by auto
    show ?thesis
      by (rule synthesize_longlink_accepted [OF t assms refl refl, of dt cap])
        (auto split: option.split dest!: first_oversubscribed_Some)
  next
    case False
    then have "flows = [] \<or> rate = 0 \<or> (\<exists>e. validate_flows_longlink [] flows = Some e)"
      using validate_flows_longlink_None [of "[]" flows] accepted_validate [of flows rate] by auto
    then show ?thesis
      by (auto simp: synthesize_cqf_longlink_def dest: validate_flows_longlink_error)
  qed
  then show "synthesize_cqf_longlink flows rate dt cap \<noteq> None"
    "synthesize_cqf_longlink flows rate dt cap \<noteq> Some (Inl (SelfCheck why))" by auto
qed

theorem cqf_self_check_unreachable_witness:
  "synthesize_cqf_longlink [demo_long] 1000000000 2000000 2 \<noteq> None"
  using cqf_self_check_unreachable [OF demo_long_facts(5)] by blast

text \<open>The nominal best case is not above the worst case on well-formed links, and both collapse to
  the hop-count formulas \<open>(H - 1) T\<close> and \<open>(H + 1) T\<close> when every link is shorter than the dead time.\<close>

theorem longlink_min_le_max:
  assumes "dead_time < cycle" "2 \<le> cycle" "links_ok lds"
  shows "\<exists>d_min d_max. cqf_delay_min_longlink_ps (map min_ps lds) dead_time cycle = Some d_min
    \<and> cqf_delay_max_longlink_ps (map max_ps lds) dead_time cycle = Some d_max \<and> d_min \<le> d_max
    \<and> ((\<forall>l \<in> set lds. max_ps l < dead_time) \<longrightarrow>
         d_min = cqf_delay_min_ps (length lds) cycle \<and> d_max = cqf_delay_max_ps (length lds) cycle)"
proof -
  let ?k = "\<lambda>d. (d + (cycle - dead_time)) div cycle + 1"
  have short: "?k d = 1" if "d < dead_time" for d
    using that assms(1) by simp
  have "(\<Sum>l\<leftarrow>butlast lds. ?k (min_ps l)) \<le> (\<Sum>l\<leftarrow>lds. ?k (max_ps l))"
    using assms(3) unfolding links_ok_def
  proof (induction lds)
    case (Cons l lds)
    then have "?k (min_ps l) \<le> ?k (max_ps l)" by (simp add: div_le_mono)
    with Cons show ?case by auto
  qed simp
  moreover have "(\<Sum>l\<leftarrow>lds. ?k (max_ps l)) = length lds" "(\<Sum>l\<leftarrow>butlast lds. ?k (min_ps l)) = length lds - 1"
    if "\<forall>l \<in> set lds. max_ps l < dead_time"
  proof -
    have "map (\<lambda>l. ?k (max_ps l)) lds = map (\<lambda>_. 1) lds" using that short by (intro map_cong) auto
    then show "(\<Sum>l\<leftarrow>lds. ?k (max_ps l)) = length lds" by (metis sum_list_triv mult.right_neutral of_nat_id)
    have "map (\<lambda>l. ?k (min_ps l)) (butlast lds) = map (\<lambda>_. 1) (butlast lds)"
      using that short assms(3) by (intro map_cong) (auto simp: links_ok_def dest!: in_set_butlastD intro: le_less_trans)
    then show "(\<Sum>l\<leftarrow>butlast lds. ?k (min_ps l)) = length lds - 1"
      by (metis sum_list_triv mult.right_neutral of_nat_id length_butlast)
  qed
  ultimately show ?thesis
    unfolding delay_min_eq [OF assms] delay_max_eq [OF assms]
    by (auto simp: cqf_delay_min_ps_def cqf_delay_max_ps_def mult.commute intro: trans_le_add2)
qed

theorem longlink_min_le_max_witness:
  "\<exists>d_min d_max. cqf_delay_min_longlink_ps (map min_ps demo_links) 2000000 10000000 = Some d_min
    \<and> cqf_delay_max_longlink_ps (map max_ps demo_links) 2000000 10000000 = Some d_max \<and> d_min \<le> d_max"
  using longlink_min_le_max [of 2000000 10000000 demo_links]
  by (auto simp: links_ok_def demo_links_def u64_max_def)

text \<open>The buffer count is not protected against jitter beyond 32 bits: a link whose latency jitter
  spans \<open>2^32\<close> cycles of a nanosecond needs over four billion buffers and is accepted with three.\<close>

theorem buffer_count_truncates:
  "let ld = \<lparr>min_ps = 0, max_ps = 2 ^ 32 * 1000\<rparr> in
     cqf_hop_advance_cycles (max_ps ld) 0 1000 = Some (2 ^ 32 + 2)
   \<and> cqf_hop_advance_cycles (min_ps ld) 0 1000 = Some 2
   \<and> cqf_buffer_count [ld] 0 1000 CQF_DEFAULT_BUFFER_CAP = Some (Inr 3)"
  by (simp add: cqf_buffer_count_def cqf_hop_advance_cycles_def as_u32_def CQF_DEFAULT_BUFFER_CAP_def Let_def)

text \<open>The nominal best case can exceed the delay of a frame aligned with a cycle boundary, by more
  than a fraction of a cycle: over links of 8, 8 and 1 microseconds a frame presented at a boundary
  can be delivered after 31 microseconds where \<open>D_min\<close> is 40.\<close>

theorem delay_min_above_aligned_run:
  "let lds = map (\<lambda>d. \<lparr>min_ps = d, max_ps = d\<rparr>) [8000000, 8000000, 1000000] in
     frame_run 10000000 2000000 0 lds 31000000
   \<and> cqf_delay_min_longlink_ps (map min_ps lds) 2000000 10000000 = Some 40000000"
proof -
  have "frame_run 10000000 2000000 28000000 [\<lparr>min_ps = 1000000, max_ps = 1000000\<rparr>] 31000000"
    by (rule frame_run.forward [where c = 3 and send = 30000000 and d = 1000000]) (simp_all add: frame_run_Nil)
  then have "frame_run 10000000 2000000 18000000
      [\<lparr>min_ps = 8000000, max_ps = 8000000\<rparr>, \<lparr>min_ps = 1000000, max_ps = 1000000\<rparr>] 31000000"
    by - (rule frame_run.forward [where c = 2 and send = 20000000 and d = 8000000], simp_all)
  then have "frame_run 10000000 2000000 0
      [\<lparr>min_ps = 8000000, max_ps = 8000000\<rparr>, \<lparr>min_ps = 8000000, max_ps = 8000000\<rparr>,
       \<lparr>min_ps = 1000000, max_ps = 1000000\<rparr>] 31000000"
    by - (rule frame_run.forward [where c = 1 and send = 10000000 and d = 8000000], simp_all)
  then show ?thesis
    by (simp add: cqf_delay_min_longlink_ps_def cqf_hop_advance_cycles_def)
qed

end
