(* ===== verification/Gate_Schedule.thy ===== *)
theory Gate_Schedule
  imports Rust_Strings "HOL-Library.Word"
begin

text \<open>
  Gate-control lists of the time-aware shaper, \<^verbatim>\<open>crates/spar-network/src/tsn.rs\<close>: the schedule
  type, the text format (\<^verbatim>\<open>GateSchedule::parse\<close>, \<^verbatim>\<open>GateSchedule::to_gcl_blob\<close>) and the tiling
  invariant that parsing establishes.

  Class masks are 8-bit words; strings are those of \<open>Rust_Strings\<close>.
\<close>

section \<open>Types\<close>

datatype class_of_service = ClassOfService (cos_value: u8)

definition class_of_service_new :: "u8 \<Rightarrow> class_of_service option" where
  "class_of_service_new c = (if c \<le> 7 then Some (ClassOfService c) else None)"

record gate_window =
  offset_ps :: u64
  duration_ps :: u64
  allowed_cos_mask :: "8 word"

record gate_schedule =
  windows :: "gate_window list"
  cycle_ps :: u64

datatype gate_schedule_error =
    Empty
  | Malformed string
  | ParseInt string
  | Overlap usize
  | Gap usize
  | ZeroDuration usize


section \<open>The text format\<close>

definition parse_decimal_u64 :: "string \<Rightarrow> u64 option" where
  "parse_decimal_u64 s = from_str_radix 10 u64_max s"

definition parse_cos_mask :: "string \<Rightarrow> 8 word option" where
  "parse_cos_mask s = map_option word_of_nat
     (if take 2 s = ''0x'' \<or> take 2 s = ''0X'' then from_str_radix 16 255 (drop 2 s)
      else from_str_radix 10 255 s)"

text \<open>One entry between semicolons; \<open>None\<close> is the \<^verbatim>\<open>continue\<close> on an empty entry.\<close>

definition parse_entry :: "string \<Rightarrow> gate_schedule_error + gate_window option" where
  "parse_entry raw =
     (let entry = trim raw
      in if entry = [] then Inr None
      else case split_char (CHR '':'') entry of
        [p0, p1, p2] \<Rightarrow>
          (case parse_decimal_u64 (trim p0) of
             None \<Rightarrow> Inl (ParseInt entry)
           | Some offset_ns \<Rightarrow>
          case parse_decimal_u64 (trim p1) of
             None \<Rightarrow> Inl (ParseInt entry)
           | Some duration_ns \<Rightarrow>
          case parse_cos_mask (trim p2) of
             None \<Rightarrow> Inl (ParseInt entry)
           | Some cos_mask \<Rightarrow>
               Inr (Some \<lparr>offset_ps = sat_mul offset_ns 1000, duration_ps = sat_mul duration_ns 1000,
                          allowed_cos_mask = cos_mask\<rparr>))
      | _ \<Rightarrow> Inl (Malformed entry))"

fun parse_entries :: "string list \<Rightarrow> gate_schedule_error + gate_window list" where
  "parse_entries [] = Inr []"
| "parse_entries (e # es) =
     (case parse_entry e of
        Inl err \<Rightarrow> Inl err
      | Inr None \<Rightarrow> parse_entries es
      | Inr (Some w) \<Rightarrow>
          (case parse_entries es of Inl err \<Rightarrow> Inl err | Inr ws \<Rightarrow> Inr (w # ws)))"

fun check_tiling :: "usize \<Rightarrow> u64 \<Rightarrow> gate_window list \<Rightarrow> gate_schedule_error + u64" where
  "check_tiling i expected_offset [] = Inr expected_offset"
| "check_tiling i expected_offset (w # ws) =
     (if duration_ps w = 0 then Inl (ZeroDuration i)
      else if offset_ps w < expected_offset then Inl (Overlap i)
      else if offset_ps w > expected_offset then Inl (Gap i)
      else check_tiling (i + 1) (sat_add (offset_ps w) (duration_ps w)) ws)"

definition parse :: "string \<Rightarrow> gate_schedule_error + gate_schedule" where
  "parse blob =
     (let trimmed = trim blob
      in if trimmed = [] then Inl Empty
      else case parse_entries (split_char (CHR '';'') trimmed) of
        Inl e \<Rightarrow> Inl e
      | Inr ws \<Rightarrow>
          if ws = [] then Inl Empty
          else (case check_tiling 0 0 ws of
                  Inl e \<Rightarrow> Inl e
                | Inr cycle \<Rightarrow> Inr \<lparr>windows = ws, cycle_ps = cycle\<rparr>))"

definition show_entry :: "nat \<Rightarrow> nat \<Rightarrow> 8 word \<Rightarrow> string" where
  "show_entry offset_ns duration_ns cos_mask =
     show_radix 10 offset_ns @ '':'' @ show_radix 10 duration_ns @ '':0x'' @ show_hex02 (unat cos_mask)"

text \<open>The pieces joined by the separator, as the \<^verbatim>\<open>push\<close> loops of the source build them.\<close>

fun join_entries :: "string list \<Rightarrow> string" where
  "join_entries [] = []"
| "join_entries [e] = e"
| "join_entries (e # es) = e @ '';'' @ join_entries es"

definition to_gcl_blob :: "gate_schedule \<Rightarrow> string" where
  "to_gcl_blob s = join_entries (map (\<lambda>w. show_entry (offset_ps w div 1000) (duration_ps w div 1000) (allowed_cos_mask w)) (windows s))"



section \<open>Printing and parsing entries\<close>

lemma split_join:
  "es \<noteq> [] \<Longrightarrow> \<forall>e \<in> set es. CHR '';'' \<notin> set e \<Longrightarrow> split_char (CHR '';'') (join_entries es) = es"
  by (induction es rule: join_entries.induct) (auto simp: split_char_no_sep split_char_append)

lemma parse_decimal_show: "n \<le> u64_max \<Longrightarrow> parse_decimal_u64 (show_radix 10 n) = Some n"
  by (simp add: parse_decimal_u64_def from_str_radix_digits digits_show_radix parse_digits_show)

lemma parse_cos_mask_show: "parse_cos_mask (''0x'' @ show_hex02 (unat m)) = Some m"
proof -
  have "unat m < 2 ^ 8" using unsigned_less [of m] by simp
  then have "parse_digits 16 255 0 (show_radix 16 (unat m)) = Some (unat m)"
    by (intro parse_digits_show) auto
  then have "from_str_radix 16 255 (show_hex02 (unat m)) = Some (unat m)"
    by (simp add: from_str_radix_digits digits_hex02) (simp add: show_hex02_def Let_def parse_digits_zeros)
  then show ?thesis by (simp add: parse_cos_mask_def)
qed

lemma entry_free: "CHR '';'' \<notin> set (show_entry o_ns d_ns m)" "\<forall>c \<in> set (show_entry o_ns d_ns m). \<not> is_whitespace c"
    "show_entry o_ns d_ns m \<noteq> []"
  using digits_free [OF digits_show_radix [of 10 o_ns]] digits_free [OF digits_show_radix [of 10 d_ns]]
    digits_free [OF digits_hex02 [of "unat m"]] digits_show_radix [of 10 o_ns]
  by (auto simp: show_entry_def is_whitespace_def digits_def)

lemma parse_entry_show:
  assumes "o_ns \<le> u64_max" "d_ns \<le> u64_max"
  shows "parse_entry (show_entry o_ns d_ns m) = Inr (Some
    \<lparr>offset_ps = sat_mul o_ns 1000, duration_ps = sat_mul d_ns 1000, allowed_cos_mask = m\<rparr>)"
proof -
  note free = digits_free [OF digits_show_radix [of 10 o_ns]] digits_free [OF digits_show_radix [of 10 d_ns]]
    digits_free [OF digits_hex02 [of "unat m"]]
  have "CHR '':'' \<notin> set (''0x'' @ show_hex02 (unat m))" using free by auto
  from split_char_no_sep [OF this]
  have "split_char (CHR '':'') (show_entry o_ns d_ns m)
      = [show_radix 10 o_ns, show_radix 10 d_ns, ''0x'' @ show_hex02 (unat m)]"
    using free by (simp add: show_entry_def split_char_append)
  moreover have "trim (''0x'' @ show_hex02 (unat m)) = ''0x'' @ show_hex02 (unat m)"
    using free by (intro trim_id) (auto simp: is_whitespace_def)
  moreover have "trim (show_radix 10 o_ns) = show_radix 10 o_ns" "trim (show_radix 10 d_ns) = show_radix 10 d_ns"
    using free by (auto intro: trim_id)
  ultimately show ?thesis
    using parse_cos_mask_show [of m] assms
    by (simp add: parse_entry_def trim_id [OF entry_free(2)] entry_free(3) parse_decimal_show Let_def)
qed

lemma parse_entries_show:
  "\<forall>(o_ns, d_ns, m) \<in> set es. o_ns \<le> u64_max \<and> d_ns \<le> u64_max \<Longrightarrow>
     parse_entries (map (\<lambda>(o_ns, d_ns, m). show_entry o_ns d_ns m) es)
       = Inr (map (\<lambda>(o_ns, d_ns, m).
           \<lparr>offset_ps = sat_mul o_ns 1000, duration_ps = sat_mul d_ns 1000, allowed_cos_mask = m\<rparr>) es)"
  by (induction es) (auto simp: parse_entry_show)

lemma not_whitespace_semicolon [simp]: "\<not> is_whitespace (CHR '';'')"
  by (simp add: is_whitespace_def)

lemma set_join_entries: "set (join_entries es) \<subseteq> insert (CHR '';'') (\<Union>e \<in> set es. set e)"
  by (induction es rule: join_entries.induct) auto

lemma join_entries_free:
  assumes "es \<noteq> []" "\<forall>e \<in> set es. e \<noteq> [] \<and> (\<forall>c \<in> set e. \<not> is_whitespace c)"
  shows "join_entries es \<noteq> []" "\<forall>c \<in> set (join_entries es). \<not> is_whitespace c"
proof -
  show "join_entries es \<noteq> []" using assms by (cases es rule: join_entries.cases) simp_all
  show "\<forall>c \<in> set (join_entries es). \<not> is_whitespace c"
  proof
    fix c assume "c \<in> set (join_entries es)"
    with set_join_entries have "c = CHR '';'' \<or> (\<exists>e \<in> set es. c \<in> set e)" by blast
    with assms(2) show "\<not> is_whitespace c" by auto
  qed
qed

text \<open>Parsing a list of printed entries leaves only the tiling check.\<close>

lemma parse_printed:
  assumes "es \<noteq> []" "\<forall>(o_ns, d_ns, m) \<in> set es. o_ns \<le> u64_max \<and> d_ns \<le> u64_max"
    and ws: "ws = map (\<lambda>(o_ns, d_ns, m).
           \<lparr>offset_ps = sat_mul o_ns 1000, duration_ps = sat_mul d_ns 1000, allowed_cos_mask = m\<rparr>) es"
  shows "parse (join_entries (map (\<lambda>(o_ns, d_ns, m). show_entry o_ns d_ns m) es)) =
    (case check_tiling 0 0 ws of Inl e \<Rightarrow> Inl e | Inr cycle \<Rightarrow> Inr \<lparr>windows = ws, cycle_ps = cycle\<rparr>)"
proof -
  let ?ps = "map (\<lambda>(o_ns, d_ns, m). show_entry o_ns d_ns m) es"
  have ne: "?ps \<noteq> []" using assms(1) by simp
  have "\<forall>e \<in> set ?ps. e \<noteq> [] \<and> (\<forall>c \<in> set e. \<not> is_whitespace c)" using entry_free by auto
  note free = join_entries_free [OF ne this]
  have split: "split_char (CHR '';'') (join_entries ?ps) = ?ps"
    using entry_free by (intro split_join ne) auto
  show ?thesis using assms(1) free(1) unfolding ws
    by (simp only: parse_def Let_def trim_id [OF free(2)] split parse_entries_show [OF assms(2)]) simp
qed



section \<open>The tiling invariant\<close>

text \<open>Windows of positive duration that abut from a given offset on, and the schedule they fill. The
  bound on the cycle keeps the products of the latency computation within \<^verbatim>\<open>i128\<close> (a cycle of
  \<open>2^63\<close> picoseconds lasts over a hundred days).\<close>

fun tiles :: "nat \<Rightarrow> gate_window list \<Rightarrow> nat \<Rightarrow> bool" where
  "tiles a [] b \<longleftrightarrow> a = b"
| "tiles a (w # ws) b \<longleftrightarrow>
     0 < duration_ps w \<and> offset_ps w = a \<and> tiles (a + duration_ps w) ws b"

definition gate_wf :: "gate_schedule \<Rightarrow> bool" where
  "gate_wf s \<longleftrightarrow> windows s \<noteq> [] \<and> tiles 0 (windows s) (cycle_ps s) \<and> cycle_ps s < 2 ^ 63"

lemma check_tiling_range: "e \<le> u64_max \<Longrightarrow> check_tiling i e ws = Inr c \<Longrightarrow> e \<le> c \<and> c \<le> u64_max"
proof (induction i e ws rule: check_tiling.induct)
  case (2 i e w ws)
  then have "e = offset_ps w" "check_tiling (i + 1) (sat_add (offset_ps w) (duration_ps w)) ws = Inr c"
    by (auto split: if_splits)
  with 2 show ?case by (auto split: if_splits simp: u64_range dest: order_trans [OF sat_add_ge])
qed simp

lemma check_tiling_tiles:
  "e \<le> u64_max \<Longrightarrow> check_tiling i e ws = Inr c \<Longrightarrow> c < u64_max \<Longrightarrow> tiles e ws c"
proof (induction i e ws rule: check_tiling.induct)
  case (2 i e w ws)
  then have w: "0 < duration_ps w" "offset_ps w = e"
    and run: "check_tiling (i + 1) (sat_add (offset_ps w) (duration_ps w)) ws = Inr c"
    by (auto split: if_splits)
  from check_tiling_range [OF sat_add_range run] 2(4) have "sat_add (offset_ps w) (duration_ps w) < u64_max" by simp
  then have "sat_add (offset_ps w) (duration_ps w) = e + duration_ps w"
    using w by (metis sat_add_less_max)
  with 2 w run show ?case by (auto simp: u64_range split: if_splits)
qed simp

lemma tiles_check: "tiles e ws c \<Longrightarrow> c \<le> u64_max \<Longrightarrow> check_tiling i e ws = Inr c"
proof (induction ws arbitrary: i e)
  case (Cons w ws)
  have "tiles e ws c \<Longrightarrow> e \<le> c" for e ws c
    by (induction ws arbitrary: e) fastforce+
  with Cons.prems have "e + duration_ps w \<le> u64_max" by fastforce
  with Cons show ?case by (simp add: sat_add_exact)
qed simp

lemma tiles_le: "tiles e ws c \<Longrightarrow> e \<le> c"
  by (induction ws arbitrary: e) fastforce+

lemma tiles_member: "tiles e ws c \<Longrightarrow> w \<in> set ws \<Longrightarrow> e \<le> offset_ps w \<and> offset_ps w + duration_ps w \<le> c \<and> 0 < duration_ps w"
proof (induction ws arbitrary: e)
  case (Cons v ws)
  then show ?case using tiles_le by (fastforce)
qed simp

lemma tiles_append: "tiles e (ws @ vs) c \<longleftrightarrow> (\<exists>m. tiles e ws m \<and> tiles m vs c)"
  by (induction ws arbitrary: e) auto

lemma tiles_sum: "tiles e ws c \<Longrightarrow> c = e + (\<Sum>w\<leftarrow>ws. duration_ps w)"
  by (induction ws arbitrary: e) fastforce+

lemma tiles_disjoint:
  "tiles e ws c \<Longrightarrow> sorted_wrt (\<lambda>v w. offset_ps v + duration_ps v \<le> offset_ps w) ws"
proof (induction ws arbitrary: e)
  case (Cons v ws)
  then show ?case using tiles_member by fastforce
qed simp

definition whole_nanos :: "gate_schedule \<Rightarrow> bool" where
  "whole_nanos s \<longleftrightarrow> (\<forall>w \<in> set (windows s). 1000 dvd offset_ps w \<and> 1000 dvd duration_ps w)"


section \<open>Properties\<close>

text \<open>An accepted gate-control list tiles its cycle: unless its times saturate at the top of the
  64-bit range, the windows have positive durations, abut from offset 0 in the order given, and end
  at the cycle period, which is the sum of the durations.\<close>

theorem parse_tiles:
  assumes "parse blob = Inr s" and "cycle_ps s < u64_max"
  shows "windows s \<noteq> [] \<and> tiles 0 (windows s) (cycle_ps s) \<and> cycle_ps s = (\<Sum>w\<leftarrow>windows s. duration_ps w)"
proof -
  from assms(1) have "windows s \<noteq> []" "check_tiling 0 0 (windows s) = Inr (cycle_ps s)"
    by (auto simp: parse_def Let_def split: if_splits sum.splits)
  with check_tiling_tiles [OF _ this(2) assms(2)] tiles_sum show ?thesis by fastforce
qed

theorem parse_tiles_witness:
  "case parse ''0:10:0x80; 10:5:3 ;'' of
     Inr s \<Rightarrow> tiles 0 (windows s) (cycle_ps s) \<and> cycle_ps s = 15000
   | Inl _ \<Rightarrow> False"
proof -
  have p: "parse ''0:10:0x80; 10:5:3 ;'' = Inr \<lparr>windows =
      [\<lparr>offset_ps = 0, duration_ps = 10000, allowed_cos_mask = 128\<rparr>,
       \<lparr>offset_ps = 10000, duration_ps = 5000, allowed_cos_mask = 3\<rparr>], cycle_ps = 15000\<rparr>"
    by (simp add: parse_def parse_entry_def parse_decimal_u64_def parse_cos_mask_def from_str_radix_def
        to_digit_def trim_def is_whitespace_def sat_simps u64_max_def)
  from parse_tiles [OF this] show ?thesis by (simp add: p u64_max_def)
qed

text \<open>C32. Printing and parsing are inverse: every schedule that tiles its cycle in whole nanoseconds is
  read back from its text exactly, masks included.\<close>

theorem parse_to_gcl_blob:
  assumes "gate_wf s" and "whole_nanos s"
  shows "parse (to_gcl_blob s) = Inr s"
proof -
  let ?es = "map (\<lambda>w. (offset_ps w div 1000, duration_ps w div 1000, allowed_cos_mask w)) (windows s)"
  let ?f = "\<lambda>(o_ns, d_ns, m). \<lparr>offset_ps = sat_mul o_ns 1000, duration_ps = sat_mul d_ns 1000, allowed_cos_mask = m\<rparr>"
  have c: "cycle_ps s \<le> u64_max" using assms(1) by (simp add: gate_wf_def u64_max_def)
  have small: "offset_ps w \<le> u64_max \<and> duration_ps w \<le> u64_max" if "w \<in> set (windows s)" for w
    using tiles_member [of 0 "windows s" "cycle_ps s" w] assms(1) that c by (auto simp: gate_wf_def)
  have "map ?f ?es = windows s"
    using small assms(2) by (auto simp: whole_nanos_def sat_mul_min intro!: map_idI)
  moreover have "\<forall>(o_ns, d_ns, m) \<in> set ?es. o_ns \<le> u64_max \<and> d_ns \<le> u64_max"
    using small by (fastforce intro: order_trans [OF div_le_dividend])
  moreover have "?es \<noteq> []" using assms(1) by (simp add: gate_wf_def)
  ultimately have "parse (join_entries (map (\<lambda>(o_ns, d_ns, m). show_entry o_ns d_ns m) ?es)) =
    (case check_tiling 0 0 (windows s) of Inl e \<Rightarrow> Inl e | Inr cycle \<Rightarrow> Inr \<lparr>windows = windows s, cycle_ps = cycle\<rparr>)"
    by (intro parse_printed) simp_all
  moreover have "check_tiling 0 0 (windows s) = Inr (cycle_ps s)"
    using assms(1) c by (intro tiles_check) (simp_all add: gate_wf_def)
  ultimately show ?thesis by (simp add: to_gcl_blob_def comp_def)
qed


definition demo_gates :: gate_schedule where
  "demo_gates = \<lparr>windows = [\<lparr>offset_ps = 0, duration_ps = 300000, allowed_cos_mask = 128\<rparr>,
     \<lparr>offset_ps = 300000, duration_ps = 100000, allowed_cos_mask = 3\<rparr>,
     \<lparr>offset_ps = 400000, duration_ps = 100000, allowed_cos_mask = 128\<rparr>,
     \<lparr>offset_ps = 500000, duration_ps = 500000, allowed_cos_mask = 0\<rparr>], cycle_ps = 1000000\<rparr>"

lemma demo_gates_wf: "gate_wf demo_gates" "whole_nanos demo_gates"
  by (simp_all add: gate_wf_def whole_nanos_def demo_gates_def)

theorem parse_to_gcl_blob_witness:
  "to_gcl_blob demo_gates = ''0:300:0x80;300:100:0x03;400:100:0x80;500:500:0x00''
   \<and> parse ''0:300:0x80;300:100:0x03;400:100:0x80;500:500:0x00'' = Inr demo_gates"
proof -
  have "to_gcl_blob demo_gates = ''0:300:0x80;300:100:0x03;400:100:0x80;500:500:0x00''"
    by (simp add: to_gcl_blob_def demo_gates_def show_entry_def show_hex02_def show_radix.simps from_digit_def
        char_of_def bit_0)
  with parse_to_gcl_blob [OF demo_gates_wf] show ?thesis by simp
qed

text \<open>Times that saturate defeat the tiling check: both windows end at the largest 64-bit value, the
  second overlapping the first, and the list is accepted.\<close>

lemma parse_accepts_saturated:
  "parse ''0:18446744073709552:1;18446744073709552:5:2'' = Inr \<lparr>windows =
      [\<lparr>offset_ps = 0, duration_ps = u64_max, allowed_cos_mask = 1\<rparr>,
       \<lparr>offset_ps = u64_max, duration_ps = 5000, allowed_cos_mask = 2\<rparr>], cycle_ps = u64_max\<rparr>"
  by (simp add: parse_def parse_entry_def parse_decimal_u64_def parse_cos_mask_def from_str_radix_def
        to_digit_def trim_def is_whitespace_def sat_simps u64_max_def)

end
