(* ===== verification/Tas_Service.thy ===== *)
theory Tas_Service
  imports Gate_Schedule Curves
begin

unbundle bit_operations_syntax

text \<open>
  Service of a gated port, \<^verbatim>\<open>crates/spar-network/src/tsn.rs\<close>: the open fraction of a class, the
  longest closed run, the sound rate-latency latency \<^verbatim>\<open>min_service_latency_ps\<close>, the residual
  service curves with and without synchronisation error, and the credit-based-shaper, preemption
  and frame-quantisation terms.

  The reference is the gate itself: \<open>gate_open s cos x\<close> says whether the gate of a class is open
  at picosecond \<open>x\<close> of the periodic schedule, \<open>open_time\<close> counts the open picoseconds of a
  window of time. A sum that overflows 64 bits (a panic of a debug build) is \<open>None\<close>.
\<close>

section \<open>Open time and latency\<close>

definition allows :: "class_of_service \<Rightarrow> gate_window \<Rightarrow> bool" where
  "allows cos w \<longleftrightarrow> allowed_cos_mask w AND push_bit (cos_value cos) 1 \<noteq> 0"

definition open_fraction :: "gate_schedule \<Rightarrow> class_of_service \<Rightarrow> u64 \<times> u64" where
  "open_fraction s cos =
     (fold (\<lambda>w open_ps. if allows cos w then sat_add open_ps (duration_ps w) else open_ps) (windows s) 0,
      cycle_ps s)"

fun closed_pass :: "class_of_service \<Rightarrow> gate_window list \<Rightarrow> u64 \<times> u64 \<Rightarrow> u64 \<times> u64" where
  "closed_pass cos [] acc = acc"
| "closed_pass cos (w # ws) (max_closed, current_closed) =
     (if allows cos w
      then closed_pass cos ws (if current_closed > max_closed then current_closed else max_closed, 0)
      else closed_pass cos ws (max_closed, sat_add current_closed (duration_ps w)))"

definition worst_case_latency :: "gate_schedule \<Rightarrow> class_of_service \<Rightarrow> u64" where
  "worst_case_latency s cos =
     (if \<not> (\<exists>w \<in> set (windows s). allows cos w) then cycle_ps s
      else let (max_closed, current_closed) = closed_pass cos (windows s) (closed_pass cos (windows s) (0, 0));
               max_closed = (if current_closed > max_closed then current_closed else max_closed)
           in min max_closed (cycle_ps s))"

definition open_windows :: "gate_schedule \<Rightarrow> class_of_service \<Rightarrow> (u64 \<times> u64) list" where
  "open_windows s cos = map (\<lambda>w. (offset_ps w, duration_ps w)) (filter (allows cos) (windows s))"

text \<open>The candidates of one phase: from the end of open window \<open>i\<close> to the start of each later one.\<close>

definition scan_from :: "(u64 \<times> u64) list \<Rightarrow> int \<Rightarrow> int \<Rightarrow> nat \<Rightarrow> int \<Rightarrow> int" where
  "scan_from opens cycle open_total i best =
     (let w = length opens;
          phi_end = int (fst (opens ! i)) + int (snd (opens ! i))
      in fst (fold (\<lambda>k (best, o_accum).
            let j = (i + k) mod w;
                t = (int (fst (opens ! j)) - phi_end) mod cycle;
                cand = t * open_total - o_accum * cycle
            in (max best cand, o_accum + int (snd (opens ! j))))
          [1..<w + 1] (best, 0)))"

definition min_service_latency_ps :: "gate_schedule \<Rightarrow> class_of_service \<Rightarrow> u64 option" where
  "min_service_latency_ps s cos =
     (let opens = open_windows s cos;
          open_total = sum_list (map snd opens)
      in if open_total > u64_max then None
      else if open_total = 0 then Some (cycle_ps s)
      else if open_total \<ge> cycle_ps s then Some 0
      else let best = fold (scan_from opens (int (cycle_ps s)) (int open_total)) [0..<length opens] 0
           in Some (nat ((best + int open_total - 1) div int open_total)))"

definition tas_rate_bps :: "u64 \<Rightarrow> u64 \<Rightarrow> u64 \<Rightarrow> u64" where
  "tas_rate_bps link_rate_bps open_ps cycle =
     (if cycle = 0 \<or> open_ps = 0 then 0 else narrow_u64 (link_rate_bps * open_ps div cycle))"

definition tas_residual_service :: "gate_schedule \<Rightarrow> class_of_service \<Rightarrow> u64 \<Rightarrow> service_curve option" where
  "tas_residual_service s cos link_rate_bps =
     (let (open_ps, cycle) = open_fraction s cos
      in map_option (\<lambda>latency. rate_latency (tas_rate_bps link_rate_bps open_ps cycle) latency)
           (min_service_latency_ps s cos))"

definition tas_residual_service_with_sync_error ::
    "gate_schedule \<Rightarrow> class_of_service \<Rightarrow> u64 \<Rightarrow> u64 \<Rightarrow> service_curve option" where
  "tas_residual_service_with_sync_error s cos link_rate_bps sync_error_ps =
     (let (open_ps, cycle) = open_fraction s cos;
          effective_open_ps = sat_sub open_ps sync_error_ps
      in map_option (\<lambda>latency. rate_latency (tas_rate_bps link_rate_bps effective_open_ps cycle)
                                 (sat_add latency sync_error_ps))
           (min_service_latency_ps s cos))"


section \<open>Credit-based shaper, preemption, frame quantisation\<close>

record cbs_reservation =
  idle_slope_bps :: u64
  send_slope_bps :: int
  hi_credit_bytes :: u64
  lo_credit_bytes :: u64

definition cbs_reservation_new :: "u64 \<Rightarrow> u64 \<Rightarrow> u64 \<Rightarrow> u64 \<Rightarrow> cbs_reservation option" where
  "cbs_reservation_new idle link hi lo =
     (if link = 0 \<or> idle > link then None
      else let send = int idle - int link;
               send = (if send < - (2 ^ 63) then - (2 ^ 63) else send)
           in Some \<lparr>idle_slope_bps = idle, send_slope_bps = send, hi_credit_bytes = hi, lo_credit_bytes = lo\<rparr>)"

definition reserved_fraction :: "cbs_reservation \<Rightarrow> u64 \<times> u64" where
  "reserved_fraction r =
     (let link = int (idle_slope_bps r) - send_slope_bps r
      in (idle_slope_bps r, if link < 0 then 0 else nat (link mod 2 ^ 64)))"

definition cbs_time_to_send_ps_rounded_up :: "u64 \<Rightarrow> u64 \<Rightarrow> u64" where
  "cbs_time_to_send_ps_rounded_up bytes rate =
     (if rate = 0 then u64_max else narrow_u64 (div_ceil (bytes * 8 * 1000000000000) rate))"

definition cbs_residual_service :: "cbs_reservation \<Rightarrow> u64 \<Rightarrow> u64 \<Rightarrow> service_curve" where
  "cbs_residual_service r link_rate_bps max_competing_frame_bytes =
     (let blocking_ps = (if link_rate_bps = 0 then 0
                         else cbs_time_to_send_ps_rounded_up max_competing_frame_bytes link_rate_bps);
          send_slope_abs = (if send_slope_bps r \<ge> 0 then 0 else nat (- send_slope_bps r));
          recovery_ps = (if send_slope_abs = 0 then 0
                         else cbs_time_to_send_ps_rounded_up (lo_credit_bytes r) send_slope_abs)
      in rate_latency (idle_slope_bps r) (sat_add blocking_ps recovery_ps))"

definition MIN_FRAGMENT_BYTES :: u64 where
  "MIN_FRAGMENT_BYTES = 64"

definition PREEMPTION_HEADER_BYTES :: u64 where
  "PREEMPTION_HEADER_BYTES = 4"

definition preemption_blocking_term_ps :: "u64 \<Rightarrow> u64 \<Rightarrow> bool \<Rightarrow> u64" where
  "preemption_blocking_term_ps link_rate_bps max_competing_frame_bytes preemption_enabled =
     (if link_rate_bps = 0 then 0
      else let bytes = (if preemption_enabled then sat_add MIN_FRAGMENT_BYTES PREEMPTION_HEADER_BYTES
                        else max_competing_frame_bytes)
           in narrow_u64 (div_ceil (bytes * 8 * 1000000000000) link_rate_bps))"

definition frame_quantization_ps :: "u64 \<Rightarrow> u64 \<Rightarrow> u64" where
  "frame_quantization_ps max_frame_bytes link_rate_bps =
     (if link_rate_bps = 0 then u64_max
      else narrow_u64 (div_ceil (max_frame_bytes * 8 * 1000000000000) link_rate_bps))"


section \<open>A periodic gate\<close>

text \<open>Picosecond by picosecond: what is open before \<open>x\<close>, and the potential \<open>x \<cdot> open - cycle \<cdot> opened\<close>,
  which rises while the gate is closed and falls while it is open.\<close>

definition open_before :: "(nat \<Rightarrow> bool) \<Rightarrow> nat \<Rightarrow> nat" where
  "open_before g x = card {y. y < x \<and> g y}"

definition potential :: "(nat \<Rightarrow> bool) \<Rightarrow> nat \<Rightarrow> nat \<Rightarrow> int" where
  "potential g cycle x = int x * int (open_before g cycle) - int cycle * int (open_before g x)"

lemma open_before_0 [simp]: "open_before g 0 = 0"
  by (simp add: open_before_def)

lemma open_before_Suc: "open_before g (Suc x) = open_before g x + (if g x then 1 else 0)"
proof -
  have "{y. y < Suc x \<and> g y} = (if g x then insert x {y. y < x \<and> g y} else {y. y < x \<and> g y})"
    by (auto simp: less_Suc_eq)
  then show ?thesis by (simp add: open_before_def)
qed

lemma open_before_le: "open_before g x \<le> x"
  by (induction x) (auto simp: open_before_Suc)

text \<open>The interface of a periodic gate: a predicate on instants and its period. The extremes of the
  potential lie at the boundaries of open runs.\<close>

locale periodic_gate =
  fixes g :: "nat \<Rightarrow> bool" and cycle :: nat
  assumes periodic: "g (x + cycle) = g x"
begin

lemma open_before_add: "open_before g (x + cycle) = open_before g x + open_before g cycle"
  by (induction x) (auto simp: open_before_Suc periodic)

lemma potential_add: "potential g cycle (x + cycle) = potential g cycle x"
  unfolding potential_def open_before_add by (simp add: algebra_simps)

lemma potential_mult: "potential g cycle (x + n * cycle) = potential g cycle x"
proof (induction n)
  case (Suc n)
  have "x + Suc n * cycle = x + n * cycle + cycle" by simp
  with Suc show ?case by (simp only: potential_add)
qed simp

lemma potential_mod: "potential g cycle (x mod cycle) = potential g cycle x"
  using potential_mult [of "x mod cycle" "x div cycle"] by (simp add: mult.commute)

lemma g_mult: "g (x + n * cycle) = g x"
proof (induction n)
  case (Suc n)
  have "x + Suc n * cycle = x + n * cycle + cycle" by simp
  with Suc show ?case by (simp only: periodic)
qed simp

lemma potential_Suc_closed: "\<not> g x \<Longrightarrow> potential g cycle x \<le> potential g cycle (Suc x)"
  by (simp add: potential_def open_before_Suc algebra_simps)

lemma potential_Suc_open: "g x \<Longrightarrow> potential g cycle (Suc x) \<le> potential g cycle x"
  using open_before_le [of g cycle] by (simp add: potential_def open_before_Suc algebra_simps)

lemma potential_closed_run: "\<forall>y. x \<le> y \<and> y < x + n \<longrightarrow> \<not> g y \<Longrightarrow> potential g cycle x \<le> potential g cycle (x + n)"
proof (induction n)
  case (Suc n)
  then have "potential g cycle x \<le> potential g cycle (x + n)" "\<not> g (x + n)" by auto
  then show ?case using potential_Suc_closed by fastforce
qed simp

lemma potential_open_run: "\<forall>y. x \<le> y \<and> y < x + n \<longrightarrow> g y \<Longrightarrow> potential g cycle (x + n) \<le> potential g cycle x"
proof (induction n)
  case (Suc n)
  then have "potential g cycle (x + n) \<le> potential g cycle x" "g (x + n)" by auto
  then show ?case using potential_Suc_open by fastforce
qed simp

lemma next_open:
  assumes "0 < open_before g cycle" "0 < cycle"
  obtains n where "g (x + n)" "potential g cycle x \<le> potential g cycle (x + n)"
proof -
  from assms(1) have "{y. y < cycle \<and> g y} \<noteq> {}" unfolding open_before_def by force
  then obtain y where "g y" by auto
  then have "g (y + x * cycle)" by (simp only: g_mult)
  moreover have "x \<le> y + x * cycle" using assms(2) by (simp add: trans_le_add2)
  ultimately have "g (x + (y + x * cycle - x))" by simp
  then have ex: "\<exists>n. g (x + n)" by blast
  define n where "n = (LEAST n. g (x + n))"
  have n: "g (x + n)" unfolding n_def by (rule LeastI_ex [OF ex])
  have "\<not> g z" if "x \<le> z" "z < x + n" for z
    using not_less_Least [of "z - x" "\<lambda>n. g (x + n)"] that by (auto simp: n_def)
  then show thesis using that [OF n] potential_closed_run by blast
qed

lemma previous_open:
  assumes "0 < open_before g cycle" "0 < cycle"
  obtains z where "g z" "potential g cycle (Suc z) \<le> potential g cycle x"
proof -
  from assms(1) have "{y. y < cycle \<and> g y} \<noteq> {}" unfolding open_before_def by force
  then obtain y where y: "y < cycle" "g y" by auto
  let ?x = "x + cycle" and ?S = "{z. z < x + cycle \<and> g z}"
  have "finite ?S" by simp
  moreover have "y \<in> ?S" using y by simp
  ultimately have "finite ?S" "?S \<noteq> {}" by blast+
  define z where "z = Max ?S"
  have z: "z < ?x" "g z" using Max_in [OF \<open>finite ?S\<close> \<open>?S \<noteq> {}\<close>] by (auto simp: z_def)
  have "\<not> g u" if "Suc z \<le> u" "u < Suc z + (?x - Suc z)" for u
  proof
    assume "g u"
    moreover have "u < ?x" using that z(1) by linarith
    ultimately have "u \<le> z" unfolding z_def by (intro Max_ge \<open>finite ?S\<close>) simp
    with that(1) show False by simp
  qed
  then have "potential g cycle (Suc z) \<le> potential g cycle (Suc z + (?x - Suc z))"
    by (intro potential_closed_run) blast
  also have "Suc z + (?x - Suc z) = ?x" using z(1) by simp
  finally show thesis using that [OF z(2)] potential_add by simp
qed

end

text \<open>The gate of a class at an instant of the periodic schedule.\<close>

definition gate_open :: "gate_schedule \<Rightarrow> class_of_service \<Rightarrow> nat \<Rightarrow> bool" where
  "gate_open s cos x \<longleftrightarrow> (\<exists>w \<in> set (windows s). allows cos w
     \<and> offset_ps w \<le> x mod cycle_ps s \<and> x mod cycle_ps s < offset_ps w + duration_ps w)"

definition open_time :: "gate_schedule \<Rightarrow> class_of_service \<Rightarrow> nat \<Rightarrow> nat \<Rightarrow> nat" where
  "open_time s cos phase t = card {x. phase \<le> x \<and> x < phase + t \<and> gate_open s cos x}"

interpretation gate: periodic_gate "gate_open s cos" "cycle_ps s" for s cos
  by unfold_locales (simp add: gate_open_def)

lemma open_time_eq: "open_before (gate_open s cos) (phase + t) = open_before (gate_open s cos) phase + open_time s cos phase t"
proof -
  have "{y. y < phase + t \<and> gate_open s cos y}
      = {y. y < phase \<and> gate_open s cos y} \<union> {x. phase \<le> x \<and> x < phase + t \<and> gate_open s cos x}" by auto
  moreover have "finite {x. phase \<le> x \<and> x < phase + t \<and> gate_open s cos x}"
    by (rule finite_subset [of _ "{..<phase + t}"]) auto
  ultimately show ?thesis unfolding open_before_def open_time_def
    by (simp add: card_Un_disjoint disjoint_iff)
qed


section \<open>Open windows of a well-formed schedule\<close>

lemma open_windows_sorted:
  "gate_wf s \<Longrightarrow> sorted_wrt (\<lambda>v w. fst v + snd v \<le> fst w) (open_windows s cos)"
  unfolding open_windows_def gate_wf_def
  by (auto simp: sorted_wrt_map intro!: sorted_wrt_filter dest: tiles_disjoint)

lemma open_windows_member:
  "gate_wf s \<Longrightarrow> (a, d) \<in> set (open_windows s cos) \<Longrightarrow> 0 < d \<and> a + d \<le> cycle_ps s"
  unfolding open_windows_def gate_wf_def using tiles_member by fastforce

lemma gate_open_iff:
  "x < cycle_ps s \<Longrightarrow> gate_open s cos x \<longleftrightarrow> (\<exists>(a, d) \<in> set (open_windows s cos). a \<le> x \<and> x < a + d)"
  by (auto simp: gate_open_def open_windows_def)

text \<open>Time covered by a sorted list of disjoint intervals before one of its boundaries.\<close>

lemma covered_prefix:
  fixes vs :: "(nat \<times> nat) list"
  assumes "sorted_wrt (\<lambda>v w. fst v + snd v \<le> fst w) vs" "\<forall>x < b. P x \<longleftrightarrow> (\<exists>(a, d) \<in> set vs. a \<le> x \<and> x < a + d)"
    "\<forall>(a, d) \<in> set vs. a + d \<le> b"
  shows "card {x. x < b \<and> P x} = sum_list (map snd vs)"
  using assms
proof (induction vs arbitrary: b P rule: rev_induct)
  case Nil
  then have "{x. x < b \<and> P x} = {}" by auto
  then show ?case by (simp only: card.empty) simp
next
  case (snoc v vs)
  obtain a d where v: "v = (a, d)" by force
  have before: "b' + e \<le> a" if "(b', e) \<in> set vs" for b' e
    using snoc.prems(1) that by (force simp: sorted_wrt_append v)
  let ?Q = "\<lambda>x. \<exists>(b, e) \<in> set vs. b \<le> x \<and> x < b + e"
  have split: "{x. x < b \<and> P x} = {x. x < a \<and> ?Q x} \<union> {a..<a + d}"
    using snoc.prems(2,3) before by (fastforce simp: v)
  have "card {x. x < a \<and> ?Q x} = sum_list (map snd vs)"
    using snoc.prems(1) before by (intro snoc.IH) (auto simp: sorted_wrt_append)
  then show ?case unfolding split by (simp add: card_Un_disjoint disjoint_iff v)
qed

lemma open_before_boundary:
  assumes "gate_wf s" "b \<le> cycle_ps s"
    and "\<forall>(a, d) \<in> set (take n (open_windows s cos)). a + d \<le> b"
    and "\<forall>(a, d) \<in> set (drop n (open_windows s cos)). b \<le> a"
  shows "open_before (gate_open s cos) b = sum_list (map snd (take n (open_windows s cos)))"
  unfolding open_before_def
proof (rule covered_prefix)
  let ?vs = "open_windows s cos"
  show "sorted_wrt (\<lambda>v w. fst v + snd v \<le> fst w) (take n ?vs)"
    by (rule sorted_wrt_take [OF open_windows_sorted [OF assms(1)]])
  have "set ?vs = set (take n ?vs) \<union> set (drop n ?vs)"
    by (metis append_take_drop_id set_append)
  then show "\<forall>x < b. gate_open s cos x \<longleftrightarrow> (\<exists>(a, d) \<in> set (take n ?vs). a \<le> x \<and> x < a + d)"
    using assms(2,4) by (fastforce simp: gate_open_iff)
qed (use assms(3) in blast)

lemma open_before_start:
  assumes "gate_wf s" "j < length (open_windows s cos)"
  shows "open_before (gate_open s cos) (fst (open_windows s cos ! j)) = sum_list (map snd (take j (open_windows s cos)))"
proof (rule open_before_boundary [OF assms(1)])
  let ?vs = "open_windows s cos"
  note sorted = open_windows_sorted [OF assms(1), of cos, unfolded sorted_wrt_iff_nth_less]
  show "fst (?vs ! j) \<le> cycle_ps s"
    using open_windows_member [OF assms(1), of "fst (?vs ! j)" "snd (?vs ! j)" cos] assms(2) by simp
  show "\<forall>(a, d) \<in> set (take j ?vs). a + d \<le> fst (?vs ! j)"
    using sorted assms(2) by (force simp: in_set_conv_nth)
  show "\<forall>(a, d) \<in> set (drop j ?vs). fst (?vs ! j) \<le> a"
  proof (clarsimp simp: in_set_conv_nth)
    fix a d i assume "i < length ?vs - j" "?vs ! (j + i) = (a, d)"
    moreover from this have "j + i < length ?vs" by simp
    ultimately show "fst (?vs ! j) \<le> a"
      using sorted [rule_format, of j "j + i"] by (cases "i = 0") auto
  qed
qed

lemma open_before_end:
  assumes "gate_wf s" "i < length (open_windows s cos)"
  shows "open_before (gate_open s cos) (fst (open_windows s cos ! i) + snd (open_windows s cos ! i))
    = sum_list (map snd (take (Suc i) (open_windows s cos)))"
proof (rule open_before_boundary [OF assms(1)])
  let ?vs = "open_windows s cos"
  note sorted = open_windows_sorted [OF assms(1), of cos, unfolded sorted_wrt_iff_nth_less]
  show "fst (?vs ! i) + snd (?vs ! i) \<le> cycle_ps s"
    using open_windows_member [OF assms(1), of "fst (?vs ! i)" "snd (?vs ! i)" cos] assms(2) by simp
  show "\<forall>(a, d) \<in> set (take (Suc i) ?vs). a + d \<le> fst (?vs ! i) + snd (?vs ! i)"
  proof (clarsimp simp: in_set_conv_nth)
    fix a d m assume "m < length ?vs" "m < Suc i" "?vs ! m = (a, d)"
    then show "a + d \<le> fst (?vs ! i) + snd (?vs ! i)"
      using sorted [rule_format, of m i] assms(2) by (cases "m = i") (auto simp: less_Suc_eq)
  qed
  show "\<forall>(a, d) \<in> set (drop (Suc i) ?vs). fst (?vs ! i) + snd (?vs ! i) \<le> a"
  proof (clarsimp simp: in_set_conv_nth)
    fix a d m assume "m < length ?vs - Suc i" "?vs ! Suc (i + m) = (a, d)"
    then show "fst (?vs ! i) + snd (?vs ! i) \<le> a"
      using sorted [rule_format, of i "Suc (i + m)"] assms(2) by auto
  qed
qed

lemma open_before_cycle:
  assumes "gate_wf s"
  shows "open_before (gate_open s cos) (cycle_ps s) = sum_list (map snd (open_windows s cos))"
  using open_before_boundary [OF assms order_refl, of "length (open_windows s cos)" cos]
    open_windows_member [OF assms] by fastforce

lemma open_fraction_eq:
  assumes "gate_wf s"
  shows "open_fraction s cos = (open_before (gate_open s cos) (cycle_ps s), cycle_ps s)"
proof -
  have "fold (\<lambda>w acc. if allows cos w then sat_add acc (duration_ps w) else acc) ws a
      = min (a + (\<Sum>w\<leftarrow>filter (allows cos) ws. duration_ps w)) u64_max" if "a \<le> u64_max" for ws a
    using that by (induction ws arbitrary: a) (auto simp: sat_add_min min_def)
  from this [of 0 "windows s"]
  have "fst (open_fraction s cos) = min (open_before (gate_open s cos) (cycle_ps s)) u64_max"
    by (simp add: open_fraction_def open_before_cycle [OF assms] open_windows_def comp_def)
  moreover have "open_before (gate_open s cos) (cycle_ps s) \<le> u64_max"
    using open_before_le [of "gate_open s cos" "cycle_ps s"] assms by (simp add: gate_wf_def u64_max_def)
  ultimately show ?thesis by (simp add: open_fraction_def)
qed


section \<open>The candidates are potential differences\<close>

text \<open>Cyclic prefix sums of the durations.\<close>

definition cyclic_sum :: "(nat \<times> nat) list \<Rightarrow> nat \<Rightarrow> nat" where
  "cyclic_sum vs n = (\<Sum>m<n. snd (vs ! (m mod length vs)))"

lemma cyclic_sum_Suc: "cyclic_sum vs (Suc n) = cyclic_sum vs n + snd (vs ! (n mod length vs))"
  by (simp add: cyclic_sum_def)

lemma cyclic_sum_take: "j \<le> length vs \<Longrightarrow> cyclic_sum vs j = sum_list (map snd (take j vs))"
proof (induction j)
  case (Suc j)
  then show ?case by (simp add: cyclic_sum_def take_Suc_conv_app_nth)
qed (simp add: cyclic_sum_def)

lemma cyclic_sum_wrap: "cyclic_sum vs (length vs + n) = sum_list (map snd vs) + cyclic_sum vs n"
proof (induction n)
  case 0
  then show ?case using cyclic_sum_take [of "length vs" vs] by (simp add: cyclic_sum_def)
next
  case (Suc n)
  then show ?case by (simp add: cyclic_sum_def)
qed

definition cand :: "(nat \<times> nat) list \<Rightarrow> int \<Rightarrow> int \<Rightarrow> nat \<Rightarrow> nat \<Rightarrow> int" where
  "cand vs cycle tot i k =
     (int (fst (vs ! ((i + k) mod length vs))) - (int (fst (vs ! i)) + int (snd (vs ! i)))) mod cycle * tot
     - (int (cyclic_sum vs (i + k)) - int (cyclic_sum vs (Suc i))) * cycle"

lemma scan_from_le:
  "scan_from vs cycle tot i best \<le> B \<longleftrightarrow> best \<le> B \<and> (\<forall>k \<in> {1..length vs}. cand vs cycle tot i k \<le> B)"
proof -
  let ?step = "\<lambda>k (best, o_accum).
            let j = (i + k) mod length vs;
                t = (int (fst (vs ! j)) - (int (fst (vs ! i)) + int (snd (vs ! i)))) mod cycle;
                cand = t * tot - o_accum * cycle
            in (max best cand, o_accum + int (snd (vs ! j)))"
  have "\<exists>b. fold ?step [1..<n + 1] (best, 0) = (b, int (cyclic_sum vs (i + n + 1)) - int (cyclic_sum vs (Suc i)))
      \<and> (b \<le> B \<longleftrightarrow> best \<le> B \<and> (\<forall>k \<in> {1..n}. cand vs cycle tot i k \<le> B))" for n
  proof (induction n)
    case (Suc n)
    then obtain b where b: "fold ?step [1..<n + 1] (best, 0)
        = (b, int (cyclic_sum vs (i + n + 1)) - int (cyclic_sum vs (Suc i)))"
      "b \<le> B \<longleftrightarrow> best \<le> B \<and> (\<forall>k \<in> {1..n}. cand vs cycle tot i k \<le> B)" by blast
    have "[1..<Suc n + 1] = [1..<n + 1] @ [Suc n]" by simp
    then have "fold ?step [1..<Suc n + 1] (best, 0)
        = (max b (cand vs cycle tot i (Suc n)), int (cyclic_sum vs (i + Suc n + 1)) - int (cyclic_sum vs (Suc i)))"
      by (simp only: fold_append comp_apply b(1)) (simp add: cand_def cyclic_sum_Suc Let_def)
    moreover have "{1..Suc n} = insert (Suc n) {1..n}" by auto
    ultimately show ?case using b(2) by auto
  qed simp
  from this [of "length vs"] show ?thesis by (auto simp: scan_from_def Let_def)
qed

lemma scan_all_le:
  "fold (scan_from vs cycle tot) is best \<le> B \<longleftrightarrow>
     best \<le> B \<and> (\<forall>i \<in> set is. \<forall>k \<in> {1..length vs}. cand vs cycle tot i k \<le> B)"
  by (induction "is" arbitrary: best) (auto simp: scan_from_le)

lemma cand_eq:
  assumes "gate_wf s" and vs: "vs = open_windows s cos"
    and "i < length vs" "k \<in> {1..length vs}"
  shows "cand vs (int (cycle_ps s)) (int (sum_list (map snd vs))) i k
    = potential (gate_open s cos) (cycle_ps s) (fst (vs ! ((i + k) mod length vs)))
      - potential (gate_open s cos) (cycle_ps s) (fst (vs ! i) + snd (vs ! i))"
proof -
  let ?C = "cycle_ps s" and ?j = "(i + k) mod length vs"
  let ?fin = "fst (vs ! i) + snd (vs ! i)"
  have mem: "0 < snd (vs ! m) \<and> fst (vs ! m) + snd (vs ! m) \<le> ?C" if "m < length vs" for m
    using open_windows_member [OF assms(1), of "fst (vs ! m)" "snd (vs ! m)" cos] that vs by simp
  have lt: "fst (vs ! a) + snd (vs ! a) \<le> fst (vs ! b)" if "a < b" "b < length vs" for a b
    using open_windows_sorted [OF assms(1), of cos] that vs by (simp add: sorted_wrt_iff_nth_less)
  have j: "?j < length vs" using assms(3) by (intro mod_less_divisor) auto
  have start: "open_before (gate_open s cos) (fst (vs ! ?j)) = cyclic_sum vs ?j"
    using open_before_start [OF assms(1)] j vs by (simp add: cyclic_sum_take)
  have fin: "open_before (gate_open s cos) ?fin = cyclic_sum vs (Suc i)"
    using open_before_end [OF assms(1)] assms(3) vs by (simp add: cyclic_sum_take)
  have total: "open_before (gate_open s cos) ?C = sum_list (map snd vs)"
    using open_before_cycle [OF assms(1)] vs by simp
  show ?thesis
  proof (cases "i + k < length vs")
    case True
    then have "?j = i + k" "?fin \<le> fst (vs ! ?j)" using lt assms(4) by auto
    moreover have "fst (vs ! ?j) < ?C" using mem [OF j] by simp
    ultimately have t: "(int (fst (vs ! ?j)) - (int (fst (vs ! i)) + int (snd (vs ! i)))) mod int ?C
        = int (fst (vs ! ?j)) - int ?fin"
      by (intro trans [OF mod_pos_pos_trivial]) simp_all
    have "cyclic_sum vs (i + k) = cyclic_sum vs ?j" using \<open>?j = i + k\<close> by simp
    then show ?thesis
      unfolding cand_def potential_def start fin total t by (simp add: algebra_simps)
  next
    case False
    have small: "i + k - length vs < length vs" using assms(3,4) by auto
    from False have "?j = i + k - length vs" using le_mod_geq [of "length vs" "i + k"] small by simp
    with False have jk: "i + k = length vs + ?j" by linarith
    with assms(4) have "?j \<le> i" by simp
    then have "fst (vs ! ?j) < ?fin"
      using lt [of ?j i] mem [OF assms(3)] mem [OF j] assms(3) by (cases "?j = i") fastforce+
    moreover have "?fin \<le> ?C" "0 < ?C" using mem [OF assms(3)] by auto
    ultimately have "(int (fst (vs ! ?j)) - (int (fst (vs ! i)) + int (snd (vs ! i))) + int ?C) mod int ?C
        = int (fst (vs ! ?j)) - int ?fin + int ?C"
      by (intro trans [OF mod_pos_pos_trivial]) simp_all
    then have t: "(int (fst (vs ! ?j)) - (int (fst (vs ! i)) + int (snd (vs ! i)))) mod int ?C
        = int (fst (vs ! ?j)) - int ?fin + int ?C" by simp
    have "cyclic_sum vs (i + k) = sum_list (map snd vs) + cyclic_sum vs ?j"
      using cyclic_sum_wrap [of vs ?j] jk by metis
    then show ?thesis
      unfolding cand_def potential_def start fin total t by (simp add: algebra_simps)
  qed
qed


section \<open>The latency is the least sound one\<close>

lemma potential_window:
  "potential (gate_open s cos) (cycle_ps s) (phase + t) - potential (gate_open s cos) (cycle_ps s) phase
     = int t * int (open_before (gate_open s cos) (cycle_ps s)) - int (cycle_ps s) * int (open_time s cos phase t)"
  unfolding potential_def open_time_eq by (simp add: algebra_simps)

lemma gate_open_window:
  assumes "gate_wf s" "gate_open s cos z"
  obtains i where "i < length (open_windows s cos)" "fst (open_windows s cos ! i) \<le> z mod cycle_ps s"
    "z mod cycle_ps s < fst (open_windows s cos ! i) + snd (open_windows s cos ! i)"
    "\<And>y. fst (open_windows s cos ! i) \<le> y \<Longrightarrow> y < fst (open_windows s cos ! i) + snd (open_windows s cos ! i) \<Longrightarrow> gate_open s cos y"
proof -
  have "0 < cycle_ps s" using assms(1) tiles_member by (fastforce simp: gate_wf_def neq_Nil_conv)
  then have lt: "z mod cycle_ps s < cycle_ps s" by simp
  have "gate_open s cos (z mod cycle_ps s)" using assms(2) by (simp add: gate_open_def)
  then obtain a d where "(a, d) \<in> set (open_windows s cos)" "a \<le> z mod cycle_ps s" "z mod cycle_ps s < a + d"
    unfolding gate_open_iff [OF lt] by blast
  then obtain i where i: "i < length (open_windows s cos)" "fst (open_windows s cos ! i) \<le> z mod cycle_ps s"
    "z mod cycle_ps s < fst (open_windows s cos ! i) + snd (open_windows s cos ! i)"
    by (metis fst_conv snd_conv in_set_conv_nth)
  have mem: "(fst (open_windows s cos ! i), snd (open_windows s cos ! i)) \<in> set (open_windows s cos)"
    using i(1) by simp
  show thesis
  proof (rule that [OF i])
    fix y assume y: "fst (open_windows s cos ! i) \<le> y" "y < fst (open_windows s cos ! i) + snd (open_windows s cos ! i)"
    then have "y < cycle_ps s" using open_windows_member [OF assms(1) mem] by simp
    with y mem show "gate_open s cos y" by (subst gate_open_iff) (auto intro!: bexI [OF _ mem])
  qed
qed

lemma potential_le_start:
  assumes "gate_wf s" "0 < open_before (gate_open s cos) (cycle_ps s)"
  obtains j where "j < length (open_windows s cos)"
    "potential (gate_open s cos) (cycle_ps s) x
       \<le> potential (gate_open s cos) (cycle_ps s) (fst (open_windows s cos ! j))"
proof -
  have c: "0 < cycle_ps s" using assms(2) by (cases "cycle_ps s") auto
  from gate.next_open [OF assms(2) c, of x] obtain n where n: "gate_open s cos (x + n)"
    "potential (gate_open s cos) (cycle_ps s) x \<le> potential (gate_open s cos) (cycle_ps s) (x + n)" by blast
  from gate_open_window [OF assms(1) n(1)] obtain i where i: "i < length (open_windows s cos)"
    "fst (open_windows s cos ! i) \<le> (x + n) mod cycle_ps s"
    "(x + n) mod cycle_ps s < fst (open_windows s cos ! i) + snd (open_windows s cos ! i)"
    "\<And>y. fst (open_windows s cos ! i) \<le> y \<Longrightarrow> y < fst (open_windows s cos ! i) + snd (open_windows s cos ! i) \<Longrightarrow> gate_open s cos y"
    by blast
  let ?a = "fst (open_windows s cos ! i)" and ?z = "(x + n) mod cycle_ps s"
  have "potential (gate_open s cos) (cycle_ps s) (?a + (?z - ?a)) \<le> potential (gate_open s cos) (cycle_ps s) ?a"
    using i(2-4) by (intro gate.potential_open_run) auto
  then have "potential (gate_open s cos) (cycle_ps s) (x + n) \<le> potential (gate_open s cos) (cycle_ps s) ?a"
    using i(2) gate.potential_mod [of s cos "x + n"] by simp
  with n(2) show thesis using that [OF i(1)] by simp
qed

lemma potential_ge_end:
  assumes "gate_wf s" "0 < open_before (gate_open s cos) (cycle_ps s)"
  obtains i where "i < length (open_windows s cos)"
    "potential (gate_open s cos) (cycle_ps s) (fst (open_windows s cos ! i) + snd (open_windows s cos ! i))
       \<le> potential (gate_open s cos) (cycle_ps s) x"
proof -
  have c: "0 < cycle_ps s" using assms(2) by (cases "cycle_ps s") auto
  from gate.previous_open [OF assms(2) c, of x] obtain z where z: "gate_open s cos z"
    "potential (gate_open s cos) (cycle_ps s) (Suc z) \<le> potential (gate_open s cos) (cycle_ps s) x" by blast
  from gate_open_window [OF assms(1) z(1)] obtain i where i: "i < length (open_windows s cos)"
    "fst (open_windows s cos ! i) \<le> z mod cycle_ps s"
    "z mod cycle_ps s < fst (open_windows s cos ! i) + snd (open_windows s cos ! i)"
    "\<And>y. fst (open_windows s cos ! i) \<le> y \<Longrightarrow> y < fst (open_windows s cos ! i) + snd (open_windows s cos ! i) \<Longrightarrow> gate_open s cos y"
    by blast
  let ?e = "fst (open_windows s cos ! i) + snd (open_windows s cos ! i)" and ?z = "z mod cycle_ps s"
  have "potential (gate_open s cos) (cycle_ps s) (Suc ?z + (?e - Suc ?z))
      \<le> potential (gate_open s cos) (cycle_ps s) (Suc ?z)"
    using i(2-4) by (intro gate.potential_open_run) auto
  moreover have "Suc ?z + (?e - Suc ?z) = ?e" using i(3) by simp
  moreover have "potential (gate_open s cos) (cycle_ps s) (Suc ?z) = potential (gate_open s cos) (cycle_ps s) (Suc z)"
    using gate.potential_mult [of s cos "Suc ?z" "z div cycle_ps s"] by simp
  ultimately show thesis using that [OF i(1)] z(2) by (metis order_trans)
qed

lemma best_le_iff:
  fixes s cos
  defines "vs \<equiv> open_windows s cos"
  assumes "gate_wf s" "0 < sum_list (map snd vs)" "0 \<le> B"
  shows "fold (scan_from vs (int (cycle_ps s)) (int (sum_list (map snd vs)))) [0..<length vs] 0 \<le> B \<longleftrightarrow>
    (\<forall>x y. potential (gate_open s cos) (cycle_ps s) x - potential (gate_open s cos) (cycle_ps s) y \<le> B)"
    (is "?L \<longleftrightarrow> (\<forall>x y. ?P x - ?P y \<le> B)")
proof -
  have open_pos: "0 < open_before (gate_open s cos) (cycle_ps s)"
    using assms open_before_cycle by simp
  have "?L \<longleftrightarrow> (\<forall>i < length vs. \<forall>k \<in> {1..length vs}.
      ?P (fst (vs ! ((i + k) mod length vs))) - ?P (fst (vs ! i) + snd (vs ! i)) \<le> B)"
    using assms(4) cand_eq [OF assms(2) vs_def [THEN meta_eq_to_obj_eq]] by (auto simp: scan_all_le)
  also have "\<dots> \<longleftrightarrow> (\<forall>i < length vs. \<forall>j < length vs. ?P (fst (vs ! j)) - ?P (fst (vs ! i) + snd (vs ! i)) \<le> B)"
  proof (intro iffI allI impI ballI)
    fix i j assume all: "\<forall>i < length vs. \<forall>k \<in> {1..length vs}.
        ?P (fst (vs ! ((i + k) mod length vs))) - ?P (fst (vs ! i) + snd (vs ! i)) \<le> B"
      and ij: "i < length vs" "j < length vs"
    define k where "k = (if i < j then j - i else length vs + j - i)"
    have "k \<in> {1..length vs}" "(i + k) mod length vs = j" using ij by (auto simp: k_def)
    with all ij(1) show "?P (fst (vs ! j)) - ?P (fst (vs ! i) + snd (vs ! i)) \<le> B" by blast
  next
    fix i k assume "\<forall>i < length vs. \<forall>j < length vs. ?P (fst (vs ! j)) - ?P (fst (vs ! i) + snd (vs ! i)) \<le> B"
      "i < length vs"
    then show "?P (fst (vs ! ((i + k) mod length vs))) - ?P (fst (vs ! i) + snd (vs ! i)) \<le> B"
      by (simp add: mod_less_divisor [OF le_less_trans [OF le0]])
  qed
  also have "\<dots> \<longleftrightarrow> (\<forall>x y. ?P x - ?P y \<le> B)"
  proof (intro iffI allI impI)
    fix x y assume all: "\<forall>i < length vs. \<forall>j < length vs. ?P (fst (vs ! j)) - ?P (fst (vs ! i) + snd (vs ! i)) \<le> B"
    from potential_le_start [OF assms(2) open_pos, of x] obtain j where
      j: "j < length vs" "?P x \<le> ?P (fst (vs ! j))" unfolding vs_def by blast
    from potential_ge_end [OF assms(2) open_pos, of y] obtain i where
      i: "i < length vs" "?P (fst (vs ! i) + snd (vs ! i)) \<le> ?P y" unfolding vs_def by blast
    from all i(1) j(1) have "?P (fst (vs ! j)) - ?P (fst (vs ! i) + snd (vs ! i)) \<le> B" by blast
    with i(2) j(2) show "?P x - ?P y \<le> B" by linarith
  qed blast
  finally show ?thesis .
qed

lemma always_open:
  assumes "gate_wf s" "cycle_ps s \<le> open_before (gate_open s cos) (cycle_ps s)"
  shows "open_time s cos phase t = t"
proof -
  have c: "0 < cycle_ps s" using assms(1) tiles_member by (fastforce simp: gate_wf_def neq_Nil_conv)
  have sub: "{y. y < cycle_ps s \<and> gate_open s cos y} \<subseteq> {..<cycle_ps s}" by auto
  have "card {..<cycle_ps s} \<le> card {y. y < cycle_ps s \<and> gate_open s cos y}"
    using assms(2) by (simp add: open_before_def)
  with card_seteq [OF finite_lessThan sub] have "{y. y < cycle_ps s \<and> gate_open s cos y} = {..<cycle_ps s}"
    by blast
  then have "gate_open s cos (x mod cycle_ps s)" for x
    using mod_less_divisor [OF c, of x] by blast
  then have "{x. phase \<le> x \<and> x < phase + t \<and> gate_open s cos x} = {phase..<phase + t}"
    by (auto simp: gate_open_def)
  then show ?thesis by (simp add: open_time_def)
qed

lemma potential_bound_iff:
  "(\<forall>x y. potential (gate_open s cos) (cycle_ps s) x - potential (gate_open s cos) (cycle_ps s) y
        \<le> int l * int (open_before (gate_open s cos) (cycle_ps s)))
   \<longleftrightarrow> (\<forall>phase t. open_before (gate_open s cos) (cycle_ps s) * (t - l) \<le> cycle_ps s * open_time s cos phase t)"
    (is "(\<forall>x y. ?P x - ?P y \<le> int l * int ?O) \<longleftrightarrow> ?R")
proof -
  have conv: "?P (phase + t) - ?P phase \<le> int l * int ?O \<longleftrightarrow> ?O * (t - l) \<le> cycle_ps s * open_time s cos phase t"
    for phase t
  proof (cases "l \<le> t")
    case True
    then have "int (?O * (t - l)) = int t * int ?O - int l * int ?O" by (simp add: of_nat_diff algebra_simps)
    moreover have "?O * (t - l) \<le> cycle_ps s * open_time s cos phase t
        \<longleftrightarrow> int (?O * (t - l)) \<le> int (cycle_ps s) * int (open_time s cos phase t)"
      by (simp only: of_nat_mult [symmetric] of_nat_le_iff)
    ultimately show ?thesis unfolding potential_window by linarith
  next
    case False
    then have "int t * int ?O \<le> int l * int ?O" by (intro mult_right_mono) simp_all
    moreover have "0 \<le> int (cycle_ps s) * int (open_time s cos phase t)" by simp
    ultimately have "?P (phase + t) - ?P phase \<le> int l * int ?O" unfolding potential_window by linarith
    with False show ?thesis by simp
  qed
  show ?thesis
  proof (intro iffI allI)
    fix x y assume r: ?R
    show "?P x - ?P y \<le> int l * int ?O"
    proof (cases "cycle_ps s = 0")
      case True
      then show ?thesis by (simp add: potential_def)
    next
      case False
      then have "y \<le> x + y * cycle_ps s" by (simp add: trans_le_add2)
      then have "y + (x + y * cycle_ps s - y) = x + y * cycle_ps s" by simp
      with conv [of y "x + y * cycle_ps s - y"] r have "?P (x + y * cycle_ps s) - ?P y \<le> int l * int ?O"
        by metis
      then show ?thesis by (simp only: gate.potential_mult)
    qed
  qed (use conv in blast)
qed

lemma ceil_le_iff: "0 < n \<Longrightarrow> 0 \<le> b \<Longrightarrow> nat ((b + int n - 1) div int n) \<le> l \<longleftrightarrow> b \<le> int l * int n"
proof -
  assume n: "0 < n" and b: "0 \<le> b"
  obtain m where m: "b = int m" using b nonneg_int_cases by blast
  have "(b + int n - 1) div int n = int ((m + n - 1) div n)"
    using n by (simp add: m zdiv_int of_nat_diff)
  then have "nat ((b + int n - 1) div int n) \<le> l \<longleftrightarrow> (m + n - 1) div n < Suc l" by auto
  also have "\<dots> \<longleftrightarrow> m + n - 1 < Suc l * n" using n by (simp add: div_less_iff_less_mult)
  also have "\<dots> \<longleftrightarrow> m \<le> l * n" using n by auto
  also have "\<dots> \<longleftrightarrow> b \<le> int l * int n" unfolding m by (metis of_nat_le_iff of_nat_mult)
  finally show ?thesis .
qed

lemma min_service_latency_least:
  assumes "gate_wf s" and pos: "0 < open_before (gate_open s cos) (cycle_ps s)"
  shows "\<exists>l. min_service_latency_ps s cos = Some l \<and> (\<forall>l'. l \<le> l' \<longleftrightarrow>
    (\<forall>phase t. open_before (gate_open s cos) (cycle_ps s) * (t - l') \<le> cycle_ps s * open_time s cos phase t))"
proof -
  let ?vs = "open_windows s cos" and ?O = "open_before (gate_open s cos) (cycle_ps s)"
  have O: "?O = sum_list (map snd ?vs)" by (rule open_before_cycle [OF assms(1)])
  have u64: "\<not> sum_list (map snd ?vs) > u64_max"
    using open_before_le [of "gate_open s cos" "cycle_ps s"] assms(1) O by (simp add: gate_wf_def u64_max_def)
  show ?thesis
  proof (cases "cycle_ps s \<le> ?O")
    case True
    then have "min_service_latency_ps s cos = Some 0"
      using pos u64 unfolding min_service_latency_ps_def Let_def O [symmetric] by simp
    moreover have "?O * (t - l') \<le> cycle_ps s * open_time s cos phase t" for phase t l'
      using open_before_le [of "gate_open s cos" "cycle_ps s"] always_open [OF assms(1) True]
      by (simp add: mult_le_mono)
    ultimately show ?thesis by (intro exI [of _ 0]) auto
  next
    case False
    let ?best = "fold (scan_from ?vs (int (cycle_ps s)) (int ?O)) [0..<length ?vs] 0"
    have "min_service_latency_ps s cos = Some (nat ((?best + int ?O - 1) div int ?O))"
      using False pos u64 unfolding min_service_latency_ps_def Let_def O [symmetric] by simp
    moreover have "nat ((?best + int ?O - 1) div int ?O) \<le> l \<longleftrightarrow>
        (\<forall>phase t. ?O * (t - l) \<le> cycle_ps s * open_time s cos phase t)" for l
    proof -
      have "0 \<le> ?best" using scan_all_le [of ?vs "int (cycle_ps s)" "int ?O" "[0..<length ?vs]" 0 ?best] by simp
      from ceil_le_iff [OF pos this] have "nat ((?best + int ?O - 1) div int ?O) \<le> l \<longleftrightarrow> ?best \<le> int l * int ?O" .
      also have "\<dots> \<longleftrightarrow> (\<forall>x y. potential (gate_open s cos) (cycle_ps s) x - potential (gate_open s cos) (cycle_ps s) y
          \<le> int l * int ?O)"
        using best_le_iff [OF assms(1)] pos unfolding O by simp
      also note potential_bound_iff
      finally show ?thesis .
    qed
    ultimately show ?thesis by blast
  qed
qed

lemma never_open:
  assumes "gate_wf s" "open_before (gate_open s cos) (cycle_ps s) = 0"
  shows "min_service_latency_ps s cos = Some (cycle_ps s)"
proof -
  have "sum_list (map snd (open_windows s cos)) = 0"
    using assms(2) unfolding open_before_cycle [OF assms(1)] .
  then show ?thesis by (simp only: min_service_latency_ps_def Let_def) simp
qed

lemma min_service_latency_total: "gate_wf s \<Longrightarrow> \<exists>l. min_service_latency_ps s cos = Some l"
  using never_open min_service_latency_least by blast

lemma bits_to_bytes_mono_product:
  "r * t \<le> r' * t' \<Longrightarrow> bits_to_bytes_in_window r t \<le> bits_to_bytes_in_window r' t'"
  using div_le_mono [of "r * t" "r' * t'" "BITS_PER_BYTE * PS_PER_SECOND"]
  by (auto simp: bits_to_bytes_in_window_def Let_def)

lemma tas_rate_le: "tas_rate_bps link open_ps cycle * cycle \<le> link * open_ps"
proof -
  have "narrow_u64 (link * open_ps div cycle) * cycle \<le> link * open_ps div cycle * cycle"
    by (simp add: narrow_u64_min)
  also have "\<dots> \<le> link * open_ps" by simp
  finally show ?thesis by (simp add: tas_rate_bps_def)
qed

lemma tas_rate_mono [nc_mono]: "o1 \<le> o2 \<Longrightarrow> tas_rate_bps link o1 cycle \<le> tas_rate_bps link o2 cycle"
  by (auto simp: tas_rate_bps_def intro!: nc_mono div_le_mono)

lemma min_service_latency_range:
  assumes "gate_wf s" "min_service_latency_ps s cos = Some l"
  shows "l \<le> cycle_ps s"
proof (cases "open_before (gate_open s cos) (cycle_ps s) = 0")
  case False
  then have pos: "0 < open_before (gate_open s cos) (cycle_ps s)" by simp
  let ?O = "open_before (gate_open s cos) (cycle_ps s)"
  have "potential (gate_open s cos) (cycle_ps s) x - potential (gate_open s cos) (cycle_ps s) y
      \<le> int (cycle_ps s) * int ?O" for x y
  proof (cases "cycle_ps s = 0")
    case False
    let ?d = "x + y * cycle_ps s - y"
    have "y \<le> x + y * cycle_ps s" using False by (simp add: trans_le_add2)
    then have "x + y * cycle_ps s = y + ?d mod cycle_ps s + ?d div cycle_ps s * cycle_ps s" by simp
    then have x: "potential (gate_open s cos) (cycle_ps s) x
        = potential (gate_open s cos) (cycle_ps s) (y + ?d mod cycle_ps s)"
      by (metis gate.potential_mult)
    have "?d mod cycle_ps s \<le> cycle_ps s" using False by simp
    then have "int (?d mod cycle_ps s) * int ?O \<le> int (cycle_ps s) * int ?O"
      by (intro mult_right_mono) simp_all
    moreover have "0 \<le> int (cycle_ps s) * int (open_time s cos y (?d mod cycle_ps s))" by simp
    ultimately show ?thesis unfolding x potential_window by linarith
  qed (simp add: potential_def)
  then have "\<forall>phase t. ?O * (t - cycle_ps s) \<le> cycle_ps s * open_time s cos phase t"
    using potential_bound_iff by blast
  from min_service_latency_least [OF assms(1) pos] assms(2) this show ?thesis by auto
qed (use never_open [OF assms(1)] assms(2) in simp)


lemma tas_service_below:
  assumes "gate_wf s"
  shows "\<exists>\<beta>. tas_residual_service s cos link = Some \<beta> \<and>
    (\<forall>phase t. service_at \<beta> t \<le> bits_to_bytes_in_window link (open_time s cos phase t))"
proof -
  let ?O = "open_before (gate_open s cos) (cycle_ps s)"
  obtain l where l: "min_service_latency_ps s cos = Some l" using min_service_latency_total [OF assms] by blast
  let ?r = "tas_rate_bps link ?O (cycle_ps s)"
  have \<beta>: "tas_residual_service s cos link = Some (rate_latency ?r l)"
    by (simp add: tas_residual_service_def open_fraction_eq [OF assms] l)
  have "?r * (t - l) \<le> link * open_time s cos phase t" for phase t
  proof (cases "?O = 0")
    case False
    then have pos: "0 < ?O" by simp
    then have c: "0 < cycle_ps s" by (cases "cycle_ps s") auto
    from min_service_latency_least [OF assms pos] l
    have "?O * (t - l) \<le> cycle_ps s * open_time s cos phase t" by auto
    then have "link * (?O * (t - l)) \<le> link * (cycle_ps s * open_time s cos phase t)" by simp
    moreover have "?r * cycle_ps s * (t - l) \<le> link * ?O * (t - l)" by (intro mult_le_mono1 tas_rate_le)
    ultimately have "?r * cycle_ps s * (t - l) \<le> link * (cycle_ps s * open_time s cos phase t)"
      by (metis mult.assoc order_trans)
    then have "cycle_ps s * (?r * (t - l)) \<le> cycle_ps s * (link * open_time s cos phase t)"
      by (metis mult.commute mult.left_commute mult.assoc)
    with c show ?thesis by simp
  qed (simp add: tas_rate_bps_def)
  then have "service_at (rate_latency ?r l) t \<le> bits_to_bytes_in_window link (open_time s cos phase t)" for phase t
    by (auto simp: service_at_def rate_latency_def intro: bits_to_bytes_mono_product)
  with \<beta> show ?thesis by blast
qed


section \<open>Properties\<close>

text \<open>C28. The gate latency is exact: for a schedule that tiles its cycle and a class that opens,
  \<open>min_service_latency_ps\<close> returns the least latency for which the rate-latency line stays below the
  open time of every window of time, at every phase.\<close>

theorem gate_latency_exact:
  assumes "gate_wf s" and "\<exists>w \<in> set (windows s). allows cos w"
  shows "\<exists>l. min_service_latency_ps s cos = Some l \<and>
    (\<forall>l'. (\<forall>phase t. fst (open_fraction s cos) * (t - l') \<le> cycle_ps s * open_time s cos phase t) \<longleftrightarrow> l \<le> l')"
proof -
  from assms(2) obtain w where w: "w \<in> set (windows s)" "allows cos w" by blast
  then have "duration_ps w \<in> set (map snd (open_windows s cos))" by (auto simp: open_windows_def)
  moreover have "0 < duration_ps w" using tiles_member assms(1) w(1) by (auto simp: gate_wf_def)
  ultimately have "0 < open_before (gate_open s cos) (cycle_ps s)"
    unfolding open_before_cycle [OF assms(1)] using member_le_sum_list by fastforce
  from min_service_latency_least [OF assms(1) this] show ?thesis
    unfolding open_fraction_eq [OF assms(1)] by auto
qed

lemmas tas_eval = min_service_latency_ps_def open_windows_def allows_def scan_from_def u64_max_def
  open_fraction_def sat_simps tas_residual_service_def tas_residual_service_with_sync_error_def
  tas_rate_bps_def rate_latency_def worst_case_latency_def

lemma demo_gates_latency: "min_service_latency_ps demo_gates (ClassOfService 7) = Some 500000"
  "fst (open_fraction demo_gates (ClassOfService 7)) = 400000"
  "\<exists>w \<in> set (windows demo_gates). allows (ClassOfService 7) w"
  by (simp_all add: tas_eval demo_gates_def)

theorem gate_latency_exact_witness:
  "\<not> (\<forall>phase t. 400000 * (t - 499999) \<le> 1000000 * open_time demo_gates (ClassOfService 7) phase t)"
proof -
  obtain l where "min_service_latency_ps demo_gates (ClassOfService 7) = Some l"
    "\<forall>l'. (\<forall>phase t. 400000 * (t - l') \<le> cycle_ps demo_gates * open_time demo_gates (ClassOfService 7) phase t) \<longleftrightarrow> l \<le> l'"
    using gate_latency_exact [OF demo_gates_wf(1) demo_gates_latency(3)] unfolding demo_gates_latency(2) by blast
  then have "(\<forall>phase t. 400000 * (t - 499999) \<le> cycle_ps demo_gates * open_time demo_gates (ClassOfService 7) phase t)
      \<longleftrightarrow> (500000::nat) \<le> 499999"
    using demo_gates_latency(1) by simp
  moreover have "cycle_ps demo_gates = 1000000" by (simp add: demo_gates_def)
  ultimately show ?thesis by simp
qed

text \<open>C29. The residual service of a gated port is sound: in every window of time, at every phase of the
  gate cycle, the curve of a class promises at most the bytes the link carries while the gate of the
  class is open.\<close>

theorem tas_residual_service_sound:
  assumes "gate_wf s"
  shows "\<exists>\<beta>. tas_residual_service s cos link = Some \<beta> \<and>
    (\<forall>phase t. service_at \<beta> t \<le> bits_to_bytes_in_window link (open_time s cos phase t))"
  by (rule tas_service_below [OF assms])

theorem tas_residual_service_sound_witness:
  "\<exists>\<beta>. tas_residual_service demo_gates (ClassOfService 7) 1000000000 = Some \<beta> \<and>
    service_at \<beta> 900000 \<le> bits_to_bytes_in_window 1000000000 (open_time demo_gates (ClassOfService 7) 500000 900000)"
  using tas_residual_service_sound [OF demo_gates_wf(1)] by blast

text \<open>The synchronisation-error wrapper is the plain curve at error 0 and never promises more than
  it for any error.\<close>

theorem tas_sync_error_tightens:
  assumes "gate_wf s"
  shows "\<exists>\<beta> \<beta>'. tas_residual_service_with_sync_error s cos link eps = Some \<beta>
    \<and> tas_residual_service s cos link = Some \<beta>' \<and> (\<forall>t. service_at \<beta> t \<le> service_at \<beta>' t) \<and> (eps = 0 \<longrightarrow> \<beta> = \<beta>')"
proof -
  obtain l where l: "min_service_latency_ps s cos = Some l" using min_service_latency_total [OF assms] by blast
  have "l \<le> u64_max" using min_service_latency_range [OF assms l] assms by (simp add: gate_wf_def u64_max_def)
  then show ?thesis
    by (auto simp: tas_residual_service_def tas_residual_service_with_sync_error_def l case_prod_beta
        sat_add_ge rate_latency_def intro!: service_at_curve_mono nc_mono)
qed

theorem tas_sync_error_tightens_witness:
  "\<exists>\<beta> \<beta>'. tas_residual_service_with_sync_error demo_gates (ClassOfService 7) 1000000000 1000 = Some \<beta>
    \<and> tas_residual_service demo_gates (ClassOfService 7) 1000000000 = Some \<beta>' \<and> service_at \<beta> 900000 \<le> service_at \<beta>' 900000"
  using tas_sync_error_tightens [OF demo_gates_wf(1)] by blast

text \<open>The longest closed run is not a sound latency: with two closed gaps of 240 units around an
  opening of 20, a class that is open for 520 of 1000 units can fall behind its
  average rate by more than the longest gap, and the latency the service curve uses is 462.\<close>

theorem longest_gap_not_sound:
  "let s = \<lparr>windows = [\<lparr>offset_ps = 0, duration_ps = 500, allowed_cos_mask = 1\<rparr>,
       \<lparr>offset_ps = 500, duration_ps = 240, allowed_cos_mask = 0\<rparr>,
       \<lparr>offset_ps = 740, duration_ps = 20, allowed_cos_mask = 1\<rparr>,
       \<lparr>offset_ps = 760, duration_ps = 240, allowed_cos_mask = 0\<rparr>], cycle_ps = 1000\<rparr>;
       cos = ClassOfService 0 in
     worst_case_latency s cos = 240 \<and> min_service_latency_ps s cos = Some 462
     \<and> \<not> (\<forall>phase t. 520 * (t - worst_case_latency s cos) \<le> 1000 * open_time s cos phase t)"
proof -
  let ?s = "\<lparr>windows = [\<lparr>offset_ps = 0, duration_ps = 500, allowed_cos_mask = 1\<rparr>,
       \<lparr>offset_ps = 500, duration_ps = 240, allowed_cos_mask = 0\<rparr>,
       \<lparr>offset_ps = 740, duration_ps = 20, allowed_cos_mask = 1\<rparr>,
       \<lparr>offset_ps = 760, duration_ps = 240, allowed_cos_mask = 0\<rparr>], cycle_ps = 1000\<rparr>"
  let ?cos = "ClassOfService 0"
  have w: "worst_case_latency ?s ?cos = 240" and m: "min_service_latency_ps ?s ?cos = Some 462"
    and o: "fst (open_fraction ?s ?cos) = 520"
    by (simp_all add: tas_eval)
  have wf: "gate_wf ?s" by (simp add: gate_wf_def)
  have O: "open_before (gate_open ?s ?cos) (cycle_ps ?s) = 520"
    using open_fraction_eq [OF wf, of ?cos] o by simp
  then have "0 < open_before (gate_open ?s ?cos) (cycle_ps ?s)" by simp
  from min_service_latency_least [OF wf this] m have
    "462 \<le> l' \<longleftrightarrow> (\<forall>phase t. 520 * (t - l') \<le> cycle_ps ?s * open_time ?s ?cos phase t)" for l'
    unfolding O by simp
  from this [of 240] have "\<not> (\<forall>phase t. 520 * (t - 240) \<le> 1000 * open_time ?s ?cos phase t)" by simp
  with w m show ?thesis unfolding Let_def by simp
qed

text \<open>The three transmission-time terms of the shaper analyses are one function: the credit-based
  shaper's, the frame quantisation's and, without preemption, the blocking term's all equal the
  curves' own \<open>time_to_send_ps\<close> on a link of non-zero rate, and enabling preemption never raises the
  blocking term of a frame longer than a fragment and its header.\<close>

theorem transmission_terms_agree:
  "cbs_time_to_send_ps_rounded_up bytes rate = time_to_send_ps bytes rate
   \<and> frame_quantization_ps bytes rate = time_to_send_ps bytes rate
   \<and> preemption_blocking_term_ps rate bytes False = (if rate = 0 then 0 else time_to_send_ps bytes rate)
   \<and> (MIN_FRAGMENT_BYTES + PREEMPTION_HEADER_BYTES \<le> bytes \<longrightarrow>
        preemption_blocking_term_ps rate bytes True \<le> preemption_blocking_term_ps rate bytes False)"
proof -
  have "narrow_u64 (div_ceil ((MIN_FRAGMENT_BYTES + PREEMPTION_HEADER_BYTES) * 8 * 1000000000000) rate)
      \<le> narrow_u64 (div_ceil (bytes * 8 * 1000000000000) rate)"
    if "MIN_FRAGMENT_BYTES + PREEMPTION_HEADER_BYTES \<le> bytes"
    using that by (intro nc_mono mult_le_mono1)
  moreover have "sat_add MIN_FRAGMENT_BYTES PREEMPTION_HEADER_BYTES = MIN_FRAGMENT_BYTES + PREEMPTION_HEADER_BYTES"
    by (simp add: sat_add_min MIN_FRAGMENT_BYTES_def PREEMPTION_HEADER_BYTES_def u64_max_def)
  ultimately show ?thesis
    by (auto simp: cbs_time_to_send_ps_rounded_up_def frame_quantization_ps_def preemption_blocking_term_ps_def
        time_to_send_ps_def BITS_PER_BYTE_def PS_PER_SECOND_def narrow_u64_def Let_def)
qed

theorem transmission_terms_agree_witness:
  "preemption_blocking_term_ps 1000000000 1518 True \<le> preemption_blocking_term_ps 1000000000 1518 False"
  using transmission_terms_agree [of 1518 1000000000]
  by (simp add: MIN_FRAGMENT_BYTES_def PREEMPTION_HEADER_BYTES_def)

end
