(* ===== verification/Gcl_Synth.thy ===== *)
theory Gcl_Synth
  imports Tas_Service
begin

text \<open>
  Synthesis of gate-control lists, \<^verbatim>\<open>crates/spar-network/src/tsn.rs\<close>: \<^verbatim>\<open>synthesize_gcl\<close> (one open
  window per class, sized by binary search against the delay bound), \<^verbatim>\<open>synthesize_gcl_split\<close>
  (the round replicated \<open>k\<close> times) and \<^verbatim>\<open>synthesize_gcl_split_guarded\<close> (a guard band after every
  window), each certified through the parser and the delay bound before it is returned.

  The text of a \<^verbatim>\<open>SelfCheck\<close> message is replaced by its ingredients (\<open>self_check_failure\<close>). The
  outer \<open>option\<close> is a panic. Classes are those \<open>class_of_service_new\<close> yields, 0 to 7. The
  emitted text is kept: blobs are built and parsed as strings.
\<close>

section \<open>Demands and errors\<close>

record class_demand =
  cos :: class_of_service
  arrival :: arrival_curve
  deadline_ps :: u64

datatype self_check_failure =
    ReparseFailed string gate_schedule_error
  | DeadlineMissed u8 u64 u64
  | UnservableClass u8 nc_error

datatype gcl_synth_error =
    NoDemands
  | CycleNotWholeNanos u64
  | DuplicateClass u8
  | ClassInfeasible u8 u64 u64
  | Oversubscribed u64 u64
  | GuardOversubscribed u64 u64 u64
  | SelfCheck self_check_failure


section \<open>Sizing the windows\<close>

definition class_delay_ps :: "class_demand \<Rightarrow> u64 \<Rightarrow> u64 \<Rightarrow> u64 \<Rightarrow> u64 option option" where
  "class_delay_ps demand dur_ns cycle_ns link_rate_bps =
     (let cycle = sat_mul cycle_ns 1000;
          dur = sat_mul dur_ns 1000;
          mask = push_bit (cos_value (cos demand)) 1;
          ws = (if dur_ns \<ge> cycle_ns
                then [\<lparr>offset_ps = 0, duration_ps = cycle, allowed_cos_mask = mask\<rparr>]
                else [\<lparr>offset_ps = 0, duration_ps = dur, allowed_cos_mask = mask\<rparr>,
                      \<lparr>offset_ps = dur, duration_ps = cycle - dur, allowed_cos_mask = 0\<rparr>])
      in map_option (\<lambda>\<beta>. case delay_bound (arrival demand) \<beta> of Inr d \<Rightarrow> Some d | Inl _ \<Rightarrow> None)
           (tas_residual_service \<lparr>windows = ws, cycle_ps = cycle\<rparr> (cos demand) link_rate_bps))"

definition class_ok :: "class_demand \<Rightarrow> u64 \<Rightarrow> u64 \<Rightarrow> u64 \<Rightarrow> bool option" where
  "class_ok d dur_ns cycle_ns link_rate_bps =
     map_option (\<lambda>r. case r of Some delay \<Rightarrow> delay \<le> deadline_ps d | None \<Rightarrow> False)
       (class_delay_ps d dur_ns cycle_ns link_rate_bps)"

function window_search :: "(u64 \<Rightarrow> bool option) \<Rightarrow> u64 \<Rightarrow> u64 \<Rightarrow> u64 option" where
  "window_search ok lo hi =
     (if lo < hi
      then let mid = lo + (hi - lo) div 2
           in case ok mid of
                None \<Rightarrow> None
              | Some True \<Rightarrow> window_search ok lo mid
              | Some False \<Rightarrow> window_search ok (mid + 1) hi
      else Some lo)"
  by pat_completeness auto
termination
  by (relation "measure (\<lambda>(_, lo, hi). hi - lo)") auto

declare window_search.simps [simp del]

fun size_windows :: "u64 \<Rightarrow> u64 \<Rightarrow> class_demand list \<Rightarrow> (gcl_synth_error + u64 list) option" where
  "size_windows cycle_ns link [] = Some (Inr [])"
| "size_windows cycle_ns link (d # ds) =
     (case class_delay_ps d cycle_ns cycle_ns link of
        None \<Rightarrow> None
      | Some full \<Rightarrow>
          if \<not> (case full of Some delay \<Rightarrow> delay \<le> deadline_ps d | None \<Rightarrow> False)
          then Some (Inl (ClassInfeasible (cos_value (cos d)) (deadline_ps d)
                            (case full of Some delay \<Rightarrow> delay | None \<Rightarrow> u64_max)))
          else (case window_search (\<lambda>n. class_ok d n cycle_ns link) 1 cycle_ns of
                  None \<Rightarrow> None
                | Some n \<Rightarrow>
                    (case size_windows cycle_ns link ds of
                       None \<Rightarrow> None
                     | Some (Inl e) \<Rightarrow> Some (Inl e)
                     | Some (Inr ns) \<Rightarrow> Some (Inr (n # ns)))))"

fun duplicate_class :: "class_demand list \<Rightarrow> u8 option" where
  "duplicate_class [] = None"
| "duplicate_class (a # ds) =
     (if \<exists>b \<in> set ds. cos a = cos b then Some (cos_value (cos a)) else duplicate_class ds)"


section \<open>Emission and certification\<close>

type_synonym entry = "u64 \<times> u64 \<times> 8 word"

definition blob_of :: "entry list \<Rightarrow> string" where
  "blob_of es = join_entries (map (\<lambda>(o_ns, d_ns, m). show_entry o_ns d_ns m) es)"

fun class_entries :: "u64 \<Rightarrow> (class_demand \<times> u64) list \<Rightarrow> entry list" where
  "class_entries offset_ns [] = []"
| "class_entries offset_ns ((d, dur_ns) # ds) =
     (offset_ns, dur_ns, push_bit (cos_value (cos d)) 1) # class_entries (offset_ns + dur_ns) ds"

definition gcl_entries :: "class_demand list \<Rightarrow> u64 list \<Rightarrow> u64 \<Rightarrow> entry list" where
  "gcl_entries demands durations_ns cycle_ns =
     (let offset_ns = sum_list (map snd (zip demands durations_ns))
      in class_entries 0 (zip demands durations_ns)
         @ (if offset_ns < cycle_ns then [(offset_ns, cycle_ns - offset_ns, 0)] else []))"

fun certify :: "gate_schedule \<Rightarrow> u64 \<Rightarrow> class_demand list \<Rightarrow> gcl_synth_error option option" where
  "certify sched link [] = Some None"
| "certify sched link (d # ds) =
     (case tas_residual_service sched (cos d) link of
        None \<Rightarrow> None
      | Some \<beta> \<Rightarrow>
          (case delay_bound (arrival d) \<beta> of
             Inr delay \<Rightarrow> if delay \<le> deadline_ps d then certify sched link ds
                         else Some (Some (SelfCheck (DeadlineMissed (cos_value (cos d)) delay (deadline_ps d))))
           | Inl e \<Rightarrow> Some (Some (SelfCheck (UnservableClass (cos_value (cos d)) e)))))"

definition parse_and_certify :: "string \<Rightarrow> u64 \<Rightarrow> class_demand list \<Rightarrow> (gcl_synth_error + gate_schedule) option" where
  "parse_and_certify blob link demands =
     (case parse blob of
        Inl e \<Rightarrow> Some (Inl (SelfCheck (ReparseFailed blob e)))
      | Inr sched \<Rightarrow>
          (case certify sched link demands of
             None \<Rightarrow> None
           | Some (Some e) \<Rightarrow> Some (Inl e)
           | Some None \<Rightarrow> Some (Inr sched)))"

definition synthesize_gcl ::
    "class_demand list \<Rightarrow> u64 \<Rightarrow> u64 \<Rightarrow> (gcl_synth_error + gate_schedule) option" where
  "synthesize_gcl demands cycle link =
     (if demands = [] then Some (Inl NoDemands)
      else if cycle = 0 \<or> cycle mod 1000 \<noteq> 0 then Some (Inl (CycleNotWholeNanos cycle))
      else case duplicate_class demands of
        Some c \<Rightarrow> Some (Inl (DuplicateClass c))
      | None \<Rightarrow>
         let cycle_ns = cycle div 1000
         in case size_windows cycle_ns link demands of
           None \<Rightarrow> None
         | Some (Inl e) \<Rightarrow> Some (Inl e)
         | Some (Inr durations_ns) \<Rightarrow>
            let required_ns = sum_list durations_ns
            in if required_ns > cycle_ns then Some (Inl (Oversubscribed (sat_mul required_ns 1000) cycle))
            else parse_and_certify (blob_of (gcl_entries demands durations_ns cycle_ns)) link demands)"


section \<open>Splitting\<close>

text \<open>The round repeated \<open>k\<close> times, each at its base offset.\<close>

definition split_entries :: "gate_schedule \<Rightarrow> u64 \<Rightarrow> u64 \<Rightarrow> entry list" where
  "split_entries round round_cycle k = concat (map (\<lambda>r. map (\<lambda>w.
     ((r * round_cycle + offset_ps w) div 1000, duration_ps w div 1000, allowed_cos_mask w)) (windows round)) [0..<k])"

function split_loop ::
    "class_demand list \<Rightarrow> u64 \<Rightarrow> u64 \<Rightarrow> u64 \<Rightarrow> u64 \<Rightarrow> gcl_synth_error \<Rightarrow> (gcl_synth_error + gate_schedule) option" where
  "split_loop demands cycle link kcap k last_oversub =
     (if k > kcap then Some (Inl last_oversub)
      else if cycle mod sat_mul k 1000 \<noteq> 0 then split_loop demands cycle link kcap (k + 1) last_oversub
      else case synthesize_gcl demands (cycle div k) link of
        None \<Rightarrow> None
      | Some (Inr round) \<Rightarrow>
          if k = 1 then Some (Inr round)
          else parse_and_certify (blob_of (split_entries round (cycle div k) k)) link demands
      | Some (Inl (Oversubscribed required c)) \<Rightarrow>
          split_loop demands cycle link kcap (k + 1) (Oversubscribed required c)
      | Some (Inl e) \<Rightarrow> Some (Inl e))"
  by pat_completeness auto
termination
  by (relation "measure (\<lambda>(_, _, _, kcap, k, _). Suc kcap - k)") auto

declare split_loop.simps [simp del]

definition synthesize_gcl_split ::
    "class_demand list \<Rightarrow> u64 \<Rightarrow> u64 \<Rightarrow> u64 \<Rightarrow> (gcl_synth_error + gate_schedule) option" where
  "synthesize_gcl_split demands cycle link max_windows_per_class =
     (if demands = [] then Some (Inl NoDemands)
      else if cycle = 0 \<or> cycle mod 1000 \<noteq> 0 then Some (Inl (CycleNotWholeNanos cycle))
      else split_loop demands cycle link (max max_windows_per_class 1) 1 (Oversubscribed 0 cycle))"

text \<open>The guarded round: every open window followed by its guard, the last guard taking the leftover.
  \<open>open_windows_of\<close> are the windows with a non-zero mask.\<close>

definition open_windows_of :: "gate_schedule \<Rightarrow> gate_window list" where
  "open_windows_of round = filter (\<lambda>w. allowed_cos_mask w \<noteq> 0) (windows round)"

fun guarded_round :: "u64 \<Rightarrow> u64 \<Rightarrow> u64 \<Rightarrow> gate_window list \<Rightarrow> entry list" where
  "guarded_round guard leftover offset_ns [] = []"
| "guarded_round guard leftover offset_ns (w # ws) =
     (let dur_ns = duration_ps w div 1000;
          guard_here = (if ws = [] then guard + leftover else guard);
          offset' = offset_ns + dur_ns
      in (offset_ns, dur_ns, allowed_cos_mask w)
         # (if guard_here > 0
            then (offset', guard_here div 1000, 0) # guarded_round guard leftover (offset' + guard_here div 1000) ws
            else guarded_round guard leftover offset' ws))"

definition guarded_entries :: "gate_schedule \<Rightarrow> u64 \<Rightarrow> u64 \<Rightarrow> u64 \<Rightarrow> u64 \<Rightarrow> entry list" where
  "guarded_entries round round_cycle k guard leftover =
     concat (map (\<lambda>r. guarded_round guard leftover (r * round_cycle div 1000) (open_windows_of round)) [0..<k])"

function guarded_loop ::
    "class_demand list \<Rightarrow> u64 \<Rightarrow> u64 \<Rightarrow> u64 \<Rightarrow> u64 \<Rightarrow> u64 \<Rightarrow> u64 \<Rightarrow> gcl_synth_error option
      \<Rightarrow> (gcl_synth_error + gate_schedule) option" where
  "guarded_loop demands cycle link guard kcap k best_required window_oversub =
     (if k > kcap
      then Some (Inl (case window_oversub of
             Some e \<Rightarrow> if best_required = u64_max then e
                       else GuardOversubscribed (if best_required = u64_max then cycle else best_required) cycle guard
           | None \<Rightarrow> GuardOversubscribed (if best_required = u64_max then cycle else best_required) cycle guard))
      else if cycle mod sat_mul k 1000 \<noteq> 0
      then guarded_loop demands cycle link guard kcap (k + 1) best_required window_oversub
      else let round_cycle = cycle div k;
               guard_total = sat_mul (length demands) guard
      in case synthesize_gcl demands round_cycle link of
        None \<Rightarrow> None
      | Some (Inl (Oversubscribed required c)) \<Rightarrow>
          guarded_loop demands cycle link guard kcap (k + 1) best_required (Some (Oversubscribed required c))
      | Some (Inl e) \<Rightarrow> Some (Inl e)
      | Some (Inr round) \<Rightarrow>
          let usable = sum_list (map duration_ps (open_windows_of round));
              required_round = sat_add usable guard_total
          in if required_round > round_cycle
             then guarded_loop demands cycle link guard kcap (k + 1)
                    (min best_required (sat_mul required_round k)) window_oversub
             else parse_and_certify
                    (blob_of (guarded_entries round round_cycle k guard (round_cycle - required_round))) link demands)"
  by pat_completeness auto
termination
  by (relation "measure (\<lambda>(_, _, _, _, kcap, k, _, _). Suc kcap - k)") auto

declare guarded_loop.simps [simp del]

definition synthesize_gcl_split_guarded ::
    "class_demand list \<Rightarrow> u64 \<Rightarrow> u64 \<Rightarrow> u64 \<Rightarrow> u64 \<Rightarrow> (gcl_synth_error + gate_schedule) option" where
  "synthesize_gcl_split_guarded demands cycle link max_windows_per_class guard_band =
     (if demands = [] then Some (Inl NoDemands)
      else if cycle = 0 \<or> cycle mod 1000 \<noteq> 0 then Some (Inl (CycleNotWholeNanos cycle))
      else guarded_loop demands cycle link (sat_mul (div_ceil guard_band 1000) 1000)
             (max max_windows_per_class 1) 1 u64_max None)"


section \<open>Binary search for a monotone predicate\<close>

locale monotone_search =
  fixes ok :: "nat \<Rightarrow> bool"
  assumes mono: "ok n \<Longrightarrow> n \<le> m \<Longrightarrow> ok m"
begin

lemma search_least:
  assumes "\<forall>n. lo \<le> n \<and> n \<le> hi \<longrightarrow> test n = Some (ok n)" "ok hi" "lo \<le> hi"
  shows "\<exists>m. window_search test lo hi = Some m \<and> lo \<le> m \<and> m \<le> hi \<and> ok m \<and> (\<forall>n. lo \<le> n \<and> ok n \<longrightarrow> m \<le> n)"
  using assms
proof (induction test lo hi rule: window_search.induct)
  case (1 test lo hi)
  let ?mid = "lo + (hi - lo) div 2"
  show ?case
  proof (cases "lo < hi")
    case False
    with "1.prems" show ?thesis by (subst window_search.simps) auto
  next
    case True
    then have mid: "lo \<le> ?mid" "?mid < hi" by auto
    then have test: "test ?mid = Some (ok ?mid)" using "1.prems"(1) by simp
    show ?thesis
    proof (cases "ok ?mid")
      case ok: True
      have "\<exists>m. window_search test lo ?mid = Some m \<and> lo \<le> m \<and> m \<le> ?mid \<and> ok m \<and> (\<forall>n. lo \<le> n \<and> ok n \<longrightarrow> m \<le> n)"
        using "1.prems" mid ok test by (intro "1.IH"(1) [OF True refl, of True]) auto
      moreover have "window_search test lo hi = window_search test lo ?mid"
        using True test ok by (subst window_search.simps) (simp add: Let_def)
      ultimately show ?thesis using mid(2) by (metis less_imp_le order_trans)
    next
      case bad: False
      have "\<exists>m. window_search test (?mid + 1) hi = Some m \<and> ?mid + 1 \<le> m \<and> m \<le> hi \<and> ok m
          \<and> (\<forall>n. ?mid + 1 \<le> n \<and> ok n \<longrightarrow> m \<le> n)"
        using "1.prems" mid bad test by (intro "1.IH"(2) [OF True refl, of False]) auto
      moreover have "?mid + 1 \<le> n" if "ok n" for n
        using bad mono [OF that, of ?mid] by (cases "n \<le> ?mid") simp_all
      moreover have "window_search test lo hi = window_search test (?mid + 1) hi"
        using True test bad by (subst window_search.simps) (simp add: Let_def)
      ultimately show ?thesis using mid(1) by (metis le_add1 order_trans)
    qed
  qed
qed

end

text \<open>What a window of \<open>n\<close> nanoseconds gives a class, in closed form.\<close>

definition window_delay :: "class_demand \<Rightarrow> u64 \<Rightarrow> u64 \<Rightarrow> u64 \<Rightarrow> nc_error + u64" where
  "window_delay d cycle_ns link n =
     delay_bound (arrival d) (rate_latency (tas_rate_bps link (n * 1000) (cycle_ns * 1000)) ((cycle_ns - n) * 1000))"

definition window_meets :: "class_demand \<Rightarrow> u64 \<Rightarrow> u64 \<Rightarrow> u64 \<Rightarrow> bool" where
  "window_meets d cycle_ns link n \<longleftrightarrow>
     (case window_delay d cycle_ns link n of Inr delay \<Rightarrow> delay \<le> deadline_ps d | Inl _ \<Rightarrow> False)"

lemma delay_bound_mono:
  assumes "delay_bound \<alpha> (rate_latency r l) = Inr x" "r \<le> r'" "l' \<le> l"
  shows "\<exists>x'. delay_bound \<alpha> (rate_latency r' l') = Inr x' \<and> x' \<le> x"
proof -
  from assms(1) have r: "sustained_rate_bps \<alpha> \<le> r" "r \<noteq> 0"
    and x: "x = sat_add l (time_to_send_ps (burst_bytes \<alpha>) r)"
    by (auto simp: delay_bound_def rate_latency_def Let_def split: if_splits)
  have "time_to_send_ps (burst_bytes \<alpha>) r' \<le> time_to_send_ps (burst_bytes \<alpha>) r"
    using assms(2) r(2) div_ceil_antimono [of r r' "burst_bytes \<alpha> * BITS_PER_BYTE * PS_PER_SECOND"]
    by (auto simp: time_to_send_ps_def Let_def)
  with x r assms(2,3) show ?thesis
    by (auto simp: delay_bound_def rate_latency_def Let_def intro!: nc_mono)
qed

interpretation window: monotone_search "window_meets d cycle_ns link" for d cycle_ns link
proof
  fix n m assume ok: "window_meets d cycle_ns link n" and "n \<le> m"
  then obtain x where x: "window_delay d cycle_ns link n = Inr x" "x \<le> deadline_ps d"
    by (auto simp: window_meets_def split: sum.splits)
  have "\<exists>x'. window_delay d cycle_ns link m = Inr x' \<and> x' \<le> x"
    unfolding window_delay_def
    by (rule delay_bound_mono [OF x(1) [unfolded window_delay_def]]) (use \<open>n \<le> m\<close> in \<open>auto intro!: nc_mono\<close>)
  with x(2) show "window_meets d cycle_ns link m" by (auto simp: window_meets_def)
qed


section \<open>Schedules with one window per class\<close>

lemma allows_push_bit:
  assumes "c \<le> 7" "allowed_cos_mask w = push_bit c 1"
  shows "allows k w \<longleftrightarrow> cos_value k = c"
proof -
  have "bit (push_bit c (1::8 word) AND push_bit (cos_value k) 1) m \<longleftrightarrow> m = c \<and> m = cos_value k \<and> m < 8" for m
    by (auto simp: bit_simps)
  then show ?thesis
    unfolding allows_def assms(2) bit_eq_iff [of _ "0::8 word"] using assms(1) by (auto simp: bit_simps)
qed

lemma allows_closed [simp]: "allowed_cos_mask w = 0 \<Longrightarrow> \<not> allows k w"
  by (simp add: allows_def)

lemma single_window_latency:
  assumes "gate_wf s" "open_windows s k = [(a, d)]"
  shows "min_service_latency_ps s k = Some (cycle_ps s - d)" "fst (open_fraction s k) = d"
proof -
  have d: "0 < d" "a + d \<le> cycle_ps s" using open_windows_member [OF assms(1), of a d k] assms(2) by auto
  have c: "cycle_ps s < 2 ^ 63" using assms(1) by (simp add: gate_wf_def)
  show "fst (open_fraction s k) = d"
    using open_fraction_eq [OF assms(1), of k] open_before_cycle [OF assms(1), of k] assms(2) by simp
  show "min_service_latency_ps s k = Some (cycle_ps s - d)"
  proof (cases "cycle_ps s \<le> d")
    case True
    then show ?thesis using d c by (simp add: min_service_latency_ps_def assms(2) u64_max_def)
  next
    case False
    have "- int d mod int (cycle_ps s) = (int (cycle_ps s) - int d) mod int (cycle_ps s)"
      using mod_add_self1 [of "int (cycle_ps s)" "- int d"] by simp
    also have "\<dots> = int (cycle_ps s) - int d" by (rule mod_pos_pos_trivial) (use False d in simp_all)
    finally have t: "- int d mod int (cycle_ps s) = int (cycle_ps s) - int d" .
    have "scan_from [(a, d)] (int (cycle_ps s)) (int d) 0 0 = (int (cycle_ps s) - int d) * int d"
      using False by (simp only: scan_from_def Let_def) (simp add: t max_def)
    moreover have "((int (cycle_ps s) - int d) * int d + int d - 1) div int d = int (cycle_ps s) - int d"
      using d(1) div_mult_self3 [of "int d" "int (cycle_ps s) - int d" "int d - 1"] by (simp add: algebra_simps)
    ultimately show ?thesis using False d c
      by (simp add: min_service_latency_ps_def assms(2) u64_max_def Let_def nat_diff_distrib')
  qed
qed

text \<open>The windows that a list of entries parses to.\<close>

definition window_of :: "entry \<Rightarrow> gate_window" where
  "window_of e = (case e of (o_ns, d_ns, m) \<Rightarrow>
     \<lparr>offset_ps = o_ns * 1000, duration_ps = d_ns * 1000, allowed_cos_mask = m\<rparr>)"

lemma parse_blob:
  assumes "es \<noteq> []" "tiles 0 (map window_of es) c" "c < 2 ^ 63"
  shows "parse (blob_of es) = Inr \<lparr>windows = map window_of es, cycle_ps = c\<rparr>"
    and "gate_wf \<lparr>windows = map window_of es, cycle_ps = c\<rparr>"
proof -
  have small: "o_ns * 1000 \<le> u64_max \<and> d_ns * 1000 \<le> u64_max" if "(o_ns, d_ns, m) \<in> set es" for o_ns d_ns m
  proof -
    have "window_of (o_ns, d_ns, m) \<in> set (map window_of es)" using that by (metis image_eqI set_map)
    from tiles_member [OF assms(2) this] assms(3) show ?thesis by (simp add: window_of_def u64_max_def)
  qed
  have le: "\<forall>(o_ns, d_ns, m) \<in> set es. o_ns \<le> u64_max \<and> d_ns \<le> u64_max" using small by fastforce
  have ws: "map window_of es = map (\<lambda>(o_ns, d_ns, m).
        \<lparr>offset_ps = sat_mul o_ns 1000, duration_ps = sat_mul d_ns 1000, allowed_cos_mask = m\<rparr>) es"
    using small by (auto simp: window_of_def sat_mul_exact)
  have "check_tiling 0 0 (map window_of es) = Inr c"
    using assms(2,3) by (intro tiles_check) (simp_all add: u64_max_def)
  then show "parse (blob_of es) = Inr \<lparr>windows = map window_of es, cycle_ps = c\<rparr>"
    unfolding blob_of_def parse_printed [OF assms(1) le ws] by simp
  show "gate_wf \<lparr>windows = map window_of es, cycle_ps = c\<rparr>"
    using assms by (simp add: gate_wf_def)
qed

lemma tiles_class_entries:
  "\<forall>(d, n) \<in> set dns. 0 < n \<Longrightarrow> tiles (o_ns * 1000) (map window_of (class_entries o_ns dns)) ((o_ns + sum_list (map snd dns)) * 1000)"
proof (induction o_ns dns rule: class_entries.induct)
  case (2 o_ns d n ds)
  then show ?case by (simp add: window_of_def algebra_simps)
qed simp

lemma tiles_gcl_entries:
  assumes "length ns = length demands" "\<forall>n \<in> set ns. 0 < n" "sum_list ns \<le> cycle_ns"
  shows "tiles 0 (map window_of (gcl_entries demands ns cycle_ns)) (cycle_ns * 1000)"
proof -
  have "\<forall>(d, n) \<in> set (zip demands ns). 0 < n" using assms(2) by (auto dest: set_zip_rightD)
  from tiles_class_entries [OF this, of 0] have
    "tiles 0 (map window_of (class_entries 0 (zip demands ns))) (sum_list ns * 1000)"
    using assms(1) by simp
  then show ?thesis using assms(1,3)
    by (auto simp: gcl_entries_def Let_def tiles_append window_of_def diff_mult_distrib [symmetric])
qed

lemma class_entries_closed:
  assumes "\<forall>(d, n) \<in> set dns. cos_value (cos d) \<le> 7 \<and> cos d \<noteq> k"
  shows "filter (allows k) (map window_of (class_entries o_ns dns)) = []"
  using assms
proof (induction o_ns dns rule: class_entries.induct)
  case (2 o_ns d n ds)
  have "\<not> allows k (window_of (o_ns, n, push_bit (cos_value (cos d)) 1))"
    using 2 by (subst allows_push_bit) (auto simp: window_of_def class_of_service.expand)
  with 2 show ?case by auto
qed simp

lemma class_entries_open:
  assumes "distinct (map (\<lambda>x. cos (fst x)) dns)" "\<forall>x \<in> set dns. cos_value (cos (fst x)) \<le> 7" "(d, n) \<in> set dns"
  shows "\<exists>a. filter (allows (cos d)) (map window_of (class_entries o_ns dns))
     = [\<lparr>offset_ps = a, duration_ps = n * 1000, allowed_cos_mask = push_bit (cos_value (cos d)) 1\<rparr>]"
  using assms
proof (induction o_ns dns rule: class_entries.induct)
  case (2 o_ns d' n' ds)
  have head: "allows k (window_of (o_ns, n', push_bit (cos_value (cos d')) 1)) \<longleftrightarrow> k = cos d'" for k
    using 2 by (subst allows_push_bit) (auto simp: window_of_def class_of_service.expand)
  show ?case
  proof (cases "(d, n) = (d', n')")
    case True
    have "filter (allows (cos d)) (map window_of (class_entries (o_ns + n') ds)) = []"
      using 2 True by (intro class_entries_closed) force
    moreover have "window_of (o_ns, n', push_bit (cos_value (cos d')) 1)
        = \<lparr>offset_ps = o_ns * 1000, duration_ps = n * 1000, allowed_cos_mask = push_bit (cos_value (cos d)) 1\<rparr>"
      using True by (simp add: window_of_def)
    ultimately show ?thesis using True head [of "cos d"] by (simp only: class_entries.simps list.map filter.simps) simp
  next
    case False
    with 2 have "(d, n) \<in> set ds" by auto
    moreover from this 2 have "cos d \<noteq> cos d'" by (force simp: image_iff)
    ultimately show ?thesis using 2 head by auto
  qed
qed simp


section \<open>The single-window synthesis\<close>

definition classes_ok :: "class_demand list \<Rightarrow> bool" where
  "classes_ok demands \<longleftrightarrow> (\<forall>d \<in> set demands. cos_value (cos d) \<le> 7)"

lemma duplicate_class_None: "duplicate_class demands = None \<longleftrightarrow> distinct (map cos demands)"
  by (induction demands) auto

lemma single_service:
  assumes "gate_wf s" "open_windows s (cos d) = [(a, n * 1000)]" "cycle_ps s = cycle_ns * 1000"
  shows "tas_residual_service s (cos d) link
    = Some (rate_latency (tas_rate_bps link (n * 1000) (cycle_ns * 1000)) ((cycle_ns - n) * 1000))"
proof -
  have "open_fraction s (cos d) = (n * 1000, cycle_ns * 1000)"
    using single_window_latency(2) [OF assms(1,2)] assms(3) by (simp add: open_fraction_def)
  then show ?thesis
    using single_window_latency(1) [OF assms(1,2)] assms(3)
    by (simp add: tas_residual_service_def diff_mult_distrib)
qed

lemma class_delay_eq:
  assumes "cos_value (cos d) \<le> 7" "0 < n" "n \<le> cycle_ns" "cycle_ns * 1000 < 2 ^ 63"
  shows "class_delay_ps d n cycle_ns link
    = Some (case window_delay d cycle_ns link n of Inr x \<Rightarrow> Some x | Inl _ \<Rightarrow> None)"
proof -
  let ?m = "push_bit (cos_value (cos d)) 1 :: 8 word"
  let ?ws = "if n \<ge> cycle_ns
                then [\<lparr>offset_ps = 0, duration_ps = cycle_ns * 1000, allowed_cos_mask = ?m\<rparr>]
                else [\<lparr>offset_ps = 0, duration_ps = n * 1000, allowed_cos_mask = ?m\<rparr>,
                      \<lparr>offset_ps = n * 1000, duration_ps = cycle_ns * 1000 - n * 1000, allowed_cos_mask = 0\<rparr>]"
  let ?s = "\<lparr>windows = ?ws, cycle_ps = cycle_ns * 1000\<rparr>"
  have wf: "gate_wf ?s" using assms by (auto simp: gate_wf_def)
  have "allows (cos d) \<lparr>offset_ps = 0, duration_ps = x, allowed_cos_mask = ?m\<rparr>" for x
    using allows_push_bit [OF assms(1)] by simp
  then have one: "open_windows ?s (cos d) = [(0, n * 1000)]"
    using assms(3) by (auto simp: open_windows_def simp del: push_bit_of_1)
  have sat: "sat_mul cycle_ns 1000 = cycle_ns * 1000" "sat_mul n 1000 = n * 1000"
    using assms by (simp_all add: sat_mul_min u64_max_def)
  have "tas_residual_service ?s (cos d) link
      = Some (rate_latency (tas_rate_bps link (n * 1000) (cycle_ns * 1000)) ((cycle_ns - n) * 1000))"
    by (rule single_service [OF wf one]) simp
  then show ?thesis unfolding class_delay_ps_def Let_def sat window_delay_def by simp
qed

lemma class_ok_eq:
  "cos_value (cos d) \<le> 7 \<Longrightarrow> 0 < n \<Longrightarrow> n \<le> cycle_ns \<Longrightarrow> cycle_ns * 1000 < 2 ^ 63 \<Longrightarrow>
     class_ok d n cycle_ns link = Some (window_meets d cycle_ns link n)"
  by (simp add: class_ok_def class_delay_eq window_meets_def split: sum.split)

text \<open>The least window of a class, and what the sizing loop returns.\<close>

definition least_window :: "u64 \<Rightarrow> u64 \<Rightarrow> class_demand \<Rightarrow> u64 \<Rightarrow> bool" where
  "least_window cycle_ns link d n \<longleftrightarrow> 1 \<le> n \<and> n \<le> cycle_ns \<and> window_meets d cycle_ns link n
     \<and> (\<forall>m. 1 \<le> m \<and> window_meets d cycle_ns link m \<longrightarrow> n \<le> m)"

lemma size_windows_eq:
  assumes "classes_ok ds" "0 < cycle_ns" "cycle_ns * 1000 < 2 ^ 63"
  shows "if \<forall>d \<in> set ds. window_meets d cycle_ns link cycle_ns
    then \<exists>ns. size_windows cycle_ns link ds = Some (Inr ns) \<and> list_all2 (least_window cycle_ns link) ds ns
    else \<exists>c t a. size_windows cycle_ns link ds = Some (Inl (ClassInfeasible c t a))"
  using assms(1)
proof (induction ds)
  case (Cons d ds)
  then have d: "cos_value (cos d) \<le> 7" "classes_ok ds" by (auto simp: classes_ok_def)
  have full: "class_delay_ps d cycle_ns cycle_ns link
      = Some (case window_delay d cycle_ns link cycle_ns of Inr x \<Rightarrow> Some x | Inl _ \<Rightarrow> None)"
    using class_delay_eq [OF d(1)] assms by simp
  show ?case
  proof (cases "window_meets d cycle_ns link cycle_ns")
    case True
    then obtain x where x: "window_delay d cycle_ns link cycle_ns = Inr x" "x \<le> deadline_ps d"
      by (auto simp: window_meets_def split: sum.splits)
    have "\<forall>n. 1 \<le> n \<and> n \<le> cycle_ns \<longrightarrow> class_ok d n cycle_ns link = Some (window_meets d cycle_ns link n)"
      using class_ok_eq [OF d(1)] assms(3) by auto
    from window.search_least [OF this True] assms(2) obtain n where
      n: "window_search (\<lambda>n. class_ok d n cycle_ns link) 1 cycle_ns = Some n" "least_window cycle_ns link d n"
      by (auto simp: least_window_def)
    then show ?thesis using Cons.IH [OF d(2)] True
      by (auto simp: full x simp del: One_nat_def split: if_splits)
  next
    case False
    then show ?thesis using full
      by (auto simp: window_meets_def split: sum.splits)
  qed
qed simp

lemma gcl_certify_passes:
  assumes "\<forall>d \<in> set ds. \<exists>\<beta> x. tas_residual_service s (cos d) link = Some \<beta> \<and> delay_bound (arrival d) \<beta> = Inr x \<and> x \<le> deadline_ps d"
  shows "certify s link ds = Some None"
  using assms by (induction ds) fastforce+

lemma certify_SomeNone:
  "certify s link ds = Some None \<Longrightarrow> d \<in> set ds \<Longrightarrow>
     \<exists>\<beta> x. tas_residual_service s (cos d) link = Some \<beta> \<and> delay_bound (arrival d) \<beta> = Inr x \<and> x \<le> deadline_ps d"
  by (induction ds) (auto split: option.splits sum.splits if_splits)

lemma gcl_entries_certify:
  assumes "classes_ok demands" "distinct (map cos demands)" "demands \<noteq> []"
    and "list_all2 (least_window cycle_ns link) demands ns" "sum_list ns \<le> cycle_ns" "cycle_ns * 1000 < 2 ^ 63"
  shows "parse_and_certify (blob_of (gcl_entries demands ns cycle_ns)) link demands
    = Some (Inr \<lparr>windows = map window_of (gcl_entries demands ns cycle_ns), cycle_ps = cycle_ns * 1000\<rparr>)"
proof -
  let ?es = "gcl_entries demands ns cycle_ns" and ?s = "\<lparr>windows = map window_of (gcl_entries demands ns cycle_ns), cycle_ps = cycle_ns * 1000\<rparr>"
  have len: "length ns = length demands" using assms(4) by (simp add: list_all2_lengthD)
  have each: "least_window cycle_ns link d n" if "(d, n) \<in> set (zip demands ns)" for d n
    using assms(4) that by (auto simp: list_all2_iff)
  have pos: "\<forall>n \<in> set ns. 0 < n"
    using assms(4) by (auto simp: list_all2_conv_all_nth in_set_conv_nth least_window_def Suc_le_eq)
  have tiles: "tiles 0 (map window_of ?es) (cycle_ns * 1000)" by (rule tiles_gcl_entries [OF len pos assms(5)])
  have ne: "?es \<noteq> []"
    using assms(3) len by (cases demands; cases ns) (auto simp: gcl_entries_def Let_def)
  note parsed = parse_blob [OF ne tiles assms(6)]
  have "\<exists>\<beta> x. tas_residual_service ?s (cos d) link = Some \<beta> \<and> delay_bound (arrival d) \<beta> = Inr x \<and> x \<le> deadline_ps d"
    if "d \<in> set demands" for d
  proof -
    from that len obtain n where dn: "(d, n) \<in> set (zip demands ns)"
      by (metis in_set_impl_in_set_zip1)
    have "map (\<lambda>x. cos (fst x)) (zip demands ns) = map cos (map fst (zip demands ns))" by simp
    then have "map (\<lambda>x. cos (fst x)) (zip demands ns) = map cos demands" using len by simp
    moreover have "\<forall>x \<in> set (zip demands ns). cos_value (cos (fst x)) \<le> 7"
      using assms(1) by (auto simp: classes_ok_def dest: set_zip_leftD)
    ultimately obtain a where "filter (allows (cos d)) (map window_of (class_entries 0 (zip demands ns)))
        = [\<lparr>offset_ps = a, duration_ps = n * 1000, allowed_cos_mask = push_bit (cos_value (cos d)) 1\<rparr>]"
      using class_entries_open [OF _ _ dn] assms(2) by metis
    then have "open_windows ?s (cos d) = [(a, n * 1000)]"
      by (simp add: open_windows_def gcl_entries_def Let_def window_of_def)
    from single_service [OF parsed(2) this] each [OF dn] show ?thesis
      by (auto simp: least_window_def window_meets_def window_delay_def split: sum.splits)
  qed
  then have "certify ?s link demands = Some None" by (intro gcl_certify_passes) blast
  then show ?thesis unfolding parse_and_certify_def parsed(1) by simp
qed

lemma synthesize_gcl_outcome:
  assumes "demands \<noteq> []" "cycle = cycle_ns * 1000" "0 < cycle_ns" "cycle < 2 ^ 63" "classes_ok demands"
    and "distinct (map cos demands)"
  shows "if \<forall>d \<in> set demands. window_meets d cycle_ns link cycle_ns
    then \<exists>ns. list_all2 (least_window cycle_ns link) demands ns \<and> synthesize_gcl demands cycle link =
      Some (if sum_list ns > cycle_ns then Inl (Oversubscribed (sat_mul (sum_list ns) 1000) cycle)
            else Inr \<lparr>windows = map window_of (gcl_entries demands ns cycle_ns), cycle_ps = cycle\<rparr>)
    else \<exists>c t a. synthesize_gcl demands cycle link = Some (Inl (ClassInfeasible c t a))"
proof -
  have gcl: "synthesize_gcl demands cycle link = (case size_windows cycle_ns link demands of
           None \<Rightarrow> None
         | Some (Inl e) \<Rightarrow> Some (Inl e)
         | Some (Inr ns) \<Rightarrow> if sum_list ns > cycle_ns then Some (Inl (Oversubscribed (sat_mul (sum_list ns) 1000) cycle))
            else parse_and_certify (blob_of (gcl_entries demands ns cycle_ns)) link demands)"
    using assms duplicate_class_None [of demands]
    by (simp add: synthesize_gcl_def Let_def split: option.split sum.split)
  have "cycle_ns * 1000 < 2 ^ 63" using assms by simp
  note sizes = size_windows_eq [OF assms(5,3) this, of link]
    and cert = gcl_entries_certify [OF assms(5,6,1) _ _ this, of link]
  show ?thesis
  proof (cases "\<forall>d \<in> set demands. window_meets d cycle_ns link cycle_ns")
    case True
    with sizes obtain ns where ns: "size_windows cycle_ns link demands = Some (Inr ns)"
      "list_all2 (least_window cycle_ns link) demands ns" by auto
    have "synthesize_gcl demands cycle link =
      Some (if sum_list ns > cycle_ns then Inl (Oversubscribed (sat_mul (sum_list ns) 1000) cycle)
            else Inr \<lparr>windows = map window_of (gcl_entries demands ns cycle_ns), cycle_ps = cycle\<rparr>)"
      unfolding gcl ns(1) using cert [OF ns(2)] assms(2)
      by (cases "sum_list ns > cycle_ns") (simp_all add: not_less)
    with ns(2) show ?thesis unfolding if_P [OF True] by blast
  next
    case False
    with sizes show ?thesis by (auto simp: gcl)
  qed
qed

lemma parse_and_certify_Inr:
  assumes "parse_and_certify blob link demands = Some (Inr s)"
  shows "parse blob = Inr s" "certify s link demands = Some None"
  using assms by (auto simp: parse_and_certify_def split: sum.splits option.splits)

text \<open>Every schedule that the three procedures return has been parsed and certified.\<close>

definition certified :: "gate_schedule \<Rightarrow> u64 \<Rightarrow> class_demand list \<Rightarrow> bool" where
  "certified s link demands \<longleftrightarrow> certify s link demands = Some None \<and> (\<exists>blob. parse blob = Inr s)"

lemma parse_and_certify_certified:
  "parse_and_certify blob link demands = Some (Inr s) \<Longrightarrow> certified s link demands"
  unfolding certified_def using parse_and_certify_Inr by blast

lemma gcl_certified:
  "synthesize_gcl demands cycle link = Some (Inr s) \<Longrightarrow> certified s link demands"
  by (auto simp: synthesize_gcl_def Let_def dest: parse_and_certify_certified split: if_splits option.splits sum.splits)



lemma certified_wf: "certified s link demands \<Longrightarrow> cycle_ps s < 2 ^ 63 \<Longrightarrow> gate_wf s"
proof -
  assume c: "certified s link demands" "cycle_ps s < 2 ^ 63"
  then obtain blob where "parse blob = Inr s" by (auto simp: certified_def)
  then have "windows s \<noteq> []" "check_tiling 0 0 (windows s) = Inr (cycle_ps s)"
    by (auto simp: parse_def Let_def split: if_splits sum.splits)
  with c(2) check_tiling_tiles [OF _ this(2)] show ?thesis by (simp add: gate_wf_def u64_max_def)
qed



section \<open>Replicated rounds\<close>

text \<open>A round repeated \<open>k\<close> times opens the same instants, so its least sound latency and its rate are
  those of the round.\<close>

definition repeats :: "nat \<Rightarrow> gate_schedule \<Rightarrow> gate_schedule \<Rightarrow> bool" where
  "repeats k s r \<longleftrightarrow> 0 < k \<and> cycle_ps s = k * cycle_ps r \<and> (\<forall>c x. gate_open s c x = gate_open r c x)"

lemma repeats_open:
  assumes "repeats k s r"
  shows "gate_open s c = gate_open r c" "open_time s c = open_time r c"
    "open_before (gate_open s c) (cycle_ps s) = k * open_before (gate_open r c) (cycle_ps r)"
proof -
  show same: "gate_open s c = gate_open r c" using assms by (auto simp: repeats_def)
  show "open_time s c = open_time r c" by (intro ext) (simp add: open_time_def same)
  have "open_before (gate_open r c) (n * cycle_ps r) = n * open_before (gate_open r c) (cycle_ps r)" for n
  proof (induction n)
    case (Suc n)
    have "Suc n * cycle_ps r = n * cycle_ps r + cycle_ps r" by simp
    with Suc show ?case by (simp only: gate.open_before_add) simp
  qed simp
  then show "open_before (gate_open s c) (cycle_ps s) = k * open_before (gate_open r c) (cycle_ps r)"
    using assms by (simp add: same repeats_def)
qed

lemma repeats_service:
  assumes "repeats k s r" "gate_wf s" "gate_wf r" "0 < open_before (gate_open r c) (cycle_ps r)"
  shows "tas_residual_service s c link = tas_residual_service r c link"
proof -
  have k: "0 < k" "cycle_ps s = k * cycle_ps r" using assms(1) by (auto simp: repeats_def)
  let ?O = "open_before (gate_open r c) (cycle_ps r)"
  from min_service_latency_least [OF assms(3,4)] obtain l where
    l: "min_service_latency_ps r c = Some l"
       "\<And>l'. l \<le> l' \<longleftrightarrow> (\<forall>phase t. ?O * (t - l') \<le> cycle_ps r * open_time r c phase t)" by blast
  have "0 < open_before (gate_open s c) (cycle_ps s)"
    using repeats_open(3) [OF assms(1)] assms(4) k by simp
  from min_service_latency_least [OF assms(2) this] obtain m where
    m: "min_service_latency_ps s c = Some m"
       "\<And>l'. m \<le> l' \<longleftrightarrow> (\<forall>phase t. k * ?O * (t - l') \<le> k * cycle_ps r * open_time r c phase t)"
    unfolding repeats_open(2,3) [OF assms(1)] unfolding k(2) by blast
  have same: "m \<le> l' \<longleftrightarrow> l \<le> l'" for l' unfolding l(2) m(2) using k(1) by (simp add: mult.assoc)
  have "m = l" using same [of m] same [of l] by simp
  moreover have "tas_rate_bps link (k * ?O) (k * cycle_ps r) = tas_rate_bps link ?O (cycle_ps r)"
  proof -
    have "link * (k * ?O) div (k * cycle_ps r) = link * ?O div cycle_ps r"
      using k(1) by (simp add: mult.left_commute)
    then show ?thesis using k(1) by (simp add: tas_rate_bps_def)
  qed
  ultimately show ?thesis
    using l(1) m(1) k(2) repeats_open(3) [OF assms(1)]
    by (simp add: tas_residual_service_def open_fraction_eq [OF assms(2)] open_fraction_eq [OF assms(3)])
qed

lemma tiles_shift:
  "tiles a ws b \<Longrightarrow> tiles (c + a) (map (\<lambda>w. w\<lparr>offset_ps := c + offset_ps w\<rparr>) ws) (c + b)"
  by (induction ws arbitrary: a) (auto simp: add.assoc)

definition shifted_rounds :: "gate_schedule \<Rightarrow> nat \<Rightarrow> gate_window list" where
  "shifted_rounds r k = concat (map (\<lambda>i. map (\<lambda>w. w\<lparr>offset_ps := i * cycle_ps r + offset_ps w\<rparr>) (windows r)) [0..<k])"

lemma tiles_rounds: "tiles 0 (windows r) (cycle_ps r) \<Longrightarrow> tiles 0 (shifted_rounds r k) (k * cycle_ps r)"
proof (induction k)
  case (Suc k)
  have "tiles (k * cycle_ps r + 0) (map (\<lambda>w. w\<lparr>offset_ps := k * cycle_ps r + offset_ps w\<rparr>) (windows r))
      (k * cycle_ps r + cycle_ps r)"
    by (rule tiles_shift [OF Suc.prems])
  with Suc show ?case by (auto simp: shifted_rounds_def tiles_append add.commute)
qed (simp add: shifted_rounds_def)

lemma rounds_repeat:
  assumes "gate_wf r" "0 < k"
  shows "repeats k \<lparr>windows = shifted_rounds r k, cycle_ps = k * cycle_ps r\<rparr> r"
proof -
  let ?C = "cycle_ps r" and ?s = "\<lparr>windows = shifted_rounds r k, cycle_ps = k * cycle_ps r\<rparr>"
  have C: "0 < ?C" using assms(1) tiles_member by (fastforce simp: gate_wf_def neq_Nil_conv)
  have fit: "offset_ps w + duration_ps w \<le> ?C" if "w \<in> set (windows r)" for w
    using assms(1) that tiles_member by (auto simp: gate_wf_def)
  have "gate_open ?s c x = gate_open r c x" for c x
  proof -
    let ?i = "x mod (k * ?C) div ?C"
    have i: "?i < k" using C assms(2) by (simp add: div_less_iff_less_mult)
    have "x mod (k * ?C) mod ?C = x mod ?C" by (simp add: mod_mod_cancel)
    then have x: "x mod (k * ?C) = ?i * ?C + x mod ?C" by (metis div_mult_mod_eq)
    have at: "i * ?C + offset_ps w \<le> x mod (k * ?C) \<and> x mod (k * ?C) < i * ?C + offset_ps w + duration_ps w
        \<longleftrightarrow> i = ?i \<and> offset_ps w \<le> x mod ?C \<and> x mod ?C < offset_ps w + duration_ps w"
      if "w \<in> set (windows r)" for i w
    proof (cases "i = ?i")
      case True
      then have e: "x mod (k * ?C) = i * ?C + x mod ?C" using x by (simp only: True)
      have "i * ?C + offset_ps w \<le> x mod (k * ?C) \<longleftrightarrow> offset_ps w \<le> x mod ?C" using e by linarith
      moreover have "x mod (k * ?C) < i * ?C + offset_ps w + duration_ps w \<longleftrightarrow> x mod ?C < offset_ps w + duration_ps w"
        using e by linarith
      ultimately show ?thesis using True by blast
    next
      case False
      then have "i * ?C + ?C \<le> ?i * ?C \<or> ?i * ?C + ?C \<le> i * ?C"
        by (metis add.commute linorder_neqE_nat mult_Suc mult_le_mono1 Suc_leI)
      moreover have "x mod ?C < ?C" using C by simp
      moreover note fit [OF that] x
      ultimately have "\<not> (i * ?C + offset_ps w \<le> x mod (k * ?C) \<and> x mod (k * ?C) < i * ?C + offset_ps w + duration_ps w)"
        by (elim disjE) linarith+
      with False show ?thesis by blast
    qed
    have "gate_open ?s c x \<longleftrightarrow> (\<exists>i < k. \<exists>w \<in> set (windows r). allows c w
        \<and> i * ?C + offset_ps w \<le> x mod (k * ?C) \<and> x mod (k * ?C) < i * ?C + offset_ps w + duration_ps w)"
      by (auto simp: gate_open_def shifted_rounds_def allows_def)
    also have "\<dots> \<longleftrightarrow> gate_open r c x" using at i by (auto simp: gate_open_def)
    finally show ?thesis .
  qed
  then show ?thesis using assms(2) by (simp add: repeats_def)
qed

definition repeat_round :: "gate_schedule \<Rightarrow> nat \<Rightarrow> gate_schedule" where
  "repeat_round r k = \<lparr>windows = shifted_rounds r k, cycle_ps = k * cycle_ps r\<rparr>"

lemma repeat_round_1: "repeat_round r 1 = r"
  by (simp add: repeat_round_def shifted_rounds_def)

lemma split_entries_windows:
  assumes "whole_nanos r" "1000 dvd cycle_ps r"
  shows "map window_of (split_entries r (cycle_ps r) k) = shifted_rounds r k"
proof -
  have "window_of ((i * cycle_ps r + offset_ps w) div 1000, duration_ps w div 1000, allowed_cos_mask w)
      = w\<lparr>offset_ps := i * cycle_ps r + offset_ps w\<rparr>" if "w \<in> set (windows r)" for i w
    using assms that by (simp add: window_of_def whole_nanos_def)
  then show ?thesis
    by (simp add: split_entries_def shifted_rounds_def map_concat comp_def cong: map_cong)
qed

lemma certified_open:
  assumes "certify r link demands = Some None" "gate_wf r" "d \<in> set demands"
  shows "0 < open_before (gate_open r (cos d)) (cycle_ps r)"
proof (rule ccontr)
  assume "\<not> ?thesis"
  then have "tas_residual_service r (cos d) link = Some \<beta> \<Longrightarrow> rate_bps \<beta> = 0" for \<beta>
    by (auto simp: tas_residual_service_def open_fraction_eq [OF assms(2)] tas_rate_bps_def rate_latency_def)
  then show False using certify_SomeNone [OF assms(1,3)] by (auto simp: delay_bound_def split: if_splits)
qed

lemma certify_repeat:
  assumes "gate_wf r" "gate_wf (repeat_round r k)" "0 < k" "certify r link demands = Some None"
  shows "certify (repeat_round r k) link demands = Some None"
proof (rule gcl_certify_passes, rule ballI)
  fix d assume d: "d \<in> set demands"
  have "tas_residual_service (repeat_round r k) (cos d) link = tas_residual_service r (cos d) link"
    using repeats_service [OF rounds_repeat [OF assms(1,3), folded repeat_round_def] assms(2,1)]
      certified_open [OF assms(4,1) d] by blast
  with certify_SomeNone [OF assms(4) d] show "\<exists>\<beta> x. tas_residual_service (repeat_round r k) (cos d) link = Some \<beta>
      \<and> delay_bound (arrival d) \<beta> = Inr x \<and> x \<le> deadline_ps d" by simp
qed

lemma split_round_ok:
  assumes "gate_wf r" "whole_nanos r" "1000 dvd cycle_ps r" "0 < k" "k * cycle_ps r < 2 ^ 63"
    and "certify r link demands = Some None"
  shows "parse_and_certify (blob_of (split_entries r (cycle_ps r) k)) link demands = Some (Inr (repeat_round r k))"
proof -
  have ws: "map window_of (split_entries r (cycle_ps r) k) = shifted_rounds r k"
    by (rule split_entries_windows [OF assms(2,3)])
  have "windows r \<noteq> []" "tiles 0 (windows r) (cycle_ps r)" using assms(1) by (auto simp: gate_wf_def)
  then have "split_entries r (cycle_ps r) k \<noteq> []" "tiles 0 (map window_of (split_entries r (cycle_ps r) k)) (k * cycle_ps r)"
    using assms(4) unfolding ws by (auto simp: split_entries_def tiles_rounds)
  note parsed = parse_blob [OF this assms(5), unfolded ws, folded repeat_round_def]
  show ?thesis unfolding parse_and_certify_def parsed(1)
    using certify_repeat [OF assms(1) parsed(2) assms(4,6)] by simp
qed

text \<open>The full-cycle window of a class does not depend on the cycle, so infeasibility of a class does
  not depend on the split.\<close>

lemma window_meets_full:
  "0 < c \<Longrightarrow> 0 < c' \<Longrightarrow> window_meets d c link c \<longleftrightarrow> window_meets d c' link c'"
  by (simp add: window_meets_def window_delay_def tas_rate_bps_def)

definition synth_input :: "class_demand list \<Rightarrow> u64 \<Rightarrow> bool" where
  "synth_input demands cycle \<longleftrightarrow> demands \<noteq> [] \<and> 1000 dvd cycle \<and> 0 < cycle \<and> cycle < 2 ^ 63
     \<and> classes_ok demands \<and> distinct (map cos demands)"

lemma synth_input_div: "synth_input demands cycle \<Longrightarrow> k * 1000 dvd cycle \<Longrightarrow> synth_input demands (cycle div k)"
proof -
  assume a: "synth_input demands cycle" "k * 1000 dvd cycle"
  then obtain q where q: "cycle = k * 1000 * q" by (auto simp: dvd_def)
  then have "0 < k" "0 < q" using a(1) by (auto simp: synth_input_def)
  then have "cycle div k = 1000 * q" "1000 * q \<le> cycle" using q by (auto simp: mult.assoc)
  with a(1) \<open>0 < q\<close> show ?thesis by (auto simp: synth_input_def)
qed

lemma synthesize_gcl_cases:
  assumes "synth_input demands cycle"
  obtains (infeasible) c t a where "\<not> (\<forall>d \<in> set demands. window_meets d 1 link 1)"
      "synthesize_gcl demands cycle link = Some (Inl (ClassInfeasible c t a))"
    | (oversubscribed) ns where "\<forall>d \<in> set demands. window_meets d 1 link 1"
      "list_all2 (least_window (cycle div 1000) link) demands ns" "cycle div 1000 < sum_list ns"
      "synthesize_gcl demands cycle link = Some (Inl (Oversubscribed (sat_mul (sum_list ns) 1000) cycle))"
    | (feasible) ns where "\<forall>d \<in> set demands. window_meets d 1 link 1"
      "list_all2 (least_window (cycle div 1000) link) demands ns" "sum_list ns \<le> cycle div 1000"
      "synthesize_gcl demands cycle link
         = Some (Inr \<lparr>windows = map window_of (gcl_entries demands ns (cycle div 1000)), cycle_ps = cycle\<rparr>)"
proof -
  let ?cn = "cycle div 1000"
  have cn: "cycle = ?cn * 1000" "0 < ?cn" using assms by (auto simp: synth_input_def)
  have full: "(\<forall>d \<in> set demands. window_meets d ?cn link ?cn) \<longleftrightarrow> (\<forall>d \<in> set demands. window_meets d 1 link 1)"
    using window_meets_full [OF cn(2), of 1] by simp
  from synthesize_gcl_outcome [OF _ cn(1,2), of demands link] assms have out:
    "if \<forall>d \<in> set demands. window_meets d 1 link 1
     then \<exists>ns. list_all2 (least_window ?cn link) demands ns \<and> synthesize_gcl demands cycle link =
      Some (if sum_list ns > ?cn then Inl (Oversubscribed (sat_mul (sum_list ns) 1000) cycle)
            else Inr \<lparr>windows = map window_of (gcl_entries demands ns ?cn), cycle_ps = cycle\<rparr>)
     else \<exists>c t a. synthesize_gcl demands cycle link = Some (Inl (ClassInfeasible c t a))"
    unfolding full synth_input_def by blast
  show thesis
  proof (cases "\<forall>d \<in> set demands. window_meets d 1 link 1")
    case True
    from out [unfolded if_P [OF this]] obtain ns where "list_all2 (least_window ?cn link) demands ns"
      "synthesize_gcl demands cycle link =
        Some (if sum_list ns > ?cn then Inl (Oversubscribed (sat_mul (sum_list ns) 1000) cycle)
              else Inr \<lparr>windows = map window_of (gcl_entries demands ns ?cn), cycle_ps = cycle\<rparr>)" by auto
    with True show thesis using oversubscribed feasible by (cases "sum_list ns > ?cn") (auto simp: not_less)
  next
    case False
    with out [unfolded if_not_P [OF this]] show thesis using infeasible by blast
  qed
qed

lemma gcl_round:
  assumes "synth_input demands cycle" "synthesize_gcl demands cycle link = Some (Inr r)"
  shows "gate_wf r" "whole_nanos r" "cycle_ps r = cycle" "certify r link demands = Some None"
proof -
  obtain ns where r: "r = \<lparr>windows = map window_of (gcl_entries demands ns (cycle div 1000)), cycle_ps = cycle\<rparr>"
    by (rule synthesize_gcl_cases [OF assms(1), of link]) (use assms(2) in auto)
  then show "whole_nanos r" "cycle_ps r = cycle" by (auto simp: whole_nanos_def window_of_def)
  have cert: "certified r link demands" by (rule gcl_certified [OF assms(2)])
  then show "certify r link demands = Some None" by (simp add: certified_def)
  show "gate_wf r" using assms(1) r by (intro certified_wf [OF cert]) (simp add: synth_input_def)
qed

text \<open>A split factor is feasible if it divides the cycle into whole nanoseconds and the round can be
  synthesized.\<close>

definition feasible_split :: "class_demand list \<Rightarrow> u64 \<Rightarrow> u64 \<Rightarrow> nat \<Rightarrow> bool" where
  "feasible_split demands cycle link k \<longleftrightarrow>
     k * 1000 dvd cycle \<and> (\<exists>r. synthesize_gcl demands (cycle div k) link = Some (Inr r))"

lemma sat_mul_dvd:
  assumes "0 < cycle" "cycle < 2 ^ 63"
  shows "cycle mod sat_mul k 1000 = 0 \<longleftrightarrow> k * 1000 dvd cycle"
proof (cases "k * 1000 \<le> u64_max")
  case True
  then show ?thesis by (simp add: sat_mul_exact dvd_eq_mod_eq_0)
next
  case False
  then have "sat_mul k 1000 = u64_max" "cycle < u64_max" "cycle < k * 1000"
    using assms by (auto simp: sat_mul_min u64_max_def)
  then show ?thesis using assms(1) by (auto dest: dvd_imp_le)
qed

lemma split_loop_outcome:
  assumes "synth_input demands cycle" "0 < k" "\<forall>d \<in> set demands. window_meets d 1 link 1"
  shows "(\<exists>k' r. k \<le> k' \<and> k' \<le> kcap \<and> feasible_split demands cycle link k'
        \<and> (\<forall>j. k \<le> j \<and> j < k' \<longrightarrow> \<not> feasible_split demands cycle link j)
        \<and> synthesize_gcl demands (cycle div k') link = Some (Inr r)
        \<and> split_loop demands cycle link kcap k (Oversubscribed a b) = Some (Inr (repeat_round r k')))
    \<or> (\<forall>j. k \<le> j \<and> j \<le> kcap \<longrightarrow> \<not> feasible_split demands cycle link j)
        \<and> (\<exists>a' b'. split_loop demands cycle link kcap k (Oversubscribed a b) = Some (Inl (Oversubscribed a' b')))"
  using assms(2)
proof (induction "Suc kcap - k" arbitrary: k a b rule: less_induct)
  case less
  have dvd: "cycle mod sat_mul k 1000 = 0 \<longleftrightarrow> k * 1000 dvd cycle"
    using assms(1) by (intro sat_mul_dvd) (auto simp: synth_input_def)
  show ?case
  proof (cases "k \<le> kcap")
    case False
    then show ?thesis by (subst split_loop.simps) auto
  next
    case True
    have next_k: ?thesis if skip: "\<not> feasible_split demands cycle link k"
      and run: "split_loop demands cycle link kcap k (Oversubscribed a b) = split_loop demands cycle link kcap (k + 1) (Oversubscribed a' b')"
      for a' b'
    proof -
      have step: "(\<forall>j. k \<le> j \<and> P j \<longrightarrow> Q j) \<longleftrightarrow> (P k \<longrightarrow> Q k) \<and> (\<forall>j. k + 1 \<le> j \<and> P j \<longrightarrow> Q j)" for P Q
        by (metis Suc_eq_plus1 Suc_leD le_neq_implies_less less_eq_Suc_le order_refl)
      have "Suc kcap - (k + 1) < Suc kcap - k" "0 < k + 1" using True by auto
      from less.hyps [OF this, of a' b'] skip show ?thesis
        unfolding run step by (metis Suc_eq_plus1 Suc_leD)
    qed
    show ?thesis
    proof (cases "k * 1000 dvd cycle")
      case False
      then show ?thesis using True dvd
        by (intro next_k [of a b]) (simp add: feasible_split_def, subst split_loop.simps, simp)
    next
      case div: True
      have input: "synth_input demands (cycle div k)" by (rule synth_input_div [OF assms(1) div])
      show ?thesis
      proof (rule synthesize_gcl_cases [OF input, of link])
        fix ns assume "synthesize_gcl demands (cycle div k) link
          = Some (Inl (Oversubscribed (sat_mul (sum_list ns) 1000) (cycle div k)))"
        then show ?thesis using True dvd div
          by (intro next_k [of "sat_mul (sum_list ns) 1000" "cycle div k"])
            (simp add: feasible_split_def, subst split_loop.simps, simp)
      next
        fix ns
        let ?r = "\<lparr>windows = map window_of (gcl_entries demands ns (cycle div k div 1000)), cycle_ps = cycle div k\<rparr>"
        assume gcl: "synthesize_gcl demands (cycle div k) link = Some (Inr ?r)"
        note r = gcl_round [OF input gcl]
        have kc: "k * (cycle div k) = cycle" using div by (metis dvd_mult_div_cancel dvd_mult_left)
        have "parse_and_certify (blob_of (split_entries ?r (cycle div k) k)) link demands = Some (Inr (repeat_round ?r k))"
          using split_round_ok [OF r(1,2) _ less.prems _ r(4)] input assms(1) kc
          by (simp add: synth_input_def)
        then have "split_loop demands cycle link kcap k (Oversubscribed a b) = Some (Inr (repeat_round ?r k))"
          using True dvd div gcl repeat_round_1 [of ?r] by (subst split_loop.simps) auto
        with gcl div True show ?thesis unfolding feasible_split_def
          by (intro disjI1 exI [of _ k] exI [of _ ?r]) auto
      qed (use assms(3) in blast)
    qed
  qed
qed


section \<open>Without a guard\<close>

lemma push_bit_nonzero: "c \<le> 7 \<Longrightarrow> push_bit c (1::8 word) \<noteq> 0"
  by (auto simp: bit_eq_iff [of _ "0::8 word"] bit_simps)

lemma class_entries_masks:
  "\<forall>x \<in> set dns. cos_value (cos (fst x)) \<le> 7 \<Longrightarrow> \<forall>(a, d, m) \<in> set (class_entries o_ns dns). m \<noteq> 0"
  by (induction o_ns dns rule: class_entries.induct) (auto simp: push_bit_nonzero simp del: push_bit_of_1)

lemma guarded_round_0:
  "guarded_round 0 leftover (b + o_ns) (map window_of (class_entries o_ns dns)) =
     map (\<lambda>(a, d, m). (b + a, d, m)) (class_entries o_ns dns)
     @ (if dns \<noteq> [] \<and> leftover > 0 then [(b + o_ns + sum_list (map snd dns), leftover div 1000, 0)] else [])"
proof (induction o_ns dns rule: class_entries.induct)
  case (2 o_ns d n ds)
  have "map window_of (class_entries (o_ns + n) ds) = [] \<longleftrightarrow> ds = []" by (cases ds) auto
  with 2 show ?case by (auto simp: window_of_def add.assoc simp del: push_bit_of_1)
qed simp

lemma open_windows_of_gcl:
  assumes "classes_ok demands"
  shows "filter (\<lambda>w. allowed_cos_mask w \<noteq> 0) (map window_of (gcl_entries demands ns cn))
    = map window_of (class_entries 0 (zip demands ns))"
proof -
  have "\<forall>x \<in> set (zip demands ns). cos_value (cos (fst x)) \<le> 7"
    using assms by (auto simp: classes_ok_def dest: set_zip_leftD)
  from class_entries_masks [OF this, of 0]
  have "filter (\<lambda>w. allowed_cos_mask w \<noteq> 0) (map window_of (class_entries 0 (zip demands ns)))
      = map window_of (class_entries 0 (zip demands ns))"
    by (intro filter_True) (auto simp: window_of_def)
  then show ?thesis by (simp add: gcl_entries_def Let_def window_of_def)
qed

lemma sum_class_entries:
  "sum_list (map duration_ps (map window_of (class_entries o_ns dns))) = sum_list (map snd dns) * 1000"
  by (induction o_ns dns rule: class_entries.induct) (auto simp: window_of_def algebra_simps)

lemma guarded_entries_0:
  assumes "classes_ok demands" "length ns = length demands" "demands \<noteq> []" "sum_list ns \<le> cn"
    and r: "r = \<lparr>windows = map window_of (gcl_entries demands ns cn), cycle_ps = cn * 1000\<rparr>"
  shows "guarded_entries r (cn * 1000) k 0 (cn * 1000 - sum_list ns * 1000) = split_entries r (cn * 1000) k"
proof -
  have opens: "open_windows_of r = map window_of (class_entries 0 (zip demands ns))"
    using open_windows_of_gcl [OF assms(1)] by (simp add: open_windows_of_def r)
  have "guarded_round 0 (cn * 1000 - sum_list ns * 1000) (i * (cn * 1000) div 1000) (open_windows_of r)
      = map (\<lambda>(a, d, m). (i * cn + a, d, m)) (gcl_entries demands ns cn)" for i
  proof -
    have "i * (cn * 1000) div 1000 = i * cn" by (metis mult.assoc nonzero_mult_div_cancel_right zero_neq_numeral)
    moreover have "zip demands ns \<noteq> []" using assms(2,3) by (cases demands; cases ns) auto
    ultimately show ?thesis
      using guarded_round_0 [of "cn * 1000 - sum_list ns * 1000" "i * cn" 0 "zip demands ns"] assms(2)
      by (simp add: opens gcl_entries_def Let_def diff_mult_distrib [symmetric])
  qed
  moreover have "map (\<lambda>w. ((i * (cn * 1000) + offset_ps w) div 1000, duration_ps w div 1000, allowed_cos_mask w)) (windows r)
      = map (\<lambda>(a, d, m). (i * cn + a, d, m)) (gcl_entries demands ns cn)" for i
  proof -
    have "(i * (cn * 1000) + a * 1000) div 1000 = i * cn + a" for a :: nat
      by (metis add_mult_distrib mult.assoc nonzero_mult_div_cancel_right zero_neq_numeral)
    then show ?thesis by (auto simp: r window_of_def)
  qed
  ultimately show ?thesis by (simp add: guarded_entries_def split_entries_def)
qed

lemma guarded_loop_0:
  assumes "synth_input demands cycle" "0 < k"
    and "e = Some (Oversubscribed a b) \<or> e = None \<and> k = 1 \<and> 1 \<le> kcap"
  shows "guarded_loop demands cycle link 0 kcap k u64_max e = split_loop demands cycle link kcap k (Oversubscribed a b)"
  using assms(2,3)
proof (induction "Suc kcap - k" arbitrary: k e a b rule: less_induct)
  case less
  have dvd: "cycle mod sat_mul k 1000 = 0 \<longleftrightarrow> k * 1000 dvd cycle"
    using assms(1) by (intro sat_mul_dvd) (auto simp: synth_input_def)
  show ?case
  proof (cases "k \<le> kcap")
    case False
    with less.prems show ?thesis by (subst split_loop.simps, subst guarded_loop.simps) auto
  next
    case True
    then have small: "Suc kcap - (k + 1) < Suc kcap - k" "0 < k + 1" by auto
    show ?thesis
    proof (cases "k * 1000 dvd cycle")
      case False
      then have "k \<noteq> 1" using assms(1) by (auto simp: synth_input_def)
      with False True dvd less.prems less.hyps [OF small] show ?thesis
        by (subst split_loop.simps, subst guarded_loop.simps) auto
    next
      case div: True
      have input: "synth_input demands (cycle div k)" by (rule synth_input_div [OF assms(1) div])
      show ?thesis
      proof (rule synthesize_gcl_cases [OF input, of link])
        fix c t x assume "synthesize_gcl demands (cycle div k) link = Some (Inl (ClassInfeasible c t x))"
        then show ?thesis using True div dvd
          by (subst split_loop.simps, subst guarded_loop.simps) (simp add: Let_def)
      next
        fix ns assume "synthesize_gcl demands (cycle div k) link
          = Some (Inl (Oversubscribed (sat_mul (sum_list ns) 1000) (cycle div k)))"
        then show ?thesis using True div dvd less.hyps [OF small]
          by (subst split_loop.simps, subst guarded_loop.simps) (simp add: Let_def)
      next
        fix ns
        let ?cn = "cycle div k div 1000"
        let ?r = "\<lparr>windows = map window_of (gcl_entries demands ns ?cn), cycle_ps = cycle div k\<rparr>"
        assume ns: "list_all2 (least_window ?cn link) demands ns" "sum_list ns \<le> ?cn"
          and gcl: "synthesize_gcl demands (cycle div k) link = Some (Inr ?r)"
        have rc: "cycle div k = ?cn * 1000" "cycle div k < 2 ^ 63" using input by (auto simp: synth_input_def)
        have len: "length ns = length demands" using ns(1) by (simp add: list_all2_lengthD)
        have usable: "sum_list (map duration_ps (open_windows_of ?r)) = sum_list ns * 1000"
          using open_windows_of_gcl [of demands ns ?cn] assms(1) sum_class_entries [of 0 "zip demands ns"] len
          by (simp add: open_windows_of_def synth_input_def del: map_map)
        have fit: "sum_list ns * 1000 \<le> cycle div k" using ns(2) rc(1) by linarith
        then have req: "sat_add (sum_list ns * 1000) (sat_mul (length demands) 0) = sum_list ns * 1000"
          using rc(2) by (simp add: sat_add_min sat_mul_min u64_max_def)
        have "guarded_entries ?r (cycle div k) k 0 (cycle div k - sum_list ns * 1000) = split_entries ?r (cycle div k) k"
          using guarded_entries_0 [of demands ns ?cn ?r k] assms(1) len ns(2) rc(1) by (simp add: synth_input_def)
        then have g: "guarded_loop demands cycle link 0 kcap k u64_max e
            = parse_and_certify (blob_of (split_entries ?r (cycle div k) k)) link demands"
          using True div dvd gcl usable fit req by (subst guarded_loop.simps) (simp add: Let_def)
        note r = gcl_round [OF input gcl]
        have kc: "k * (cycle div k) = cycle" using div by (metis dvd_mult_div_cancel dvd_mult_left)
        have "parse_and_certify (blob_of (split_entries ?r (cycle div k) k)) link demands = Some (Inr (repeat_round ?r k))"
          using split_round_ok [OF r(1,2) _ less.prems(1) _ r(4)] input assms(1) kc
          by (simp add: synth_input_def)
        then show ?thesis using g True dvd div gcl repeat_round_1 [of ?r] by (subst split_loop.simps) auto
      qed
    qed
  qed
qed

lemma least_windows_sum:
  "list_all2 (least_window cn link) ds ns \<Longrightarrow> list_all2 (\<lambda>d n. 1 \<le> n \<and> window_meets d cn link n) ds ms
     \<Longrightarrow> sum_list ns \<le> sum_list ms"
proof (induction ds arbitrary: ns ms)
  case (Cons d ds)
  then obtain n ns' m ms' where [simp]: "ns = n # ns'" "ms = m # ms'" by (auto simp: list_all2_Cons1)
  from Cons have "n \<le> m" "sum_list ns' \<le> sum_list ms'" by (auto simp: least_window_def)
  then show ?case by simp
qed simp

lemma windows_fit_full:
  assumes "0 < cn" "sum_list ns \<le> cn \<and> list_all2 (\<lambda>d n. 1 \<le> n \<and> window_meets d cn link n) demands ns" "d \<in> set demands"
  shows "window_meets d 1 link 1"
proof -
  from assms(2,3) obtain n where "n \<in> set ns" "window_meets d cn link n"
    unfolding list_all2_conv_all_nth in_set_conv_nth by metis
  moreover from this(1) assms(2) have "n \<le> cn" using member_le_sum_list order_trans by blast
  ultimately have "window_meets d cn link cn" using window.mono by blast
  then show ?thesis using window_meets_full [OF assms(1), of 1] by simp
qed


section \<open>Properties\<close>


definition demo_demand :: class_demand where
  "demo_demand = \<lparr>cos = ClassOfService 7, arrival = affine 1500 10000000, deadline_ps = 500000000\<rparr>"

lemma demo_input: "synth_input [demo_demand] 1000000000"
  by (simp add: synth_input_def classes_ok_def demo_demand_def)

lemma demo_meets: "window_meets demo_demand 1 1000000000 1"
  by (simp add: window_meets_def window_delay_def demo_demand_def delay_bound_def affine_def rate_latency_def
      tas_rate_bps_def time_to_send_ps_def BITS_PER_BYTE_def PS_PER_SECOND_def div_ceil_def sat_simps u64_max_def Let_def)

lemma demo_gcl: "\<exists>s. synthesize_gcl [demo_demand] 1000000000 1000000000 = Some (Inr s) \<and> cycle_ps s < 2 ^ 63"
  by (rule synthesize_gcl_cases [OF demo_input, of 1000000000])
    (auto simp: demo_meets [simplified] list_all2_Cons1 least_window_def)


text \<open>C30. Single-window synthesis is complete and minimal: on distinct classes and a whole-nanosecond
  cycle it never panics and never fails its self-check, and it succeeds exactly when there are window
  lengths, each meeting its class's deadline under the delay bound, that fit into the cycle together.\<close>

theorem synthesize_gcl_complete:
  assumes "synth_input demands cycle"
  shows "(case synthesize_gcl demands cycle link of
      None \<Rightarrow> False | Some (Inl (SelfCheck _)) \<Rightarrow> False | _ \<Rightarrow> True)
    \<and> ((\<exists>s. synthesize_gcl demands cycle link = Some (Inr s)) \<longleftrightarrow>
       (\<exists>ns. sum_list ns \<le> cycle div 1000
          \<and> list_all2 (\<lambda>d n. 1 \<le> n \<and> class_ok d n (cycle div 1000) link = Some True) demands ns))"
proof -
  let ?cn = "cycle div 1000"
  have cn: "0 < ?cn" "?cn * 1000 < 2 ^ 63" "classes_ok demands" using assms by (auto simp: synth_input_def)
  have ok: "class_ok d n ?cn link = Some True \<longleftrightarrow> window_meets d ?cn link n"
    if "d \<in> set demands" "1 \<le> n" "n \<le> ?cn" for d n
    using class_ok_eq [of d n ?cn link] that cn by (simp add: classes_ok_def)
  have feasible: "(\<exists>ns. sum_list ns \<le> ?cn \<and> list_all2 (\<lambda>d n. 1 \<le> n \<and> class_ok d n ?cn link = Some True) demands ns)
      \<longleftrightarrow> (\<exists>ns. sum_list ns \<le> ?cn \<and> list_all2 (\<lambda>d n. 1 \<le> n \<and> window_meets d ?cn link n) demands ns)"
  proof -
    have le: "n \<le> ?cn" if "sum_list ns \<le> ?cn" "n \<in> set ns" for n ns
      using that member_le_sum_list order_trans by blast
    have "list_all2 (\<lambda>d n. 1 \<le> n \<and> class_ok d n ?cn link = Some True) demands ns
        \<longleftrightarrow> list_all2 (\<lambda>d n. 1 \<le> n \<and> window_meets d ?cn link n) demands ns" if "sum_list ns \<le> ?cn" for ns
      using ok le [OF that] by (intro iffI; elim list.rel_mono_strong; blast)
    then show ?thesis by blast
  qed
  show ?thesis
  proof (rule synthesize_gcl_cases [OF assms, of link])
    fix c t a
    assume bad: "\<not> (\<forall>d \<in> set demands. window_meets d 1 link 1)"
      and gcl: "synthesize_gcl demands cycle link = Some (Inl (ClassInfeasible c t a))"
    have "\<not> (sum_list ns \<le> ?cn \<and> list_all2 (\<lambda>d n. 1 \<le> n \<and> window_meets d ?cn link n) demands ns)" for ns
      using bad windows_fit_full [OF cn(1)] by blast
    with gcl show ?thesis unfolding feasible by simp
  next
    fix ns
    assume least: "list_all2 (least_window ?cn link) demands ns" "?cn < sum_list ns"
      and gcl: "synthesize_gcl demands cycle link = Some (Inl (Oversubscribed (sat_mul (sum_list ns) 1000) cycle))"
    have "sum_list ns \<le> sum_list ms" if "list_all2 (\<lambda>d n. 1 \<le> n \<and> window_meets d ?cn link n) demands ms" for ms
      using least_windows_sum [OF least(1) that] .
    with gcl least(2) show ?thesis unfolding feasible by (auto simp: not_le intro: less_le_trans)
  next
    fix ns
    assume least: "list_all2 (least_window ?cn link) demands ns" "sum_list ns \<le> ?cn"
      and gcl: "synthesize_gcl demands cycle link
         = Some (Inr \<lparr>windows = map window_of (gcl_entries demands ns ?cn), cycle_ps = cycle\<rparr>)"
    have "list_all2 (\<lambda>d n. 1 \<le> n \<and> window_meets d ?cn link n) demands ns"
      using least(1) by (rule list.rel_mono_strong) (simp add: least_window_def)
    with gcl least(2) show ?thesis unfolding feasible by auto
  qed
qed

theorem synthesize_gcl_complete_witness:
  "\<exists>n. n \<le> 1000000 \<and> 1 \<le> n \<and> class_ok demo_demand n 1000000 1000000000 = Some True"
proof -
  from demo_gcl synthesize_gcl_complete [OF demo_input, of 1000000000] obtain ns where
    "sum_list ns \<le> 1000000000 div 1000"
    "list_all2 (\<lambda>d n. 1 \<le> n \<and> class_ok d n (1000000000 div 1000) 1000000000 = Some True) [demo_demand] ns"
    by blast
  then show ?thesis by (auto simp: list_all2_Cons1)
qed

text \<open>C31. Window splitting returns the smallest feasible split: the round of the least factor up to the
  cap that divides the cycle into whole nanoseconds and for which single windows fit, repeated across
  the cycle. Otherwise the port is oversubscribed at every factor or a class is infeasible even with
  the whole cycle; the re-check of the repeated round never fails.\<close>

theorem synthesize_gcl_split_smallest:
  assumes "synth_input demands cycle"
  shows "case synthesize_gcl_split demands cycle link kmax of
      Some (Inr s) \<Rightarrow> \<exists>k r. 1 \<le> k \<and> k \<le> max kmax 1 \<and> k * 1000 dvd cycle
        \<and> synthesize_gcl demands (cycle div k) link = Some (Inr r) \<and> s = repeat_round r k
        \<and> (\<forall>j. 1 \<le> j \<and> j < k \<longrightarrow> \<not> feasible_split demands cycle link j)
    | Some (Inl (Oversubscribed _ _)) \<Rightarrow> \<forall>k. 1 \<le> k \<and> k \<le> max kmax 1 \<longrightarrow> \<not> feasible_split demands cycle link k
    | Some (Inl (ClassInfeasible _ _ _)) \<Rightarrow>
        \<exists>d \<in> set demands. class_ok d (cycle div 1000) (cycle div 1000) link = Some False
    | _ \<Rightarrow> False"
proof -
  have split: "synthesize_gcl_split demands cycle link kmax
      = split_loop demands cycle link (max kmax 1) 1 (Oversubscribed 0 cycle)"
    using assms by (auto simp: synthesize_gcl_split_def synth_input_def)
  show ?thesis
  proof (cases "\<forall>d \<in> set demands. window_meets d 1 link 1")
    case True
    from split_loop_outcome [OF assms zero_less_one True, of "max kmax 1" 0 cycle] show ?thesis
    proof (elim disjE exE conjE)
      fix k r
      assume "1 \<le> k" "k \<le> max kmax 1" "feasible_split demands cycle link k"
        "\<forall>j. 1 \<le> j \<and> j < k \<longrightarrow> \<not> feasible_split demands cycle link j"
        "synthesize_gcl demands (cycle div k) link = Some (Inr r)"
        and run: "split_loop demands cycle link (max kmax 1) 1 (Oversubscribed 0 cycle) = Some (Inr (repeat_round r k))"
      moreover from this(3) have "k * 1000 dvd cycle" by (simp add: feasible_split_def)
      ultimately show ?thesis unfolding split run option.case sum.case by blast
    next
      fix a b
      assume "\<forall>j. 1 \<le> j \<and> j \<le> max kmax 1 \<longrightarrow> \<not> feasible_split demands cycle link j"
        and run: "split_loop demands cycle link (max kmax 1) 1 (Oversubscribed 0 cycle) = Some (Inl (Oversubscribed a b))"
      then show ?thesis unfolding split run option.case sum.case gcl_synth_error.case by blast
    qed
  next
    case False
    let ?cn = "cycle div 1000"
    have cn: "0 < ?cn" "?cn * 1000 < 2 ^ 63" "classes_ok demands" using assms by (auto simp: synth_input_def)
    from False obtain d where d: "d \<in> set demands" "\<not> window_meets d 1 link 1" by blast
    then have "class_ok d ?cn ?cn link = Some False"
      using class_ok_eq [of d ?cn ?cn link] window_meets_full [OF cn(1), of 1 d link] cn by (simp add: classes_ok_def)
    moreover obtain c t a where "synthesize_gcl demands cycle link = Some (Inl (ClassInfeasible c t a))"
      by (rule synthesize_gcl_cases [OF assms, of link]) (use False in blast)+
    moreover have "cycle mod sat_mul 1 1000 = 0"
      using assms by (simp add: synth_input_def sat_mul_min u64_max_def)
    ultimately show ?thesis using d(1) unfolding split by (subst split_loop.simps) auto
  qed
qed

theorem synthesize_gcl_split_smallest_witness:
  "synthesize_gcl_split [demo_demand] 1000000000 1000000000 4 \<noteq> None"
  using synthesize_gcl_split_smallest [OF demo_input, of 1000000000 4] by (auto split: option.splits)

text \<open>C33. A guard band of zero costs nothing: the guarded splitter then behaves exactly as the splitter
  without guards, errors included.\<close>

theorem guarded_zero_is_split:
  assumes "synth_input demands cycle"
  shows "synthesize_gcl_split_guarded demands cycle link kmax 0 = synthesize_gcl_split demands cycle link kmax"
proof -
  have "guarded_loop demands cycle link 0 (max kmax 1) 1 u64_max None
      = split_loop demands cycle link (max kmax 1) 1 (Oversubscribed 0 cycle)"
    by (rule guarded_loop_0 [OF assms]) simp_all
  then show ?thesis
    using assms
    by (simp add: synthesize_gcl_split_def synthesize_gcl_split_guarded_def synth_input_def sat_mul_min)
qed

theorem guarded_zero_is_split_witness:
  "synthesize_gcl_split_guarded [demo_demand] 1000000000 1000000000 4 0
    = synthesize_gcl_split [demo_demand] 1000000000 1000000000 4"
  by (rule guarded_zero_is_split [OF demo_input])

end
