(* ===== verification/Net_Graph.thy ===== *)
theory Net_Graph
  imports Rust_Strings
begin

text \<open>
  The network graph, \<^verbatim>\<open>crates/spar-network/src/types.rs\<close>: nodes, links, switch types and the
  depth-first search \<^verbatim>\<open>NetworkGraph::reachable_from\<close>. A \<^verbatim>\<open>ComponentInstanceIdx\<close> is an
  arena index, a natural number. The search keeps the source's two vectors: \<open>visited\<close> grows at
  its end, \<open>stack\<close> has its top first. It is total by a lexicographic measure, the component
  indices not visited yet and the height of the stack.
\<close>

section \<open>Types\<close>

type_synonym component_idx = nat

datatype switch_type = Fifo | Priority | Tsn

datatype node_kind = Switch (switch_type: switch_type) | EndStation

record network_node =
  node_idx :: component_idx
  kind :: node_kind
  node_name :: string

record network_link =
  link_from :: component_idx
  link_to :: component_idx
  bus_idx :: component_idx
  bandwidth_bps :: "u64 option"
  forwarding_latency_ps :: "(u64 \<times> u64) option"
  queue_depth :: "u64 option"

record network_graph =
  nodes :: "network_node list"
  links :: "network_link list"

definition from_aadl_enum :: "string \<Rightarrow> switch_type option" where
  "from_aadl_enum s =
     (let lower = to_ascii_lowercase (trim s)
      in if lower = ''fifo'' then Some Fifo
         else if lower = ''priority'' then Some Priority
         else if lower = ''tsn'' then Some Tsn
         else None)"

section \<open>Queries\<close>

definition is_switch :: "network_node \<Rightarrow> bool" where
  "is_switch n = (case kind n of Switch _ \<Rightarrow> True | EndStation \<Rightarrow> False)"

definition switches :: "network_graph \<Rightarrow> network_node list" where
  "switches g = filter is_switch (nodes g)"

definition end_stations :: "network_graph \<Rightarrow> network_node list" where
  "end_stations g = filter (\<lambda>n. kind n = EndStation) (nodes g)"

definition node :: "network_graph \<Rightarrow> component_idx \<Rightarrow> network_node option" where
  "node g i = find (\<lambda>n. node_idx n = i) (nodes g)"

text \<open>The far end of a link seen from \<open>current\<close>, and the candidates one visit pushes, in link order.\<close>

definition link_next :: "component_idx \<Rightarrow> network_link \<Rightarrow> component_idx option" where
  "link_next current l =
     (if link_from l = current then Some (link_to l)
      else if link_to l = current then Some (link_from l)
      else None)"

definition pushes :: "network_graph \<Rightarrow> component_idx list \<Rightarrow> component_idx \<Rightarrow> component_idx list" where
  "pushes g visited current = filter (\<lambda>n. n \<notin> set visited) (List.map_filter (link_next current) (links g))"

function search :: "network_graph \<Rightarrow> component_idx list \<Rightarrow> component_idx list \<Rightarrow> component_idx list" where
  "search g visited [] = visited"
| "search g visited (current # stack) =
     (if current \<in> set visited then search g visited stack
      else let visited' = visited @ [current]
           in search g visited' (rev (pushes g visited' current) @ stack))"
  by pat_completeness auto

definition reachable_from :: "network_graph \<Rightarrow> component_idx \<Rightarrow> component_idx list" where
  "reachable_from g start = (if node g start = None then [] else search g [] [start])"


section \<open>Termination\<close>

definition link_ends :: "network_graph \<Rightarrow> component_idx set" where
  "link_ends g = link_from ` set (links g) \<union> link_to ` set (links g)"

lemma finite_link_ends [simp]: "finite (link_ends g)"
  by (simp add: link_ends_def)

lemma pushes_iff:
  "n \<in> set (pushes g visited current) \<longleftrightarrow> n \<notin> set visited \<and> (\<exists>l \<in> set (links g). link_next current l = Some n)"
  by (force simp: pushes_def List.map_filter_def)

lemma pushes_ends: "set (pushes g visited current) \<subseteq> link_ends g"
  by (auto simp: pushes_iff link_next_def link_ends_def split: if_splits)

termination search
proof (relation "measures [\<lambda>(g, visited, stack). card ((link_ends g \<union> set stack) - set visited),
                           \<lambda>(g, visited, stack). length stack]", goal_cases)
  case (2 g visited current stack)
  then show ?case by (simp add: insert_absorb insert_Diff_if)
next
  case (3 g visited current stack visited')
  then have "(link_ends g \<union> set (rev (pushes g visited' current) @ stack)) - set visited'
      \<subset> (link_ends g \<union> set (current # stack)) - set visited"
    using pushes_ends [of g visited' current] by auto
  then show ?case by (simp add: psubset_card_mono)
qed simp


section \<open>The undirected graph\<close>

text \<open>Two components are adjacent when a link joins them, in either direction.\<close>

inductive adjacent :: "network_graph \<Rightarrow> component_idx \<Rightarrow> component_idx \<Rightarrow> bool" for g where
  forwards: "l \<in> set (links g) \<Longrightarrow> adjacent g (link_from l) (link_to l)"
| backwards: "l \<in> set (links g) \<Longrightarrow> adjacent g (link_to l) (link_from l)"

lemma adjacent_sym: "adjacent g a b \<Longrightarrow> adjacent g b a"
  by (auto elim!: adjacent.cases intro: adjacent.intros)

lemma reaches_sym: "(adjacent g)\<^sup>*\<^sup>* a b \<Longrightarrow> (adjacent g)\<^sup>*\<^sup>* b a"
  by (induction rule: rtranclp_induct) (auto intro: adjacent_sym converse_rtranclp_into_rtranclp)

lemma link_next_adjacent:
  "(\<exists>l \<in> set (links g). link_next current l = Some n) \<longleftrightarrow> adjacent g current n"
proof
  assume "\<exists>l \<in> set (links g). link_next current l = Some n"
  then show "adjacent g current n" by (metis adjacent.intros link_next_def option.inject option.distinct(1))
next
  assume "adjacent g current n"
  then show "\<exists>l \<in> set (links g). link_next current l = Some n"
    by (cases; intro bexI) (auto simp: link_next_def)
qed

lemma pushes_adjacent:
  "set (pushes g visited current) = {n. adjacent g current n \<and> n \<notin> set visited}"
  using link_next_adjacent [of g current] by (auto simp: pushes_iff)


section \<open>The search\<close>

text \<open>What the loop keeps: everything known is reachable, and a visited component has its neighbours
  visited or on the stack.\<close>

definition search_inv :: "network_graph \<Rightarrow> component_idx \<Rightarrow> component_idx list \<Rightarrow> component_idx list \<Rightarrow> bool" where
  "search_inv g start visited stack \<longleftrightarrow>
     distinct visited \<and> start \<in> set visited \<union> set stack
     \<and> (\<forall>v \<in> set visited \<union> set stack. (adjacent g)\<^sup>*\<^sup>* start v)
     \<and> (\<forall>v \<in> set visited. \<forall>n. adjacent g v n \<longrightarrow> n \<in> set visited \<union> set stack)"

lemma search_inv_skip:
  "search_inv g start visited (current # stack) \<Longrightarrow> current \<in> set visited \<Longrightarrow> search_inv g start visited stack"
  by (auto simp: search_inv_def)

lemma search_inv_visit:
  assumes "search_inv g start visited (current # stack)" "current \<notin> set visited"
  shows "search_inv g start (visited @ [current]) (rev (pushes g (visited @ [current]) current) @ stack)"
proof -
  have "(adjacent g)\<^sup>*\<^sup>* start current" using assms(1) by (simp add: search_inv_def)
  then have "(adjacent g)\<^sup>*\<^sup>* start n" if "adjacent g current n" for n using that by simp
  then show ?thesis using assms by (auto simp: search_inv_def pushes_adjacent)
qed

lemma search_inv_closed:
  assumes "search_inv g start visited []"
  shows "set visited = {v. (adjacent g)\<^sup>*\<^sup>* start v}"
proof
  show "set visited \<subseteq> {v. (adjacent g)\<^sup>*\<^sup>* start v}" using assms by (auto simp: search_inv_def)
  have "v \<in> set visited" if "(adjacent g)\<^sup>*\<^sup>* start v" for v
    using that assms by (induction rule: rtranclp_induct) (auto simp: search_inv_def)
  then show "{v. (adjacent g)\<^sup>*\<^sup>* start v} \<subseteq> set visited" by auto
qed

lemma search_result:
  "search_inv g start visited stack \<Longrightarrow>
     distinct (search g visited stack) \<and> set (search g visited stack) = {v. (adjacent g)\<^sup>*\<^sup>* start v}"
proof (induction g visited stack rule: search.induct)
  case (1 g visited)
  have "distinct visited" using 1 unfolding search_inv_def by blast
  then show ?case using search_inv_closed [OF 1] by (simp only: search.simps)
next
  case (2 g visited current stack)
  show ?case
  proof (cases "current \<in> set visited")
    case True
    have "distinct (search g visited stack) \<and> set (search g visited stack) = {v. (adjacent g)\<^sup>*\<^sup>* start v}"
      by (rule 2(1) [OF True search_inv_skip [OF 2(3) True]])
    with True show ?thesis by (simp only: search.simps if_True)
  next
    case False
    note 2(2) [OF False refl search_inv_visit [OF 2(3) False]]
    with False show ?thesis by (simp only: search.simps if_False Let_def)
  qed
qed

lemma search_extends: "prefix visited (search g visited stack)"
  by (induction g visited stack rule: search.induct) (auto simp: Let_def dest: append_prefixD)

text \<open>C22. \<^verbatim>\<open>reachable_from\<close> always ends and returns, each once and the start first, exactly the
  components joined to the start by links taken in either direction; for a start that is no node of
  the graph it returns nothing.\<close>

theorem reachable_from_exact:
  "if node g start = None then reachable_from g start = []
   else distinct (reachable_from g start) \<and> hd (reachable_from g start) = start
     \<and> set (reachable_from g start) = {v. (adjacent g)\<^sup>*\<^sup>* start v}"
proof (cases "node g start = None")
  case False
  have "prefix [start] (search g [] [start])"
    using search_extends [of "[start]"] by (simp add: Let_def)
  then have "hd (search g [] [start]) = start" by (metis append_Cons list.sel(1) prefix_def)
  moreover have "search_inv g start [] [start]" by (simp add: search_inv_def)
  ultimately show ?thesis
    using False search_result [of g start "[]" "[start]"] by (auto simp: reachable_from_def simp del: search.simps)
qed (simp add: reachable_from_def)

text \<open>A network of two switches and one end station cut off from them.\<close>

definition demo_link :: "component_idx \<Rightarrow> component_idx \<Rightarrow> network_link" where
  "demo_link a b = \<lparr>link_from = a, link_to = b, bus_idx = a, bandwidth_bps = Some 1000000000,
     forwarding_latency_ps = None, queue_depth = None\<rparr>"

definition demo_graph :: network_graph where
  "demo_graph = \<lparr>nodes = [\<lparr>node_idx = 4, kind = Switch Tsn, node_name = ''core''\<rparr>,
                          \<lparr>node_idx = 7, kind = Switch Fifo, node_name = ''edge''\<rparr>,
                          \<lparr>node_idx = 2, kind = EndStation, node_name = ''ecu''\<rparr>],
                 links = [demo_link 7 4, demo_link 4 9]\<rparr>"

lemma demo_reachable: "reachable_from demo_graph 5 = []" "reachable_from demo_graph 4 = [4, 9, 7]"
  by (simp_all add: demo_graph_def demo_link_def reachable_from_def node_def pushes_def link_next_def
      List.map_filter_def Let_def)

text \<open>Mutual reachability: two nodes see each other or not at all, and nodes that see each other see the
  same components.\<close>

lemma reachable_from_mutual:
  assumes "b \<in> set (reachable_from g a)" "node g b \<noteq> None"
  shows "set (reachable_from g b) = set (reachable_from g a)"
proof -
  have "search_inv g a [] [a]" "search_inv g b [] [b]" by (simp_all add: search_inv_def)
  note r = this [THEN search_result]
  have a: "node g a \<noteq> None" using assms(1) by (auto simp: reachable_from_def split: if_splits)
  with assms(1) r have "(adjacent g)\<^sup>*\<^sup>* a b" by (auto simp: reachable_from_def simp del: search.simps)
  then have "(adjacent g)\<^sup>*\<^sup>* a v \<longleftrightarrow> (adjacent g)\<^sup>*\<^sup>* b v" for v
    using reaches_sym rtranclp_trans by metis
  then show ?thesis using a assms(2) r by (auto simp: reachable_from_def simp del: search.simps)
qed

text \<open>Every node is a switch or an end station.\<close>

lemma nodes_partition: "set (switches g) \<union> set (end_stations g) = set (nodes g)"
    "set (switches g) \<inter> set (end_stations g) = {}"
  by (auto simp: switches_def end_stations_def is_switch_def split: node_kind.splits)
    (metis node_kind.exhaust)

end
