(* ===== verification/Rta_Core.thy ===== *)
theory Rta_Core
  imports Spar_Prelude
begin

text \<open>
  The response-time recurrences, \<^verbatim>\<open>crates/spar-analysis/src/scheduling_verified.rs\<close>: the
  classical recurrence, its extension with release jitter and interrupt interference, and the
  extension with a blocking term, each with the bounded fixed-point driver that runs it.

  A zero period makes \<^verbatim>\<open>div_ceil\<close> panic; that is the value \<open>None\<close>. The three drivers share the
  text of their loop, which is \<open>rta_loop\<close> here with the recurrence as its argument and the number
  of iterations of \<^verbatim>\<open>for _ in 0..=deadline\<close> as fuel.

  The locale \<open>monotone_recurrence\<close> is the contract between a recurrence and the loop: a monotone
  function above its starting point. Under it the loop finds the least fixed point or shows
  that there is none up to the deadline. It is interpreted for the three saturating recurrences;
  the last section relates those to the unbounded recurrences of the literature.
\<close>

section \<open>Interference terms\<close>

definition ceil_div :: "u64 \<Rightarrow> u64 \<Rightarrow> u64 option" where
  "ceil_div a b = (if b = 0 then None else Some (div_ceil a b))"

definition interference :: "u64 \<Rightarrow> u64 \<Rightarrow> u64 \<Rightarrow> u64 option" where
  "interference period exec r = do { n \<leftarrow> ceil_div r period; Some (sat_mul n exec) }"

fun total_interference_loop :: "u64 \<Rightarrow> (u64 \<times> u64) list \<Rightarrow> u64 \<Rightarrow> u64 option" where
  "total_interference_loop acc [] r = Some acc"
| "total_interference_loop acc ((period, exec) # hps) r = do {
     i \<leftarrow> interference period exec r;
     total_interference_loop (sat_add acc i) hps r }"

definition total_interference :: "(u64 \<times> u64) list \<Rightarrow> u64 \<Rightarrow> u64 option" where
  "total_interference higher_priority r = total_interference_loop 0 higher_priority r"

definition rta_step :: "u64 \<Rightarrow> (u64 \<times> u64) list \<Rightarrow> u64 \<Rightarrow> u64 option" where
  "rta_step exec higher_priority r = do {
     hp \<leftarrow> total_interference higher_priority r;
     Some (sat_add exec hp) }"

definition interference_jittered :: "u64 \<Rightarrow> u64 \<Rightarrow> u64 \<Rightarrow> u64 \<Rightarrow> u64 option" where
  "interference_jittered period exec jitter r = do {
     n \<leftarrow> ceil_div (sat_add r jitter) period;
     Some (sat_mul n exec) }"

fun total_interference_jittered_loop ::
    "u64 \<Rightarrow> (u64 \<times> u64 \<times> u64) list \<Rightarrow> u64 \<Rightarrow> u64 option" where
  "total_interference_jittered_loop acc [] r = Some acc"
| "total_interference_jittered_loop acc ((period, exec, jitter) # hps) r = do {
     i \<leftarrow> interference_jittered period exec jitter r;
     total_interference_jittered_loop (sat_add acc i) hps r }"

definition total_interference_jittered :: "(u64 \<times> u64 \<times> u64) list \<Rightarrow> u64 \<Rightarrow> u64 option" where
  "total_interference_jittered hps r = total_interference_jittered_loop 0 hps r"

definition total_isr_interference :: "(u64 \<times> u64) list \<Rightarrow> u64 \<Rightarrow> u64 option" where
  "total_isr_interference isrs r = total_interference isrs r"

definition rta_step_jittered ::
    "u64 \<Rightarrow> u64 \<Rightarrow> (u64 \<times> u64 \<times> u64) list \<Rightarrow> (u64 \<times> u64) list \<Rightarrow> u64 \<Rightarrow> u64 option" where
  "rta_step_jittered exec jitter hps isrs r = do {
     hp \<leftarrow> total_interference_jittered hps r;
     isr \<leftarrow> total_isr_interference isrs r;
     Some (sat_add (sat_add (sat_add exec jitter) hp) isr) }"

definition rta_step_jittered_blocking ::
    "u64 \<Rightarrow> u64 \<Rightarrow> u64 \<Rightarrow> (u64 \<times> u64 \<times> u64) list \<Rightarrow> (u64 \<times> u64) list \<Rightarrow> u64 \<Rightarrow> u64 option" where
  "rta_step_jittered_blocking exec jitter blocking hps isrs r = do {
     s \<leftarrow> rta_step_jittered exec jitter hps isrs r;
     Some (sat_add s blocking) }"


section \<open>The fixed-point drivers\<close>

datatype rta_result = Converged u64 | Diverged

fun rta_loop :: "(u64 \<Rightarrow> u64 option) \<Rightarrow> u64 \<Rightarrow> nat \<Rightarrow> u64 \<Rightarrow> rta_result option" where
  "rta_loop step deadline 0 r = Some Diverged"
| "rta_loop step deadline (Suc n) r = do {
     new_r \<leftarrow> step r;
     (if new_r = r then Some (Converged r)
      else if new_r > deadline then Some Diverged
      else rta_loop step deadline n new_r) }"

definition compute_response_time :: "u64 \<Rightarrow> u64 \<Rightarrow> (u64 \<times> u64) list \<Rightarrow> rta_result option" where
  "compute_response_time exec deadline hps = rta_loop (rta_step exec hps) deadline (deadline + 1) exec"

definition compute_response_time_jittered ::
    "u64 \<Rightarrow> u64 \<Rightarrow> u64 \<Rightarrow> (u64 \<times> u64 \<times> u64) list \<Rightarrow> (u64 \<times> u64) list \<Rightarrow> rta_result option" where
  "compute_response_time_jittered exec deadline jitter hps isrs =
     (let r = sat_add exec jitter
      in if r > deadline then Some Diverged
         else rta_loop (rta_step_jittered exec jitter hps isrs) deadline (deadline + 1) r)"

definition compute_response_time_jittered_blocking ::
    "u64 \<Rightarrow> u64 \<Rightarrow> u64 \<Rightarrow> u64 \<Rightarrow> (u64 \<times> u64 \<times> u64) list \<Rightarrow> (u64 \<times> u64) list \<Rightarrow> rta_result option" where
  "compute_response_time_jittered_blocking exec deadline jitter blocking hps isrs =
     (let r = sat_add (sat_add exec jitter) blocking
      in if r > deadline then Some Diverged
         else rta_loop (rta_step_jittered_blocking exec jitter blocking hps isrs) deadline (deadline + 1) r)"

text \<open>One iteration at a numeral amount of fuel, for evaluation.\<close>

lemma rta_loop_unfold:
  "rta_loop step d n r =
     (if n = 0 then Some Diverged
      else do {
        new_r \<leftarrow> step r;
        (if new_r = r then Some (Converged r)
         else if new_r > d then Some Diverged
         else rta_loop step d (n - 1) new_r) })"
  by (cases n) (simp_all split: bind_splits)


section \<open>The contract of a recurrence\<close>

locale monotone_recurrence =
  fixes f :: "u64 \<Rightarrow> u64" and start :: u64
  assumes f_mono: "a \<le> b \<Longrightarrow> f a \<le> f b"
    and f_start: "start \<le> f start"
begin

abbreviation loop :: "u64 \<Rightarrow> nat \<Rightarrow> u64 \<Rightarrow> rta_result option" where
  "loop \<equiv> rta_loop (\<lambda>r. Some (f r))"

lemma loop_total: "\<exists>res. loop d n r = Some res"
  by (induction n arbitrary: r) auto

text \<open>Every pre-fixed point above the current iterate stays above, so what the loop returns is the
  least one.\<close>

lemma loop_Converged:
  "loop d n r = Some (Converged x) \<Longrightarrow> f x = x \<and> (\<forall>y. r \<le> y \<and> f y \<le> y \<longrightarrow> x \<le> y)"
proof (induction n arbitrary: r)
  case (Suc n)
  show ?case
  proof (cases "f r = r")
    case False
    with Suc.prems have "loop d n (f r) = Some (Converged x)" by (simp split: if_splits)
    from Suc.IH [OF this] show ?thesis by (meson f_mono order_trans)
  qed (use Suc.prems in auto)
qed simp

lemma loop_Converged_ge:
  "loop d n r = Some (Converged x) \<Longrightarrow> r \<le> f r \<Longrightarrow> r \<le> x"
proof (induction n arbitrary: r)
  case (Suc n)
  show ?case
  proof (cases "f r = r")
    case False
    with Suc.prems have "loop d n (f r) = Some (Converged x)" by (simp split: if_splits)
    with Suc.IH [of "f r"] Suc.prems(2) f_mono show ?thesis by (meson order_trans)
  qed (use Suc.prems in auto)
qed simp

lemma loop_Converged_le:
  "loop d n r = Some (Converged x) \<Longrightarrow> r \<le> d \<Longrightarrow> x \<le> d"
  by (induction n arbitrary: r) (auto split: if_splits)

text \<open>The iterates rise strictly until they settle, so the loop's fuel is enough for every
  pre-fixed point up to the deadline.\<close>

lemma loop_finds:
  "r \<le> f r \<Longrightarrow> r \<le> y \<Longrightarrow> f y \<le> y \<Longrightarrow> y \<le> d \<Longrightarrow> y - r < n \<Longrightarrow>
     \<exists>x. loop d n r = Some (Converged x)"
proof (induction n arbitrary: r)
  case (Suc n)
  show ?case
  proof (cases "f r = r")
    case False
    with Suc.prems have "r < f r" by simp
    from Suc.prems f_mono have "f r \<le> y" by (meson order_trans)
    with Suc.prems \<open>r < f r\<close> have "\<exists>x. loop d n (f r) = Some (Converged x)"
      by (intro Suc.IH) (auto intro: f_mono)
    with False \<open>f r \<le> y\<close> Suc.prems show ?thesis by auto
  qed auto
qed simp

lemma loop_correct:
  assumes "start \<le> d" and above: "\<And>y. f y \<le> y \<Longrightarrow> start \<le> y"
  shows "loop d (d + 1) start = Some (Converged x) \<longleftrightarrow> x \<le> d \<and> f x = x \<and> (\<forall>y. f y = y \<longrightarrow> x \<le> y)"
    and "loop d (d + 1) start = Some Diverged \<longleftrightarrow> \<not> (\<exists>y \<le> d. f y = y)"
proof -
  have conv: "x \<le> d \<and> f x = x \<and> (\<forall>y. f y = y \<longrightarrow> x \<le> y)" if "loop d (d + 1) start = Some (Converged x)" for x
    using loop_Converged [OF that] loop_Converged_le [OF that assms(1)] above by auto
  have some: "\<exists>x. loop d (d + 1) start = Some (Converged x)" if "y \<le> d" "f y = y" for y
    using that above [of y] by (intro loop_finds [OF f_start, of y]) auto
  show "loop d (d + 1) start = Some (Converged x) \<longleftrightarrow> x \<le> d \<and> f x = x \<and> (\<forall>y. f y = y \<longrightarrow> x \<le> y)"
    using conv some by (metis le_antisym)
  show "loop d (d + 1) start = Some Diverged \<longleftrightarrow> \<not> (\<exists>y \<le> d. f y = y)"
    using conv some loop_total [of d "d + 1" start]
    by (metis option.inject rta_result.distinct(1) rta_result.exhaust)
qed

end


declare rta_loop.simps(2) [simp del]

section \<open>The recurrences as functions\<close>

text \<open>Where no period is zero, a recurrence is a total function of \<open>r\<close>: the saturated sum.\<close>

definition sat_interference :: "u64 \<times> u64 \<times> u64 \<Rightarrow> u64 \<Rightarrow> u64" where
  "sat_interference = (\<lambda>(p, c, j) r. sat_mul (div_ceil (sat_add r j) p) c)"

definition sat_isr :: "u64 \<times> u64 \<Rightarrow> u64 \<Rightarrow> u64" where
  "sat_isr = (\<lambda>(p, c) r. sat_mul (div_ceil r p) c)"

definition sat_step :: "u64 \<Rightarrow> (u64 \<times> u64 \<times> u64) list \<Rightarrow> (u64 \<times> u64) list \<Rightarrow> u64 \<Rightarrow> u64" where
  "sat_step base hps isrs r =
     min (base + (\<Sum>h\<leftarrow>hps. sat_interference h r) + (\<Sum>i\<leftarrow>isrs. sat_isr i r)) u64_max"

definition periods_pos :: "(u64 \<times> u64 \<times> u64) list \<Rightarrow> (u64 \<times> u64) list \<Rightarrow> bool" where
  "periods_pos hps isrs \<longleftrightarrow> (\<forall>(p, _, _) \<in> set hps. 0 < p) \<and> (\<forall>(p, _) \<in> set isrs. 0 < p)"

lemma total_interference_loop_eq:
  "total_interference_loop a isrs r =
     (if \<exists>(p, _) \<in> set isrs. p = 0 then None
      else Some (fold (\<lambda>x acc. sat_add acc (sat_isr x r)) isrs a))"
  by (induction a isrs r rule: total_interference_loop.induct)
    (auto simp: interference_def ceil_div_def sat_isr_def)

lemma total_interference_jittered_loop_eq:
  "total_interference_jittered_loop a hps r =
     (if \<exists>(p, _, _) \<in> set hps. p = 0 then None
      else Some (fold (\<lambda>x acc. sat_add acc (sat_interference x r)) hps a))"
  by (induction a hps r rule: total_interference_jittered_loop.induct)
    (auto simp: interference_jittered_def ceil_div_def sat_interference_def)

lemma total_interference_eq:
  "total_interference isrs r =
     (if \<exists>(p, _) \<in> set isrs. p = 0 then None else Some (min (\<Sum>i\<leftarrow>isrs. sat_isr i r) u64_max))"
  by (simp add: total_interference_def total_interference_loop_eq fold_sat_add)

lemma total_interference_jittered_eq:
  "total_interference_jittered hps r =
     (if \<exists>(p, _, _) \<in> set hps. p = 0 then None
      else Some (min (\<Sum>h\<leftarrow>hps. sat_interference h r) u64_max))"
  by (simp add: total_interference_jittered_def total_interference_jittered_loop_eq fold_sat_add)

lemmas step_eqs = total_isr_interference_def total_interference_eq total_interference_jittered_eq
  periods_pos_def sat_step_def sat_add_min

lemma rta_step_eq:
  "rta_step exec hps r = (if periods_pos [] hps then Some (sat_step exec [] hps r) else None)"
  unfolding rta_step_def step_eqs by (auto simp: min_def)

lemma rta_step_jittered_eq:
  "rta_step_jittered exec jitter hps isrs r =
     (if periods_pos hps isrs then Some (sat_step (exec + jitter) hps isrs r) else None)"
  unfolding rta_step_jittered_def step_eqs by (auto simp: min_def)

lemma rta_step_jittered_blocking_eq:
  "rta_step_jittered_blocking exec jitter blocking hps isrs r =
     (if periods_pos hps isrs then Some (sat_step (exec + jitter + blocking) hps isrs r) else None)"
  unfolding rta_step_jittered_blocking_def rta_step_jittered_eq
  by (auto simp: sat_step_def sat_add_min min_def)

lemma sat_interference_mono: "r \<le> r' \<Longrightarrow> sat_interference h r \<le> sat_interference h r'"
  by (cases h) (auto simp: sat_interference_def intro!: nc_mono)

lemma sat_isr_mono: "r \<le> r' \<Longrightarrow> sat_isr h r \<le> sat_isr h r'"
  by (cases h) (auto simp: sat_isr_def intro!: nc_mono)

lemma sat_step_mono: "r \<le> r' \<Longrightarrow> sat_step base hps isrs r \<le> sat_step base hps isrs r'"
  unfolding sat_step_def
  by (intro min.mono add_mono sum_list_mono order_refl sat_interference_mono sat_isr_mono)

lemma sat_step_ge: "min base u64_max \<le> sat_step base hps isrs r"
  by (simp add: sat_step_def min_def)

text \<open>The recurrences meet the contract of the loop.\<close>

interpretation sat_rec: monotone_recurrence "sat_step base hps isrs" "min base u64_max"
  for base hps isrs
  by unfold_locales (auto intro: sat_step_mono sat_step_ge)


section \<open>The recurrences of the literature\<close>

text \<open>The unbounded recurrence \<open>R = B + \<Sum> \<lceil>(R + J\<^sub>j) / T\<^sub>j\<rceil> C\<^sub>j + \<Sum> \<lceil>R / T\<^sub>k\<rceil> C\<^sub>k\<close>.\<close>

definition exact_step :: "nat \<Rightarrow> (nat \<times> nat \<times> nat) list \<Rightarrow> (nat \<times> nat) list \<Rightarrow> nat \<Rightarrow> nat" where
  "exact_step base hps isrs r =
     base + (\<Sum>(p, c, j)\<leftarrow>hps. div_ceil (r + j) p * c) + (\<Sum>(p, c)\<leftarrow>isrs. div_ceil r p * c)"

definition jitters_fit :: "u64 \<Rightarrow> (u64 \<times> u64 \<times> u64) list \<Rightarrow> bool" where
  "jitters_fit deadline hps \<longleftrightarrow> (\<forall>(_, _, j) \<in> set hps. deadline + j \<le> u64_max)"

lemma sat_step_exact:
  assumes "jitters_fit d hps" "r \<le> d"
  shows "sat_step base hps isrs r = min (exact_step base hps isrs r) u64_max"
proof -
  let ?h = "\<lambda>(p, c, j). div_ceil (r + j) p * c" and ?i = "\<lambda>(p, c). div_ceil r p * c"
  have "map (\<lambda>h. sat_interference h r) hps = map (\<lambda>h. min (?h h) u64_max) hps"
    using assms by (fastforce simp: sat_interference_def jitters_fit_def sat_mul_min sat_add_exact)
  moreover have "map (\<lambda>i. sat_isr i r) isrs = map (\<lambda>i. min (?i i) u64_max) isrs"
    by (auto simp: sat_isr_def sat_mul_min)
  ultimately show ?thesis
    unfolding sat_step_def exact_step_def by (simp only: min_sum_list_min2)
qed

lemma exact_step_ge: "base \<le> exact_step base hps isrs r"
  by (simp add: exact_step_def)

lemma fixpoint_exact_iff:
  assumes "jitters_fit d hps" "y \<le> d" "d < u64_max"
  shows "sat_step base hps isrs y = y \<longleftrightarrow> exact_step base hps isrs y = y"
  using assms by (auto simp: sat_step_exact min_def)

lemma rta_loop_cong:
  "(\<And>r. r \<le> d \<Longrightarrow> step r = step' r) \<Longrightarrow> r \<le> d \<Longrightarrow> rta_loop step d n r = rta_loop step' d n r"
  by (induction n arbitrary: r) (auto simp: rta_loop.simps(2) split: bind_splits)

lemma rta_loop_None [simp]: "rta_loop (\<lambda>r. None) d (Suc n) r = None"
  by (simp add: rta_loop.simps(2))

lemma blocking_driver_eq:
  "compute_response_time_jittered_blocking exec d jitter blocking hps isrs =
     (if min (exec + jitter + blocking) u64_max > d then Some Diverged
      else if periods_pos hps isrs
      then rta_loop (\<lambda>r. Some (sat_step (exec + jitter + blocking) hps isrs r)) d (d + 1)
             (min (exec + jitter + blocking) u64_max)
      else None)"
proof -
  have "sat_add (sat_add exec jitter) blocking = min (exec + jitter + blocking) u64_max"
    by (auto simp: sat_add_min)
  moreover have "rta_step_jittered_blocking exec jitter blocking hps isrs = (\<lambda>r.
      if periods_pos hps isrs then Some (sat_step (exec + jitter + blocking) hps isrs r) else None)"
    by (simp add: fun_eq_iff rta_step_jittered_blocking_eq)
  ultimately show ?thesis
    by (cases "periods_pos hps isrs")
      (simp_all add: compute_response_time_jittered_blocking_def Let_def)
qed


section \<open>Properties\<close>

lemma blocking_driver_fixed_point:
  assumes "periods_pos hps isrs" and "deadline < u64_max" and "jitters_fit deadline hps"
    and F: "F = exact_step (exec + jitter + blocking) hps isrs"
  shows "(compute_response_time_jittered_blocking exec deadline jitter blocking hps isrs = Some (Converged x)
            \<longleftrightarrow> x \<le> deadline \<and> F x = x \<and> (\<forall>y. F y = y \<longrightarrow> x \<le> y))
     \<and> (compute_response_time_jittered_blocking exec deadline jitter blocking hps isrs = Some Diverged
            \<longleftrightarrow> \<not> (\<exists>y \<le> deadline. F y = y))"
proof (cases "min (exec + jitter + blocking) u64_max > deadline")
  case True
  then have "\<not> F y = y" if "y \<le> deadline" for y
    using that exact_step_ge [of "exec + jitter + blocking" hps isrs y] by (auto simp: F)
  with True show ?thesis by (auto simp: blocking_driver_eq)
next
  case False
  let ?b = "exec + jitter + blocking"
  let ?f = "sat_step ?b hps isrs"
  have iff: "?f y = y \<longleftrightarrow> F y = y" if "y \<le> deadline" for y
    unfolding F using that assms by (intro fixpoint_exact_iff)
  have start: "min ?b u64_max \<le> deadline" using False by (simp only: not_less)
  have above: "min ?b u64_max \<le> y" if "?f y \<le> y" for y
    using that sat_step_ge order_trans by blast
  have run: "compute_response_time_jittered_blocking exec deadline jitter blocking hps isrs
      = rta_loop (\<lambda>r. Some (?f r)) deadline (deadline + 1) (min ?b u64_max)"
    unfolding blocking_driver_eq by (simp only: False assms(1) if_True if_False)
  have least: "(\<forall>y. g y = y \<longrightarrow> x \<le> y) \<longleftrightarrow> (\<forall>y \<le> deadline. g y = y \<longrightarrow> x \<le> y)"
    if "x \<le> deadline" for g :: "nat \<Rightarrow> nat"
    using that by (metis le_cases order_trans)
  have "rta_loop (\<lambda>r. Some (?f r)) deadline (deadline + 1) (min ?b u64_max) = Some (Converged x)
      \<longleftrightarrow> x \<le> deadline \<and> ?f x = x \<and> (\<forall>y. ?f y = y \<longrightarrow> x \<le> y)"
    by (rule sat_rec.loop_correct(1) [OF start above])
  moreover have "rta_loop (\<lambda>r. Some (?f r)) deadline (deadline + 1) (min ?b u64_max) = Some Diverged
      \<longleftrightarrow> \<not> (\<exists>y \<le> deadline. ?f y = y)"
    by (rule sat_rec.loop_correct(2) [OF start above])
  ultimately show ?thesis
    unfolding run using iff least [of ?f] least [of F] by (cases "x \<le> deadline") simp_all
qed

text \<open>C2. The driver computes the worst-case response time of the theory: with non-zero periods, a
  deadline below \<^verbatim>\<open>u64::MAX\<close> and jitters that do not overflow when added to the deadline, it
  answers \<open>Converged x\<close> exactly when \<open>x\<close> is the least fixed point of the unbounded recurrence
  and meets the deadline, and \<open>Diverged\<close> exactly when the recurrence has no fixed point up to the
  deadline. The \<open>deadline + 1\<close> iterations are always enough.\<close>

theorem response_time_least_fixed_point:
  assumes "periods_pos hps isrs" and "deadline < u64_max" and "jitters_fit deadline hps"
  shows "let F = exact_step (exec + jitter + blocking) hps isrs in
     (compute_response_time_jittered_blocking exec deadline jitter blocking hps isrs = Some (Converged x)
            \<longleftrightarrow> x \<le> deadline \<and> F x = x \<and> (\<forall>y. F y = y \<longrightarrow> x \<le> y))
     \<and> (compute_response_time_jittered_blocking exec deadline jitter blocking hps isrs = Some Diverged
            \<longleftrightarrow> \<not> (\<exists>y \<le> deadline. F y = y))"
  unfolding Let_def by (rule blocking_driver_fixed_point [OF assms refl])

theorem response_time_least_fixed_point_witness:
  "compute_response_time_jittered_blocking 3 20 0 0 [(4, 1, 0), (6, 2, 0)] [] = Some (Converged 10)
   \<and> exact_step 3 [(4, 1, 0), (6, 2, 0)] [] 10 = 10"
proof -
  have c: "compute_response_time_jittered_blocking 3 20 0 0 [(4, 1, 0), (6, 2, 0)] [] = Some (Converged 10)"
    by (simp add: compute_response_time_jittered_blocking_def rta_step_jittered_blocking_eq
        periods_pos_def sat_step_def sat_interference_def sat_mul_def sat_add_def u64_max_def div_ceil_def
        rta_loop_unfold)
  have h: "periods_pos [(4, 1, 0), (6, 2, 0)] []" "(20::nat) < u64_max"
      "jitters_fit 20 [(4, 1, 0), (6, 2, 0)]"
    by (simp_all add: periods_pos_def u64_max_def jitters_fit_def)
  from c response_time_least_fixed_point [OF h, of 3 0 0 10] show ?thesis by (simp add: Let_def)
qed

text \<open>C40. The driver returns on every input; it panics exactly when the initial window already fits
  the deadline and some higher-priority task or interrupt has period zero.\<close>

theorem response_time_panics_iff:
  "compute_response_time_jittered_blocking exec deadline jitter blocking hps isrs = None
     \<longleftrightarrow> sat_add (sat_add exec jitter) blocking \<le> deadline
         \<and> ((\<exists>(p, _, _) \<in> set hps. p = 0) \<or> (\<exists>(p, _) \<in> set isrs. p = 0))"
proof -
  have "sat_add (sat_add exec jitter) blocking = min (exec + jitter + blocking) u64_max"
    by (auto simp: sat_add_min)
  moreover have "\<not> periods_pos hps isrs
      \<longleftrightarrow> (\<exists>(p, _, _) \<in> set hps. p = 0) \<or> (\<exists>(p, _) \<in> set isrs. p = 0)"
    by (auto simp: periods_pos_def)
  ultimately show ?thesis
    using sat_rec.loop_total [of "exec + jitter + blocking" hps isrs deadline "deadline + 1"
        "min (exec + jitter + blocking) u64_max"]
    by (cases "periods_pos hps isrs") (auto simp: blocking_driver_eq)
qed

text \<open>Without jitter, interrupts and blocking the extended driver is the classical one, provided
  the task's own execution time is within the deadline. Beyond it they part: the extended driver
  answers \<open>Diverged\<close>, the classical one can report \<open>Converged\<close> with a response time past the
  deadline.\<close>

theorem classical_special_case:
  assumes "deadline \<le> u64_max" and "exec \<le> u64_max"
  shows "(exec \<le> deadline \<longrightarrow>
            compute_response_time_jittered_blocking exec deadline 0 0 (map (\<lambda>(p, c). (p, c, 0)) hps) []
              = compute_response_time exec deadline hps)
    \<and> (deadline < exec \<longrightarrow>
            compute_response_time_jittered_blocking exec deadline 0 0 (map (\<lambda>(p, c). (p, c, 0)) hps) []
              = Some Diverged
          \<and> compute_response_time exec deadline [] = Some (Converged exec))"
proof (intro conjI impI)
  assume le: "exec \<le> deadline"
  have eq: "rta_step_jittered_blocking exec 0 0 (map (\<lambda>(p, c). (p, c, 0)) hps) [] r = rta_step exec hps r"
    if "r \<le> deadline" for r
  proof -
    have "r \<le> u64_max" using that assms(1) by simp
    then have "map (\<lambda>h. sat_interference h r) (map (\<lambda>(p, c). (p, c, 0)) hps) = map (\<lambda>i. sat_isr i r) hps"
      by (auto simp: sat_interference_def sat_isr_def)
    then show ?thesis
      by (auto simp: rta_step_jittered_blocking_eq rta_step_eq periods_pos_def sat_step_def
          simp del: map_map)
  qed
  show "compute_response_time_jittered_blocking exec deadline 0 0 (map (\<lambda>(p, c). (p, c, 0)) hps) []
      = compute_response_time exec deadline hps"
    using rta_loop_cong [OF eq le] le assms(2)
    by (simp add: compute_response_time_jittered_blocking_def compute_response_time_def Let_def
       )
next
  assume gt: "deadline < exec"
  then show "compute_response_time_jittered_blocking exec deadline 0 0 (map (\<lambda>(p, c). (p, c, 0)) hps) []
      = Some Diverged"
    using assms(2) by (simp add: compute_response_time_jittered_blocking_def)
  show "compute_response_time exec deadline [] = Some (Converged exec)"
    using assms(2) by (simp add: compute_response_time_def rta_step_eq sat_step_def periods_pos_def
        rta_loop_unfold)
qed

theorem classical_special_case_witness:
  "compute_response_time_jittered_blocking 3 20 0 0 [(4, 1, 0), (6, 2, 0)] []
     = compute_response_time 3 20 [(4, 1), (6, 2)]
   \<and> compute_response_time 30 20 [] = Some (Converged 30)"
  using classical_special_case [of 20 3 "[(4, 1), (6, 2)]"] classical_special_case [of 20 30 "[]"]
  by (simp add: u64_max_def)

text \<open>The analysis is sustainable: if a task set is accepted with response time \<open>x'\<close>, then with no
  more execution time, own jitter and blocking and no earlier deadline it is accepted too, with a
  response time no larger. (This is what makes the reported best-case/worst-case band an interval.)\<close>

theorem response_time_sustainable:
  assumes "compute_response_time_jittered_blocking exec' deadline' jitter' blocking' hps isrs
      = Some (Converged x')"
    and "exec \<le> exec'" and "jitter \<le> jitter'" and "blocking \<le> blocking'" and "deadline' \<le> deadline"
  shows "\<exists>x \<le> x'. compute_response_time_jittered_blocking exec deadline jitter blocking hps isrs
      = Some (Converged x)"
proof -
  let ?b = "exec + jitter + blocking" and ?b' = "exec' + jitter' + blocking'"
  let ?f = "sat_step ?b hps isrs" and ?f' = "sat_step ?b' hps isrs"
  from assms(1) have pos: "periods_pos hps isrs" and start': "min ?b' u64_max \<le> deadline'"
    and run': "rta_loop (\<lambda>r. Some (?f' r)) deadline' (deadline' + 1) (min ?b' u64_max) = Some (Converged x')"
    unfolding blocking_driver_eq not_less [symmetric] by (auto simp only: split: if_splits)
  have b: "min ?b u64_max \<le> min ?b' u64_max" using assms(2-4) by simp
  from sat_rec.loop_Converged [OF run'] sat_rec.loop_Converged_le [OF run' start']
    sat_rec.loop_Converged_ge [OF run' sat_step_ge]
  have x': "?f' x' = x'" "x' \<le> deadline'" "min ?b' u64_max \<le> x'" by auto
  have "?f x' \<le> ?f' x'" using assms(2-4) by (auto simp: sat_step_def)
  with x' have pre: "?f x' \<le> x'" by simp
  have below: "min ?b u64_max \<le> x'" "x' \<le> deadline" using b x' assms(5) by linarith+
  then have start: "\<not> deadline < min ?b u64_max" by linarith
  obtain x where run: "rta_loop (\<lambda>r. Some (?f r)) deadline (deadline + 1) (min ?b u64_max) = Some (Converged x)"
    using sat_rec.loop_finds [OF sat_step_ge below(1) pre below(2), of "deadline + 1"] below(2) by force
  with sat_rec.loop_Converged [OF run] pre below have "x \<le> x'" by simp
  moreover have "compute_response_time_jittered_blocking exec deadline jitter blocking hps isrs
      = Some (Converged x)"
    using run pos start by (simp only: blocking_driver_eq if_True if_False not_less [symmetric])
  ultimately show ?thesis by blast
qed

theorem response_time_sustainable_witness:
  "\<exists>x \<le> 10. compute_response_time_jittered_blocking 2 20 0 0 [(4, 1, 0), (6, 2, 0)] [] = Some (Converged x)"
  by (rule response_time_sustainable [of 3 20 0 0])
    (simp_all add: compute_response_time_jittered_blocking_def rta_step_jittered_blocking_eq
      periods_pos_def sat_step_def sat_interference_def sat_mul_def sat_add_def u64_max_def div_ceil_def
      rta_loop_unfold)

end
