(* ===== verification/Arinc_Supply.thy ===== *)
theory Arinc_Supply
  imports Rta_Core
begin

text \<open>
  Response times inside an ARINC-653 partition, \<^verbatim>\<open>crates/spar-analysis/src/arinc_supply.rs\<close>:
  the supply of a periodic resource \<open>(\<Pi>, \<Theta>)\<close> (\<open>derived_jitter\<close>, \<open>lsbf\<close>), the request bound
  \<open>rbf\<close>, the two-path analysis of one inner task (\<open>analyze_task\<close>, \<open>fallback_demand_vs_supply\<close>).
  As in \<^verbatim>\<open>Rta_Core\<close>, \<open>None\<close> is a panic (a zero period).

  The source states that it assumes, and does not prove, that the linear bound \<open>lsbf\<close> is below
  the supply a partition really gets. The section on the supply closes that gap: any schedule that
  gives the partition \<open>\<Theta>\<close> time units in every period of length \<open>\<Pi>\<close>, wherever in the period,
  supplies at least \<open>lsbf t\<close> in every window of length \<open>t\<close>.
\<close>

section \<open>The supply model\<close>

definition derived_jitter :: "u64 \<Rightarrow> u64 \<Rightarrow> u64" where
  "derived_jitter period budget = sat_mul 2 (sat_sub period budget)"

definition lsbf :: "u64 \<Rightarrow> u64 \<Rightarrow> u64 \<Rightarrow> u64 option" where
  "lsbf period budget t =
     (if period = 0 then None
      else let blackout = derived_jitter period budget
           in if t \<le> blackout then Some 0
              else Some (sat_mul budget (t - blackout) div period))"

fun rbf_loop :: "u64 \<Rightarrow> (u64 \<times> u64 \<times> u64) list \<Rightarrow> u64 \<Rightarrow> u64 option" where
  "rbf_loop acc [] t = Some acc"
| "rbf_loop acc ((period, c, extra_j) # hp) t = do {
     i \<leftarrow> interference_jittered period c extra_j t;
     rbf_loop (sat_add acc i) hp t }"

definition rbf :: "u64 \<Rightarrow> u64 \<Rightarrow> (u64 \<times> u64 \<times> u64) list \<Rightarrow> u64 \<Rightarrow> u64 option" where
  "rbf exec blocking hp t = rbf_loop (sat_add exec blocking) hp t"


section \<open>The analysis of one inner task\<close>

datatype supply_rta_outcome =
    JitterPath (response: u64) (busy_window: u64)
  | FallbackPath (response: u64)
  | DeadlineMiss (response: u64)
  | Unschedulable
  | IllFormed
  | DeclinedExtraJitter

fun is_error :: "supply_rta_outcome \<Rightarrow> bool" where
  "is_error (DeadlineMiss _) = True"
| "is_error Unschedulable = True"
| "is_error IllFormed = True"
| "is_error DeclinedExtraJitter = True"
| "is_error _ = False"

fun fallback_loop ::
    "u64 \<Rightarrow> u64 \<Rightarrow> u64 \<Rightarrow> u64 \<Rightarrow> u64 \<Rightarrow> (u64 \<times> u64 \<times> u64) list \<Rightarrow> nat \<Rightarrow> u64 \<Rightarrow> supply_rta_outcome option" where
  "fallback_loop period budget exec deadline blocking hp 0 t = Some Unschedulable"
| "fallback_loop period budget exec deadline blocking hp (Suc n) t = do {
     demand \<leftarrow> rbf exec blocking hp t;
     steps \<leftarrow> ceil_div (sat_mul demand period) budget;
     let t_next = sat_add (derived_jitter period budget) steps in
     if t_next > deadline then Some Unschedulable
     else do {
       demand' \<leftarrow> rbf exec blocking hp t_next;
       supply \<leftarrow> lsbf period budget t_next;
       (if demand' \<le> supply then Some (FallbackPath t_next)
        else if t_next = t then Some Unschedulable
        else fallback_loop period budget exec deadline blocking hp n t_next) } }"

definition fallback_demand_vs_supply ::
    "u64 \<Rightarrow> u64 \<Rightarrow> u64 \<Rightarrow> u64 \<Rightarrow> u64 \<Rightarrow> (u64 \<times> u64 \<times> u64) list \<Rightarrow> supply_rta_outcome option" where
  "fallback_demand_vs_supply period budget exec deadline blocking hp =
     (let blackout = derived_jitter period budget
      in if deadline \<le> blackout then Some Unschedulable
         else fallback_loop period budget exec deadline blocking hp (length hp + 2 + 1) blackout)"

definition analyze_task ::
    "u64 \<Rightarrow> u64 \<Rightarrow> u64 \<Rightarrow> u64 \<Rightarrow> u64 \<Rightarrow> u64 \<Rightarrow> (u64 \<times> u64 \<times> u64) list \<Rightarrow> (u64 \<times> u64) list
      \<Rightarrow> supply_rta_outcome option" where
  "analyze_task period budget exec deadline blocking own_extra_jitter hp isr =
     (if period = 0 \<or> budget = 0 \<or> budget > period then Some IllFormed
      else let blackout = derived_jitter period budget;
               hp_jittered = map (\<lambda>(t, c, extra). (t, c, sat_add blackout extra)) hp
           in do {
             r \<leftarrow> compute_response_time_jittered_blocking exec budget 0 blocking hp_jittered isr;
             (case r of
                Converged w \<Rightarrow>
                  let response = sat_add (sat_add blackout own_extra_jitter) w
                  in if response \<le> deadline then Some (JitterPath response w)
                     else Some (DeadlineMiss response)
              | Diverged \<Rightarrow>
                  let any_extra = own_extra_jitter > 0 \<or> (\<exists>(_, _, e) \<in> set hp. e > 0)
                  in if any_extra then Some DeclinedExtraJitter
                     else fallback_demand_vs_supply period budget exec deadline blocking hp) })"


section \<open>What a periodic resource supplies\<close>

text \<open>A schedule says which time units the partition runs in.\<close>

definition supplied :: "(nat \<Rightarrow> bool) \<Rightarrow> nat \<Rightarrow> nat \<Rightarrow> nat" where
  "supplied runs a t = card {x \<in> {a ..< a + t}. runs x}"

definition delivers :: "nat \<Rightarrow> nat \<Rightarrow> (nat \<Rightarrow> bool) \<Rightarrow> bool" where
  "delivers period budget runs \<longleftrightarrow> (\<forall>k. budget \<le> supplied runs (k * period) period)"

lemma supply_0 [simp]: "supplied runs a 0 = 0"
  by (simp add: supplied_def)

lemma supply_le: "supplied runs a t \<le> t"
proof -
  have "supplied runs a t \<le> card {a ..< a + t}"
    unfolding supplied_def by (intro card_mono) auto
  then show ?thesis by simp
qed

lemma supply_add: "supplied runs a (s + t) = supplied runs a s + supplied runs (a + s) t"
proof -
  have "{x \<in> {a ..< a + (s + t)}. runs x}
      = {x \<in> {a ..< a + s}. runs x} \<union> {x \<in> {a + s ..< a + s + t}. runs x}"
    by auto
  moreover have "{x \<in> {a ..< a + s}. runs x} \<inter> {x \<in> {a + s ..< a + s + t}. runs x} = {}"
    by auto
  ultimately show ?thesis
    unfolding supplied_def by (simp only: card_Un_disjoint finite_Collect_conjI finite_atLeastLessThan
        Collect_mem_eq disjI1)
qed

text \<open>Inside one period at most \<open>\<Pi> - \<Theta>\<close> time units are not supplied.\<close>

lemma supply_in_period:
  assumes "delivers period budget runs" and "k * period \<le> a" and "a + t \<le> (k + 1) * period"
  shows "t \<le> supplied runs a t + (period - budget)"
proof -
  obtain s where s: "a = k * period + s" using assms(2) le_Suc_ex by blast
  obtain u where u: "period = s + t + u" using assms(3) s by (auto simp: le_iff_add)
  have "budget \<le> supplied runs (k * period) (s + (t + u))"
    using assms(1) u by (simp add: delivers_def add.assoc)
  also have "\<dots> \<le> s + supplied runs a t + u"
    using supply_le [of runs "k * period" s] supply_le [of runs "a + t" u]
    by (simp add: supply_add s add.assoc)
  finally show ?thesis using u by linarith
qed

lemma supply_periods: "delivers period budget runs \<Longrightarrow> m * budget \<le> supplied runs (k * period) (m * period)"
proof (induction m)
  case (Suc m)
  have "budget \<le> supplied runs ((k + m) * period) period"
    using Suc.prems by (simp add: delivers_def)
  with Suc show ?case
    by (simp add: add.commute [of period] supply_add add_mult_distrib)
qed simp

text \<open>The supply of a partial period, weighted by the period, is at least the budget's share of what
  exceeds the gap.\<close>

lemma supply_partial:
  assumes "delivers period budget runs" "budget \<le> period" "k * period \<le> a" "a + t \<le> (k + 1) * period"
  shows "budget * t \<le> period * supplied runs a t + budget * (period - budget)"
proof -
  have "budget * t \<le> budget * (supplied runs a t + (period - budget))"
    using supply_in_period [OF assms(1,3,4)] by (rule mult_le_mono2)
  also have "\<dots> = budget * supplied runs a t + budget * (period - budget)"
    by (rule add_mult_distrib2)
  also have "budget * supplied runs a t \<le> period * supplied runs a t"
    using assms(2) by simp
  finally show ?thesis by simp
qed

lemma supply_linear_bound:
  assumes d: "delivers period budget runs" and le: "budget \<le> period" and pos: "0 < period"
  shows "budget * t \<le> period * supplied runs a t + 2 * (budget * (period - budget))"
proof -
  define k where "k = a div period"
  have k: "k * period \<le> a" "a < (k + 1) * period"
    using pos by (simp_all add: k_def mult.commute [of _ period] dividend_less_times_div)
  show ?thesis
  proof (cases "a + t \<le> (k + 1) * period")
    case True
    from supply_partial [OF d le k(1) True] show ?thesis by linarith
  next
    case False
    define p where "p = (k + 1) * period - a"
    define m where "m = (t - p) div period"
    define q where "q = (t - p) mod period"
    have t: "t = p + (m * period + q)"
      using False by (simp add: p_def m_def q_def)
    have a1: "a + p = (k + 1) * period" using k(2) by (simp add: p_def)
    have a2: "a + p + m * period = (k + 1 + m) * period" by (simp add: a1 add_mult_distrib)
    have "budget * p \<le> period * supplied runs a p + budget * (period - budget)"
      using supply_partial [OF d le k(1), of p] a1 by simp
    moreover have "m * budget \<le> supplied runs (a + p) (m * period)"
      using supply_periods [OF d, of m "k + 1"] a1 by simp
    then have "budget * (m * period) \<le> period * supplied runs (a + p) (m * period)"
      using mult_le_mono2 [of "m * budget" _ period] by (simp add: ac_simps)
    moreover have "budget * q \<le> period * supplied runs (a + p + m * period) q + budget * (period - budget)"
      using pos by (intro supply_partial [OF d le, of "k + 1 + m"]) (simp_all add: a2 q_def)
    ultimately show ?thesis
      unfolding t supply_add add_mult_distrib2 by linarith
  qed
qed

lemma lsbf_le_supply:
  assumes "delivers period budget runs" "budget \<le> period" "lsbf period budget t = Some s" "2 * period \<le> u64_max"
  shows "s \<le> supplied runs a t"
proof -
  have pos: "0 < period" using assms(3) by (cases "period = 0") (auto simp: lsbf_def)
  let ?b = "2 * (period - budget)"
  have b: "derived_jitter period budget = ?b"
    using assms(4) by (simp add: derived_jitter_def sat_mul_min)
  show ?thesis
  proof (cases "t \<le> ?b")
    case True
    then show ?thesis using assms(3) pos b by (simp add: lsbf_def)
  next
    case False
    have "budget * (t - ?b) \<le> period * supplied runs a t"
    proof -
      have "budget * (t - ?b) + budget * ?b = budget * t"
        using False by (simp flip: add_mult_distrib2)
      then show ?thesis
        using supply_linear_bound [OF assms(1,2) pos, of t a] by (simp add: ac_simps)
    qed
    then have "sat_mul budget (t - ?b) div period \<le> (period * supplied runs a t) div period"
      by (intro div_le_mono) (simp add: sat_mul_min)
    with assms(3) pos b False show ?thesis by (simp add: lsbf_def)
  qed
qed

text \<open>After the worst-case blackout, a busy window no longer than one budget is served without a
  further gap.\<close>

lemma supply_after_blackout:
  assumes d: "delivers period budget runs" and le: "budget \<le> period" and pos: "0 < period"
    and w: "w \<le> budget"
  shows "w \<le> supplied runs a (2 * (period - budget) + w)"
proof -
  let ?L = "2 * (period - budget) + w"
  define k where "k = a div period"
  have k: "k * period \<le> a" "a < (k + 1) * period"
    using pos by (simp_all add: k_def mult.commute [of _ period] dividend_less_times_div)
  define p where "p = (k + 1) * period - a"
  have a1: "a + p = (k + 1) * period" using k(2) by (simp add: p_def)
  consider "?L \<le> p" | "p < ?L" "?L \<le> p + period" | "p + period < ?L" by linarith
  then show ?thesis
  proof cases
    case 1
    then have "?L \<le> supplied runs a ?L + (period - budget)"
      using a1 by (intro supply_in_period [OF d k(1)]) simp
    then show ?thesis by linarith
  next
    case 2
    then obtain q where q: "?L = p + q" "q \<le> period" by (metis add_le_cancel_left le_iff_add less_imp_le)
    have "p \<le> supplied runs a p + (period - budget)"
      using a1 by (intro supply_in_period [OF d k(1)]) simp
    moreover have "q \<le> supplied runs (a + p) q + (period - budget)"
      using q(2) by (intro supply_in_period [OF d, of "k + 1"]) (simp_all add: a1)
    ultimately have "p + q \<le> supplied runs a (p + q) + 2 * (period - budget)"
      by (simp add: supply_add)
    then show ?thesis unfolding q(1) [symmetric] by linarith
  next
    case 3
    then obtain q where q: "?L = p + (period + q)" by (metis add.assoc le_iff_add less_imp_le)
    have "budget \<le> supplied runs (a + p) period"
      using d unfolding a1 delivers_def by blast
    with w show ?thesis
      unfolding q by (simp add: supply_add)
  qed
qed


section \<open>The request bound and the climb of the fallback\<close>

lemma rbf_loop_eq: "rbf_loop acc hp t = total_interference_jittered_loop acc hp t"
  by (induction acc hp t rule: rbf_loop.induct) (auto split: bind_splits)

lemma rbf_eq:
  "rbf exec blocking hp t =
     (if \<exists>(p, _, _) \<in> set hp. p = 0 then None
      else Some (min (exec + blocking + (\<Sum>h\<leftarrow>hp. sat_interference h t)) u64_max))"
  by (auto simp: rbf_def rbf_loop_eq total_interference_jittered_loop_eq fold_sat_add u64_range)
    (auto simp: sat_add_min min_def)

lemma rbf_mono: "rbf exec blocking hp t = Some d \<Longrightarrow> rbf exec blocking hp t' = Some d' \<Longrightarrow> t \<le> t' \<Longrightarrow> d \<le> d'"
  by (auto simp: rbf_eq split: if_splits
      intro!: min.mono add_mono sum_list_mono sat_interference_mono)

text \<open>The condition the fallback looks for: at \<open>t\<close> the requested time is covered by the supply.\<close>

definition meets_supply ::
    "u64 \<Rightarrow> u64 \<Rightarrow> u64 \<Rightarrow> u64 \<Rightarrow> (u64 \<times> u64 \<times> u64) list \<Rightarrow> u64 \<Rightarrow> bool" where
  "meets_supply period budget exec blocking hp t =
     (case rbf exec blocking hp t of None \<Rightarrow> False
      | Some d \<Rightarrow> (case lsbf period budget t of None \<Rightarrow> False | Some s \<Rightarrow> d \<le> s))"

lemma meets_supply_SomeD:
  "meets_supply period budget exec blocking hp t \<Longrightarrow>
     \<exists>d s. rbf exec blocking hp t = Some d \<and> lsbf period budget t = Some s \<and> d \<le> s"
  by (auto simp: meets_supply_def split: option.splits)

text \<open>No admissible point is jumped over: from a point at or below an admissible one, the next point
  of the climb is still at or below it.\<close>

lemma climb_below:
  assumes m: "meets_supply period budget exec blocking hp t'" and "derived_jitter period budget < t'"
    and "t \<le> t'" and d: "rbf exec blocking hp t = Some d" and "0 < budget"
  shows "sat_add (derived_jitter period budget) (div_ceil (sat_mul d period) budget) \<le> t'"
proof -
  let ?b = "derived_jitter period budget"
  obtain d' s where d': "rbf exec blocking hp t' = Some d'" "lsbf period budget t' = Some s" "d' \<le> s"
    using meets_supply_SomeD [OF m] by blast
  have s: "s = sat_mul budget (t' - ?b) div period"
    using d'(2) assms(2) by (auto simp: lsbf_def Let_def split: if_splits)
  have "d \<le> s" using rbf_mono [OF d d'(1) assms(3)] d'(3) by simp
  then have "d * period \<le> s * period" by simp
  also have "\<dots> \<le> sat_mul budget (t' - ?b)" by (simp add: s)
  also have "\<dots> \<le> (t' - ?b) * budget" by (simp add: sat_mul_min mult.commute)
  finally have "div_ceil (sat_mul d period) budget \<le> t' - ?b"
    using \<open>0 < budget\<close> by (simp add: div_ceil_le_iff sat_mul_min)
  then show ?thesis using assms(2) sat_add_le order_trans by (metis add_le_cancel_left le_add_diff_inverse less_imp_le)
qed

lemma fallback_loop_FallbackPath:
  assumes "0 < budget"
  shows "fallback_loop period budget exec deadline blocking hp n t = Some (FallbackPath r) \<Longrightarrow>
    r \<le> deadline \<and> meets_supply period budget exec blocking hp r
    \<and> (\<forall>t'. derived_jitter period budget < t' \<and> t \<le> t' \<and> meets_supply period budget exec blocking hp t' \<longrightarrow> r \<le> t')"
proof (induction n arbitrary: t)
  case (Suc n)
  from Suc.prems assms obtain d where d: "rbf exec blocking hp t = Some d"
    by (auto split: bind_splits)
  define t1 where "t1 = sat_add (derived_jitter period budget) (div_ceil (sat_mul d period) budget)"
  have below: "t1 \<le> t'" if "derived_jitter period budget < t'" "t \<le> t'"
    "meets_supply period budget exec blocking hp t'" for t'
    unfolding t1_def using climb_below [OF that(3,1,2) d assms] .
  from Suc.prems d assms have le: "t1 \<le> deadline"
    by (auto simp: ceil_div_def t1_def Let_def not_less split: if_splits)
  show ?case
  proof (cases "meets_supply period budget exec blocking hp t1")
    case True
    with Suc.prems d assms le have "r = t1"
      by (auto simp: ceil_div_def t1_def [symmetric] Let_def dest!: meets_supply_SomeD)
    with True le below show ?thesis by blast
  next
    case False
    with Suc.prems d assms le
    have "fallback_loop period budget exec deadline blocking hp n t1 = Some (FallbackPath r)"
      by (auto simp: ceil_div_def t1_def [symmetric] Let_def meets_supply_def
          split: bind_splits if_splits option.splits)
    from Suc.IH [OF this] below show ?thesis by blast
  qed
qed simp

lemma fallback_loop_outcome:
  "fallback_loop period budget exec deadline blocking hp n t = Some out \<Longrightarrow>
     out = Unschedulable \<or> (\<exists>r. out = FallbackPath r)"
  by (induction n arbitrary: t) (auto simp: Let_def split: bind_splits if_splits)

declare fallback_loop.simps(2) [simp del]

lemma fallback_loop_unfold:
  "fallback_loop period budget exec deadline blocking hp n t =
     (if n = 0 then Some Unschedulable
      else do {
     demand \<leftarrow> rbf exec blocking hp t;
     steps \<leftarrow> ceil_div (sat_mul demand period) budget;
     let t_next = sat_add (derived_jitter period budget) steps in
     if t_next > deadline then Some Unschedulable
     else do {
       demand' \<leftarrow> rbf exec blocking hp t_next;
       supply \<leftarrow> lsbf period budget t_next;
       (if demand' \<le> supply then Some (FallbackPath t_next)
        else if t_next = t then Some Unschedulable
        else fallback_loop period budget exec deadline blocking hp (n - 1) t_next) } })"
  by (cases n) (auto simp: fallback_loop.simps(2) Let_def split: bind_splits)

lemma analyze_task_FallbackPath:
  assumes "analyze_task period budget exec deadline blocking extra hp isr = Some (FallbackPath r)"
  shows "0 < budget" "budget \<le> period" "extra = 0" "\<forall>(_, _, e) \<in> set hp. e = 0"
    "r \<le> deadline" "meets_supply period budget exec blocking hp r"
    "\<forall>t'. derived_jitter period budget < t' \<and> meets_supply period budget exec blocking hp t' \<longrightarrow> r \<le> t'"
proof -
  from assms show b: "0 < budget" "budget \<le> period" by (auto simp: analyze_task_def split: if_splits)
  from assms show "extra = 0" "\<forall>(_, _, e) \<in> set hp. e = 0"
    by (auto simp: analyze_task_def Let_def split: if_splits bind_splits rta_result.splits)
  from assms have "fallback_loop period budget exec deadline blocking hp (length hp + 2 + 1)
      (derived_jitter period budget) = Some (FallbackPath r)"
    by (auto simp: analyze_task_def fallback_demand_vs_supply_def Let_def
        split: if_splits bind_splits rta_result.splits)
  from fallback_loop_FallbackPath [OF b(1) this]
  show "r \<le> deadline" "meets_supply period budget exec blocking hp r"
    "\<forall>t'. derived_jitter period budget < t' \<and> meets_supply period budget exec blocking hp t' \<longrightarrow> r \<le> t'"
    by auto
qed

lemma analyze_task_JitterPath:
  assumes "analyze_task period budget exec deadline blocking extra hp isr = Some (JitterPath r w)"
  shows "0 < budget" "budget \<le> period" "r \<le> deadline"
    "r = sat_add (sat_add (derived_jitter period budget) extra) w"
    "compute_response_time_jittered_blocking exec budget 0 blocking
       (map (\<lambda>(t, c, e). (t, c, sat_add (derived_jitter period budget) e)) hp) isr = Some (Converged w)"
  using assms
  by (auto simp: analyze_task_def fallback_demand_vs_supply_def Let_def
      split: if_splits bind_splits rta_result.splits dest: fallback_loop_outcome)


section \<open>Properties\<close>

text \<open>A partition that runs in the second half of every period of 10, for the witnesses.\<close>

lemma second_half_delivers: "delivers 10 5 (\<lambda>x. 5 \<le> x mod 10)"
proof -
  have "5 \<le> supplied (\<lambda>x. 5 \<le> x mod 10) (k * 10) 10" for k :: nat
  proof -
    have "{k * 10 + 5 ..< k * 10 + 10} \<subseteq> {x \<in> {k * 10 ..< k * 10 + 10}. 5 \<le> x mod 10}"
    proof
      fix x assume "x \<in> {k * 10 + 5 ..< k * 10 + 10}"
      then obtain i where "x = k * 10 + i" "5 \<le> i" "i < 10"
        by (metis add_less_cancel_left atLeastLessThan_iff le_iff_add nat_add_left_cancel_le trans_le_add1)
      then show "x \<in> {x \<in> {k * 10 ..< k * 10 + 10}. 5 \<le> x mod 10}" by simp
    qed
    from card_mono [OF _ this] show ?thesis by (simp add: supplied_def)
  qed
  then show ?thesis by (simp add: delivers_def)
qed

lemma fallback_example: "analyze_task 10 5 10 100 0 0 [] [] = Some (FallbackPath 30)"
  by (simp add: analyze_task_def blocking_driver_eq u64_max_def fallback_demand_vs_supply_def
      derived_jitter_def sat_mul_def fallback_loop_unfold rbf_def
      ceil_div_def div_ceil_def sat_add_def lsbf_def)

text \<open>C39. Every window supplies what the linear bound promises: if the partition receives its budget
  in each period, wherever in the period, then in every window of length \<open>t\<close>, at any offset, it
  runs at least \<open>lsbf t\<close> time units. (The source names this as an assumption on the partition
  scheduler.)\<close>

theorem lsbf_is_supply_bound:
  assumes "delivers period budget runs" and "budget \<le> period" and "2 * period \<le> u64_max"
    and "lsbf period budget t = Some s"
  shows "s \<le> supplied runs a t"
  using assms by (intro lsbf_le_supply)

theorem lsbf_is_supply_bound_witness:
  "(15::nat) \<le> supplied (\<lambda>x. 5 \<le> x mod 10) 3 40"
  by (rule lsbf_is_supply_bound [of 10 5, OF second_half_delivers])
    (simp_all add: lsbf_def derived_jitter_def sat_mul_def u64_max_def)

text \<open>The fallback's answer is what its documentation defines: the reported response time is
  within the deadline, the request bound is covered by the supply bound there, and no smaller
  point has that property (for a task with execution time).\<close>

theorem fallback_response_least:
  assumes "analyze_task period budget exec deadline blocking extra hp isr = Some (FallbackPath r)"
    and "0 < exec"
  shows "r \<le> deadline \<and> meets_supply period budget exec blocking hp r
    \<and> (\<forall>t. meets_supply period budget exec blocking hp t \<longrightarrow> r \<le> t)"
proof (intro conjI allI impI)
  fix t
  assume m: "meets_supply period budget exec blocking hp t"
  have "derived_jitter period budget < t"
  proof (rule ccontr)
    assume "\<not> derived_jitter period budget < t"
    then have "lsbf period budget t = Some s \<Longrightarrow> s = 0" for s
      by (auto simp: lsbf_def Let_def split: if_splits)
    moreover have "rbf exec blocking hp t = Some d \<Longrightarrow> 0 < d" for d
      using \<open>0 < exec\<close> by (auto simp: rbf_eq split: if_splits)
    ultimately show False using meets_supply_SomeD [OF m] by fastforce
  qed
  with m analyze_task_FallbackPath(7) [OF assms(1)] show "r \<le> t" by blast
qed (use analyze_task_FallbackPath [OF assms(1)] in auto)

theorem fallback_response_least_witness:
  "meets_supply 10 5 10 0 [] 30 \<and> \<not> meets_supply 10 5 10 0 [] 29"
  using fallback_response_least [OF fallback_example] by fastforce

text \<open>C8. Fallback responses hold on the machine: in a partition that receives its budget in every
  period, each window as long as the reported response time supplies all the time requested in
  it.\<close>

theorem fallback_demand_is_supplied:
  assumes "analyze_task period budget exec deadline blocking extra hp isr = Some (FallbackPath r)"
    and "delivers period budget runs" and "2 * period \<le> u64_max"
  shows "\<exists>d. rbf exec blocking hp r = Some d \<and> (\<forall>a. d \<le> supplied runs a r)"
proof -
  obtain d s where "rbf exec blocking hp r = Some d" "lsbf period budget r = Some s" "d \<le> s"
    using meets_supply_SomeD [OF analyze_task_FallbackPath(6) [OF assms(1)]] by blast
  moreover have "s \<le> supplied runs a r" for a
    using lsbf_le_supply [OF assms(2) analyze_task_FallbackPath(2) [OF assms(1)] _ assms(3)] calculation
    by blast
  ultimately show ?thesis using order_trans by blast
qed

theorem fallback_demand_is_supplied_witness:
  "\<exists>d. rbf 10 0 [] 30 = Some d \<and> (\<forall>a. d \<le> supplied (\<lambda>x. 5 \<le> x mod 10) a 30)"
  by (rule fallback_demand_is_supplied [OF fallback_example second_half_delivers])
    (simp add: u64_max_def)

text \<open>Jitter-path responses are sound: the busy window is the least solution of the recurrence in
  which every higher-priority task carries the blackout as extra jitter, it fits into one budget,
  and every window of length \<open>2(\<Pi> - \<Theta>) + w\<close> of a partition that receives its budget supplies it.\<close>

theorem jitter_path_sound:
  assumes "analyze_task period budget exec deadline blocking extra hp isr = Some (JitterPath r w)"
    and "2 * period \<le> u64_max" and "periods_pos hp isr"
    and "\<forall>(_, _, e) \<in> set hp. budget + 2 * (period - budget) + e \<le> u64_max"
  shows "w \<le> budget \<and> r \<le> deadline
    \<and> (let F = exact_step (exec + blocking) (map (\<lambda>(t, c, e). (t, c, 2 * (period - budget) + e)) hp) isr
       in F w = w \<and> (\<forall>y. F y = y \<longrightarrow> w \<le> y))
    \<and> (\<forall>runs a. delivers period budget runs \<longrightarrow> w \<le> supplied runs a (2 * (period - budget) + w))"
proof -
  note j = analyze_task_JitterPath [OF assms(1)]
  let ?b = "2 * (period - budget)"
  have b: "derived_jitter period budget = ?b"
    using assms(2) by (simp add: derived_jitter_def sat_mul_min)
  define hp' where "hp' = map (\<lambda>(t, c, e). (t, c, ?b + e)) hp"
  have hp': "map (\<lambda>(t, c, e). (t, c, sat_add (derived_jitter period budget) e)) hp = hp'"
    using assms(4) by (fastforce simp: hp'_def b intro: sat_add_exact)
  have "jitters_fit budget hp'"
    using assms(4) by (fastforce simp: jitters_fit_def hp'_def)
  moreover have "periods_pos hp' isr" using assms(3) by (fastforce simp: periods_pos_def hp'_def)
  moreover have "budget < u64_max" using assms(2) j(1,2) by linarith
  ultimately have "w \<le> budget \<and> exact_step (exec + blocking) hp' isr w = w
      \<and> (\<forall>y. exact_step (exec + blocking) hp' isr y = y \<longrightarrow> w \<le> y)"
    using blocking_driver_fixed_point [of hp' isr budget _ exec 0 blocking w] j(5) hp' by simp
  then show ?thesis
    using j(1-3) supply_after_blackout [where period = period and budget = budget and w = w]
    by (auto simp: Let_def hp'_def [symmetric])
qed

theorem jitter_path_sound_witness:
  "(2::nat) \<le> 5 \<and> (let F = exact_step 2 [] [] in F 2 = 2)"
proof -
  have "analyze_task 10 5 2 30 0 0 [] [] = Some (JitterPath 12 2)"
    by (simp add: analyze_task_def blocking_driver_eq rta_loop_unfold sat_step_def periods_pos_def
        derived_jitter_def sat_mul_def sat_add_def u64_max_def)
  from jitter_path_sound [OF this] show ?thesis
    by (simp add: u64_max_def periods_pos_def Let_def)
qed

text \<open>The iteration cap of the fallback rejects schedulable tasks: it allows one step per
  higher-priority task and not one per release. This task is reported as having no admissible
  point up to its deadline of 100, although the request bound is covered at 60.\<close>

theorem fallback_cap_rejects_schedulable:
  "analyze_task 10 5 10 100 0 0 [(4, 1, 0)] [] = Some Unschedulable
   \<and> meets_supply 10 5 10 0 [(4, 1, 0)] 60"
  by (simp add: analyze_task_def blocking_driver_eq u64_max_def fallback_demand_vs_supply_def
      derived_jitter_def sat_mul_def fallback_loop_unfold rbf_def
      interference_jittered_def meets_supply_def
      ceil_div_def div_ceil_def sat_add_def lsbf_def)

text \<open>The fallback ignores the interrupts it is given: with an interrupt taking 4 of every 10
  time units it reports the same response time 30 as without, although the interrupt and the task
  together request more than the partition supplies by then.\<close>

theorem fallback_ignores_interrupts:
  "analyze_task 10 5 10 100 0 0 [] [(10, 4)] = Some (FallbackPath 30)
   \<and> (\<exists>d i s. rbf 10 0 [] 30 = Some d \<and> total_isr_interference [(10, 4)] 30 = Some i
        \<and> lsbf 10 5 30 = Some s \<and> s < d + i)"
  by (simp add: analyze_task_def blocking_driver_eq u64_max_def fallback_demand_vs_supply_def
      derived_jitter_def sat_mul_def fallback_loop_unfold rbf_def
      total_isr_interference_def total_interference_def interference_def
      ceil_div_def div_ceil_def sat_add_def lsbf_def)

end
