(* ===== verification/Property_Map.thy ===== *)
theory Property_Map
  imports Rust_Strings "HOL-Library.AList" "HOL-Library.Multiset"
begin

text \<open>
  Property tables of the instance model: the expressions of \<^verbatim>\<open>item_tree/mod.rs\<close>, the arithmetic
  test of \<^verbatim>\<open>property_arith.rs\<close>, the case-folded names of \<^verbatim>\<open>name.rs\<close> and \<^verbatim>\<open>resolver.rs\<close>,
  and \<^verbatim>\<open>PropertyMap\<close> with its operations (\<^verbatim>\<open>crates/spar-hir-def/src/properties.rs\<close>).

  The four hash tables of a \<^verbatim>\<open>PropertyMap\<close> are association lists; the order of the entries is
  the iteration order of the table, which the program does not fix, and the theorems say where it
  does not matter. A lookup is \<open>map_of\<close>, an insertion \<open>AList.update\<close>, a removal \<open>AList.delete\<close>.
  An arena is a list, and an index outside it, which panics, is \<open>None\<close>.
\<close>

section \<open>Names, expressions, values\<close>

type_synonym name = string
type_synonym ci_name = string
type_synonym prop_key = "ci_name \<times> ci_name"
type_synonym idx = nat

record property_ref =
  property_set :: "name option"
  property_name :: name

record classifier_ref =
  cr_package :: "name option"
  cr_type_name :: name
  cr_impl_name :: "name option"

datatype binary_op_kind = OpAdd | OpSub | OpMul | OpDiv

datatype property_expr =
    Integer int "name option"
  | Real string "name option"
  | StringLit string
  | Boolean bool
  | Enum name
  | ListExpr "property_expr list"
  | RecordExpr "(name \<times> property_expr) list"
  | Range property_expr property_expr "property_expr option"
  | ClassifierValue classifier_ref
  | ReferenceValue string
  | ComputedValue name
  | UnitValue property_expr name
  | BinaryOp binary_op_kind property_expr property_expr
  | ValueRef name
  | Opaque string

fun is_arithmetic :: "property_expr \<Rightarrow> bool" where
  "is_arithmetic (BinaryOp _ _ _) = True"
| "is_arithmetic (ListExpr items) = list_ex is_arithmetic items"
| "is_arithmetic (RecordExpr flds) = list_ex (\<lambda>f. is_arithmetic (snd f)) flds"
| "is_arithmetic (Range lo hi delta) =
     (is_arithmetic lo \<or> is_arithmetic hi \<or> (case delta of None \<Rightarrow> False | Some d \<Rightarrow> is_arithmetic d))"
| "is_arithmetic (UnitValue inner _) = is_arithmetic inner"
| "is_arithmetic _ = False"

record property_value =
  pv_name :: property_ref
  pv_value :: string
  typed_expr :: "property_expr option"
  is_append :: bool

definition value_is_arithmetic :: "property_value \<Rightarrow> bool" where
  "value_is_arithmetic pv = (case typed_expr pv of None \<Rightarrow> False | Some e \<Rightarrow> is_arithmetic e)"

datatype property_source =
    Classifier string
  | Implementation string
  | DeclaredLocal
  | Refined string string
  | Contained idx
  | ContainedUnresolved string
  | Inherited idx property_source
  | Unrecorded

record modal_value =
  in_modes :: "name list"
  mv_value :: property_value

record modal_binding =
  mode_context :: idx
  mb_values :: "modal_value list"

record property_map =
  props :: "(prop_key \<times> property_value list) list"
  ref_ctx :: "(prop_key \<times> idx) list"
  sources :: "(prop_key \<times> property_source list) list"
  modal :: "(prop_key \<times> modal_binding) list"

definition ci_name :: "string \<Rightarrow> ci_name" where
  "ci_name s = to_ascii_lowercase s"

definition key_of :: "property_ref \<Rightarrow> prop_key" where
  "key_of r = (case property_set r of Some ps \<Rightarrow> ci_name ps | None \<Rightarrow> ci_name '''', ci_name (property_name r))"

text \<open>\<^verbatim>\<open>entry(key).or_default().push(v)\<close>.\<close>

definition push_entry :: "'k \<Rightarrow> 'v \<Rightarrow> ('k \<times> 'v list) list \<Rightarrow> ('k \<times> 'v list) list" where
  "push_entry k v al = AList.update k ((case map_of al k of Some vs \<Rightarrow> vs | None \<Rightarrow> []) @ [v]) al"


section \<open>Operations\<close>

definition property_map_new :: property_map where
  "property_map_new = \<lparr>props = [], ref_ctx = [], sources = [], modal = []\<rparr>"

definition add_from :: "property_value \<Rightarrow> property_source \<Rightarrow> property_map \<Rightarrow> property_map" where
  "add_from prop source m =
     (let value = trim (pv_value prop)
      in if value = [] then m
      else let prop = prop\<lparr>pv_value := value\<rparr>;
               key = key_of (pv_name prop);
               m = m\<lparr>modal := AList.delete key (modal m)\<rparr>
           in if is_append prop
              then m\<lparr>sources := push_entry key source (sources m), props := push_entry key prop (props m)\<rparr>
              else m\<lparr>ref_ctx := AList.delete key (ref_ctx m),
                     sources := AList.update key [source] (sources m),
                     props := AList.update key [prop] (props m)\<rparr>)"

definition add :: "property_value \<Rightarrow> property_map \<Rightarrow> property_map" where
  "add prop m = add_from prop Unrecorded m"

definition add_with_reference_context :: "property_value \<Rightarrow> idx \<Rightarrow> property_map \<Rightarrow> property_map" where
  "add_with_reference_context prop ctx m =
     (let key = key_of (pv_name prop);
          had_value = (trim (pv_value prop) \<noteq> []);
          m = add_from prop (Contained ctx) m
      in if had_value then m\<lparr>ref_ctx := AList.update key ctx (ref_ctx m)\<rparr> else m)"

definition add_modal ::
    "property_value \<Rightarrow> property_source \<Rightarrow> modal_binding option \<Rightarrow> idx option \<Rightarrow> property_map \<Rightarrow> property_map" where
  "add_modal prop source binding reference_context m =
     (let key = key_of (pv_name prop);
          has_value = (trim (pv_value prop) \<noteq> []);
          assigns = (\<not> is_append prop \<and> has_value);
          m = add_from prop source m;
          m = (case reference_context of
                 Some ctx \<Rightarrow> if has_value then m\<lparr>ref_ctx := AList.update key ctx (ref_ctx m)\<rparr> else m
               | None \<Rightarrow> m)
      in case binding of
           Some b \<Rightarrow> if assigns then m\<lparr>modal := AList.update key b (modal m)\<rparr> else m
         | None \<Rightarrow> m)"

definition has_modal_values :: "property_map \<Rightarrow> bool" where
  "has_modal_values m \<longleftrightarrow> modal m \<noteq> []"

fun value_in_mode_loop :: "string \<Rightarrow> property_value option \<Rightarrow> modal_value list \<Rightarrow> property_value option" where
  "value_in_mode_loop mode dflt [] = dflt"
| "value_in_mode_loop mode dflt (mv # mvs) =
     (if in_modes mv = [] then value_in_mode_loop mode (Some (mv_value mv)) mvs
      else if list_ex (\<lambda>m. eq_ignore_ascii_case m mode) (in_modes mv) then Some (mv_value mv)
      else value_in_mode_loop mode dflt mvs)"

definition value_in_mode :: "modal_binding \<Rightarrow> string \<Rightarrow> property_value option" where
  "value_in_mode b mode = value_in_mode_loop mode None (mb_values b)"

definition in_mode_entry :: "(idx \<Rightarrow> string option) \<Rightarrow> prop_key \<times> modal_binding \<Rightarrow> property_map \<Rightarrow> property_map" where
  "in_mode_entry mode_of entry out =
     (case entry of (key, binding) \<Rightarrow>
       (case mode_of (mode_context binding) of
          None \<Rightarrow> out
        | Some mode \<Rightarrow>
            (case value_in_mode binding mode of
               Some v \<Rightarrow> out\<lparr>props := AList.update key [v] (props out)\<rparr>
             | None \<Rightarrow> out\<lparr>props := AList.delete key (props out), ref_ctx := AList.delete key (ref_ctx out)\<rparr>)))"

definition in_mode :: "(idx \<Rightarrow> string option) \<Rightarrow> property_map \<Rightarrow> property_map" where
  "in_mode mode_of m = (if modal m = [] then m else fold (in_mode_entry mode_of) (modal m) m)"

definition insert_inherited ::
    "prop_key \<Rightarrow> property_value list \<Rightarrow> idx \<Rightarrow> idx \<Rightarrow> property_source list \<Rightarrow> modal_binding option
      \<Rightarrow> property_map \<Rightarrow> property_map" where
  "insert_inherited key vals ctx ancestor origins binding m =
     (let srcs = map (\<lambda>i. Inherited ancestor (if i < length origins then origins ! i else Unrecorded)) [0..<length vals]
      in m\<lparr>ref_ctx := AList.update key ctx (ref_ctx m),
           sources := AList.update key srcs (sources m),
           modal := (case binding of Some b \<Rightarrow> AList.update key b (modal m) | None \<Rightarrow> AList.delete key (modal m)),
           props := AList.update key vals (props m)\<rparr>)"


section \<open>Queries\<close>

definition has_key :: "property_map \<Rightarrow> prop_key \<Rightarrow> bool" where
  "has_key m key \<longleftrightarrow> map_of (props m) key \<noteq> None"

definition modal_for_key :: "property_map \<Rightarrow> prop_key \<Rightarrow> modal_binding option" where
  "modal_for_key m key = map_of (modal m) key"

definition sources_for_key :: "property_map \<Rightarrow> prop_key \<Rightarrow> property_source list" where
  "sources_for_key m key = (case map_of (sources m) key of Some ss \<Rightarrow> ss | None \<Rightarrow> [])"

definition values_for_key :: "property_map \<Rightarrow> prop_key \<Rightarrow> property_value list option" where
  "values_for_key m key = map_of (props m) key"

definition reference_context_for_key :: "property_map \<Rightarrow> prop_key \<Rightarrow> idx option" where
  "reference_context_for_key m key = map_of (ref_ctx m) key"

definition reference_context :: "property_map \<Rightarrow> string \<Rightarrow> string \<Rightarrow> idx option" where
  "reference_context m pset nm = map_of (ref_ctx m) (ci_name pset, ci_name nm)"

text \<open>\<^verbatim>\<open>vals.first().filter(|pv| !pv.is_arithmetic())\<close>.\<close>

definition first_usable :: "property_map \<Rightarrow> string \<Rightarrow> string \<Rightarrow> property_value option" where
  "first_usable m pset nm =
     (case map_of (props m) (ci_name pset, ci_name nm) of
        None \<Rightarrow> None
      | Some [] \<Rightarrow> None
      | Some (pv # _) \<Rightarrow> if value_is_arithmetic pv then None else Some pv)"

definition get :: "property_map \<Rightarrow> string \<Rightarrow> string \<Rightarrow> string option" where
  "get m pset nm = map_option pv_value (first_usable m pset nm)"

definition get_typed :: "property_map \<Rightarrow> string \<Rightarrow> string \<Rightarrow> property_expr option" where
  "get_typed m pset nm = Option.bind (first_usable m pset nm) typed_expr"

definition get_all :: "property_map \<Rightarrow> string \<Rightarrow> string \<Rightarrow> string list" where
  "get_all m pset nm =
     (case map_of (props m) (ci_name pset, ci_name nm) of
        None \<Rightarrow> []
      | Some vals \<Rightarrow> map pv_value (filter (\<lambda>pv. \<not> value_is_arithmetic pv) vals))"

definition property_count :: "property_map \<Rightarrow> nat" where
  "property_count m = length (props m)"



section \<open>Layering\<close>

text \<open>The parts of the item tree the collectors read: property associations by arena index, and the
  association lists of component types, implementations and subcomponents.\<close>

record property_association =
  pa_name :: property_ref
  pa_value :: string
  pa_typed :: "property_expr option"
  pa_append :: bool

record item_tree =
  property_associations :: "property_association list"
  component_types :: "idx list list"
  component_impls :: "idx list list"
  subcomponents :: "idx list list"

definition value_of :: "property_association \<Rightarrow> property_value" where
  "value_of pa = \<lparr>pv_name = pa_name pa, pv_value = pa_value pa, typed_expr = pa_typed pa, is_append = pa_append pa\<rparr>"

fun add_associations :: "item_tree \<Rightarrow> idx list \<Rightarrow> property_map \<Rightarrow> property_map option" where
  "add_associations tree [] m = Some m"
| "add_associations tree (i # is) m =
     (case nth_opt (property_associations tree) i of
        None \<Rightarrow> None
      | Some pa \<Rightarrow> add_associations tree is (add (value_of pa) m))"

definition collect_for_component :: "item_tree \<Rightarrow> idx option \<Rightarrow> idx option \<Rightarrow> property_map option" where
  "collect_for_component tree ct ci =
     do { m \<leftarrow> (case ct of
                   None \<Rightarrow> Some property_map_new
                 | Some i \<Rightarrow> do { pas \<leftarrow> nth_opt (component_types tree) i; add_associations tree pas property_map_new });
          (case ci of
             None \<Rightarrow> Some m
           | Some i \<Rightarrow> do { pas \<leftarrow> nth_opt (component_impls tree) i; add_associations tree pas m }) }"

definition collect_for_subcomponent :: "item_tree \<Rightarrow> property_map \<Rightarrow> idx \<Rightarrow> property_map option" where
  "collect_for_subcomponent tree base i =
     do { pas \<leftarrow> nth_opt (subcomponents tree) i; add_associations tree pas base }"

definition from_associations :: "item_tree \<Rightarrow> idx list \<Rightarrow> property_map option" where
  "from_associations tree indices = add_associations tree indices property_map_new"


section \<open>Last assignment wins\<close>

text \<open>The elements from the last one that satisfies \<open>P\<close> on; all of them if none does.\<close>

definition since_last :: "('a \<Rightarrow> bool) \<Rightarrow> 'a list \<Rightarrow> 'a list" where
  "since_last P xs =
     (case dropWhile (\<lambda>x. \<not> P x) (rev xs) of
        [] \<Rightarrow> xs
      | a # _ \<Rightarrow> a # rev (takeWhile (\<lambda>x. \<not> P x) (rev xs)))"

lemma since_last_Nil [simp]: "since_last P [] = []"
  by (simp add: since_last_def)

lemma since_last_snoc [simp]:
  "since_last P (xs @ [x]) = (if P x then [x] else since_last P xs @ [x])"
proof (cases "\<exists>y \<in> set xs. P y")
  case True
  then obtain a r where "dropWhile (\<lambda>x. \<not> P x) (rev xs) = a # r"
    by (cases "dropWhile (\<lambda>x. \<not> P x) (rev xs)") auto
  then show ?thesis by (simp add: since_last_def)
next
  case False
  then have d: "dropWhile (\<lambda>x. \<not> P x) (rev xs) = []" by simp
  show ?thesis using False by (simp add: since_last_def d)
qed

text \<open>The interface of a table whose entries are assigned or appended to: what a key holds after an
  insertion. The client's lemma is the whole history at once.\<close>

locale override_table =
  fixes empty :: "'m" and insert :: "'v \<Rightarrow> 'm \<Rightarrow> 'm" and vals :: "'m \<Rightarrow> 'k \<Rightarrow> 'v list"
    and blank :: "'v \<Rightarrow> bool" and key :: "'v \<Rightarrow> 'k" and norm :: "'v \<Rightarrow> 'v" and appends :: "'v \<Rightarrow> bool"
  assumes vals_empty: "vals empty k = []"
    and vals_insert: "vals (insert v m) k =
      (if blank v \<or> key v \<noteq> k then vals m k
       else if appends v then vals m k @ [norm v] else [norm v])"
begin

lemma vals_history:
  "vals (fold insert vs empty) k = map norm (since_last (\<lambda>v. \<not> appends v) (filter (\<lambda>v. \<not> blank v \<and> key v = k) vs))"
proof (induction vs rule: rev_induct)
  case (snoc v vs)
  then show ?case by (auto simp: vals_insert)
qed (simp add: vals_empty)

lemma vals_other: "\<forall>v \<in> set vs. blank v \<or> key v \<noteq> k \<Longrightarrow> vals (fold insert vs m) k = vals m k"
  by (induction vs arbitrary: m) (simp_all add: vals_insert)

end

lemmas table_lookup = update_conv' delete_conv' fun_upd_def

definition blank_value :: "property_value \<Rightarrow> bool" where
  "blank_value v \<longleftrightarrow> trim (pv_value v) = []"

definition trimmed :: "property_value \<Rightarrow> property_value" where
  "trimmed v = v\<lparr>pv_value := trim (pv_value v)\<rparr>"

definition held :: "property_map \<Rightarrow> prop_key \<Rightarrow> property_value list" where
  "held m k = (case values_for_key m k of Some vs \<Rightarrow> vs | None \<Rightarrow> [])"

lemma map_of_push_entry:
  "map_of (push_entry k v al) =
     (map_of al)(k \<mapsto> (case map_of al k of Some vs \<Rightarrow> vs | None \<Rightarrow> []) @ [v])"
  by (simp add: push_entry_def update_conv')

lemma held_add:
  "held (add v m) k =
     (if blank_value v \<or> key_of (pv_name v) \<noteq> k then held m k
      else if is_append v then held m k @ [trimmed v] else [trimmed v])"
  by (auto simp: held_def values_for_key_def add_def add_from_def blank_value_def trimmed_def
      map_of_push_entry update_conv' Let_def split: option.splits)

interpretation pm: override_table property_map_new add held blank_value "\<lambda>v. key_of (pv_name v)" trimmed is_append
  by unfold_locales (rule held_add | simp add: held_def values_for_key_def property_map_new_def)+

text \<open>What the values of a key must be after a sequence of associations, most recent last.\<close>

definition effective :: "property_value list \<Rightarrow> prop_key \<Rightarrow> property_value list option" where
  "effective pvs k =
     (let vs = since_last (\<lambda>v. \<not> is_append v) (filter (\<lambda>v. \<not> blank_value v \<and> key_of (pv_name v) = k) pvs)
      in if vs = [] then None else Some (map trimmed vs))"

lemma since_last_eq_Nil [simp]: "since_last P xs = [] \<longleftrightarrow> xs = []"
  by (auto simp: since_last_def split: list.split)

lemma values_nonempty: "values_for_key (fold add vs property_map_new) k \<noteq> Some []"
proof (induction vs rule: rev_induct)
  case (snoc v vs)
  then show ?case
    by (auto simp: values_for_key_def add_def add_from_def map_of_push_entry update_conv' Let_def)
qed (simp add: values_for_key_def property_map_new_def)

lemma values_history: "values_for_key (fold add vs property_map_new) k = effective vs k"
  using pm.vals_history [of vs k] values_nonempty [of vs k]
  by (auto simp: held_def effective_def Let_def split: option.splits)

definition tree_wf :: "item_tree \<Rightarrow> bool" where
  "tree_wf tree \<longleftrightarrow> (\<forall>pas \<in> set (component_types tree) \<union> set (component_impls tree) \<union> set (subcomponents tree).
     \<forall>i \<in> set pas. i < length (property_associations tree))"

definition declared :: "item_tree \<Rightarrow> idx list \<Rightarrow> property_value list" where
  "declared tree pas = map (\<lambda>i. value_of (property_associations tree ! i)) pas"

lemma add_associations_eq:
  "\<forall>i \<in> set pas. i < length (property_associations tree) \<Longrightarrow>
     add_associations tree pas m = Some (fold add (declared tree pas) m)"
  by (induction pas arbitrary: m) (simp_all add: nth_opt_def declared_def)

text \<open>C17. Layering refines the rule of the standard: collecting a component's properties from its
  type, its implementation and the subcomponent declaration never fails, and leaves under every
  (case-folded) key the trimmed values from the last assignment among the three layers on, with the
  appends after it, and nothing if every association for the key is blank or missing.\<close>

theorem property_layers_refine:
  assumes "tree_wf tree" "ct < length (component_types tree)" "ci < length (component_impls tree)"
    "sub < length (subcomponents tree)"
  shows "\<exists>base m. collect_for_component tree (Some ct) (Some ci) = Some base
    \<and> collect_for_subcomponent tree base sub = Some m
    \<and> values_for_key m k = effective (declared tree (component_types tree ! ct)
        @ declared tree (component_impls tree ! ci) @ declared tree (subcomponents tree ! sub)) k"
proof -
  have "\<forall>i \<in> set pas. i < length (property_associations tree)"
    if "pas \<in> {component_types tree ! ct, component_impls tree ! ci, subcomponents tree ! sub}" for pas
    using assms that unfolding tree_wf_def by (metis UnCI empty_iff insert_iff nth_mem)
  note add = add_associations_eq [OF this [of "component_types tree ! ct"]]
    add_associations_eq [OF this [of "component_impls tree ! ci"]]
    add_associations_eq [OF this [of "subcomponents tree ! sub"]]
  show ?thesis using assms(2-4)
    by (auto simp: collect_for_component_def collect_for_subcomponent_def nth_opt_def add
        simp flip: values_history)
qed

text \<open>A tree in which the type sets the period, a blank association of the implementation changes
  nothing, and the subcomponent assigns and then appends.\<close>

definition demo_ref :: "string option \<Rightarrow> string \<Rightarrow> property_ref" where
  "demo_ref s n = \<lparr>property_set = s, property_name = n\<rparr>"

definition demo_assoc :: "string option \<Rightarrow> string \<Rightarrow> string \<Rightarrow> bool \<Rightarrow> property_association" where
  "demo_assoc s n v app = \<lparr>pa_name = demo_ref s n, pa_value = v, pa_typed = None, pa_append = app\<rparr>"

definition demo_tree :: item_tree where
  "demo_tree = \<lparr>property_associations =
       [demo_assoc None ''Period'' ''10 ms'' False, demo_assoc None ''PERIOD'' ''  '' False,
        demo_assoc None ''period'' '' 5 ms'' False, demo_assoc None ''Period'' ''7 ms'' True],
     component_types = [[0]], component_impls = [[1]], subcomponents = [[2, 3]]\<rparr>"

theorem property_layers_refine_witness:
  "tree_wf demo_tree \<and> (\<exists>base m. collect_for_component demo_tree (Some 0) (Some 0) = Some base
    \<and> collect_for_subcomponent demo_tree base 0 = Some m
    \<and> map_option (map pv_value) (values_for_key m ('''', ''period'')) = Some [''5 ms'', ''7 ms''])"
proof -
  have wf: "tree_wf demo_tree" by (simp add: tree_wf_def demo_tree_def demo_assoc_def)
  have "0 < length (component_types demo_tree)" "0 < length (component_impls demo_tree)"
    "0 < length (subcomponents demo_tree)" by (simp_all add: demo_tree_def)
  note r = property_layers_refine [OF wf this, of "('''', ''period'')"]
  have "map_option (map pv_value) (effective (declared demo_tree (component_types demo_tree ! 0)
        @ declared demo_tree (component_impls demo_tree ! 0) @ declared demo_tree (subcomponents demo_tree ! 0))
        ('''', ''period'')) = Some [''5 ms'', ''7 ms'']"
    by (simp add: effective_def declared_def demo_tree_def demo_assoc_def demo_ref_def value_of_def
        blank_value_def trimmed_def key_of_def ci_name_def since_last_def ascii_eval trim_eval)
  with r wf show ?thesis by metis
qed

section \<open>The invariant of the tables\<close>

text \<open>Keys are unique in every table. What a key holds is consistent: every key that has values has as
  many sources, values are trimmed and stored under their own key, a key without values has no
  sources, reference context or modal binding, and a modal key holds exactly one, assigned value.\<close>

definition keys_unique :: "property_map \<Rightarrow> bool" where
  "keys_unique m \<longleftrightarrow> distinct (map fst (props m)) \<and> distinct (map fst (ref_ctx m))
     \<and> distinct (map fst (sources m)) \<and> distinct (map fst (modal m))"

definition value_wf :: "prop_key \<Rightarrow> property_value \<Rightarrow> bool" where
  "value_wf k v \<longleftrightarrow> key_of (pv_name v) = k \<and> pv_value v \<noteq> [] \<and> trim (pv_value v) = pv_value v"

definition entry_wf ::
    "prop_key \<Rightarrow> property_value list option \<Rightarrow> property_source list option \<Rightarrow> idx option \<Rightarrow> modal_binding option \<Rightarrow> bool" where
  "entry_wf k vals srcs ctx binding \<longleftrightarrow>
     (case vals of
        None \<Rightarrow> srcs = None \<and> ctx = None \<and> binding = None
      | Some vs \<Rightarrow> vs \<noteq> [] \<and> map_option length srcs = Some (length vs) \<and> (\<forall>v \<in> set vs. value_wf k v)
          \<and> (binding \<noteq> None \<longrightarrow> (\<exists>v. vs = [v] \<and> \<not> is_append v)))"

definition holds_wf :: "property_map \<Rightarrow> prop_key \<Rightarrow> bool" where
  "holds_wf m k \<longleftrightarrow>
     entry_wf k (map_of (props m) k) (map_of (sources m) k) (map_of (ref_ctx m) k) (map_of (modal m) k)"

definition pm_wf :: "property_map \<Rightarrow> bool" where
  "pm_wf m \<longleftrightarrow> keys_unique m \<and> (\<forall>k. holds_wf m k)"

text \<open>The maps the program builds: from the empty one by the four insertions, the last with what
  another such map holds under the key.\<close>

inductive built :: "property_map \<Rightarrow> bool" where
  built_new: "built property_map_new"
| built_add: "built m \<Longrightarrow> built (add_from v src m)"
| built_context: "built m \<Longrightarrow> built (add_with_reference_context v ctx m)"
| built_modal: "built m \<Longrightarrow> built (add_modal v src binding ctx m)"
| built_inherited: "built m \<Longrightarrow> built a \<Longrightarrow> values_for_key a k = Some vs \<Longrightarrow>
    built (insert_inherited k vs ctx ancestor (sources_for_key a k) (modal_for_key a k) m)"

lemma keys_unique_ops:
  assumes "keys_unique m"
  shows "keys_unique (add_from v src m)" "keys_unique (add_with_reference_context v ctx m)"
    "keys_unique (add_modal v src binding rctx m)" "keys_unique (insert_inherited k vs c a os b m)"
  using assms
  by (auto simp: keys_unique_def add_from_def add_with_reference_context_def add_modal_def insert_inherited_def
      push_entry_def distinct_update distinct_delete Let_def split: option.splits)

lemma value_wf_trimmed: "trim (pv_value v) \<noteq> [] \<Longrightarrow> value_wf (key_of (pv_name v)) (v\<lparr>pv_value := trim (pv_value v)\<rparr>)"
  by (simp add: value_wf_def)

lemma holds_wf_add_from:
  assumes "holds_wf m k"
  shows "holds_wf (add_from v src m) k"
proof (cases "trim (pv_value v) = [] \<or> key_of (pv_name v) \<noteq> k")
  case True
  then show ?thesis using assms
    by (auto simp: holds_wf_def add_from_def map_of_push_entry update_conv' delete_conv' Let_def)
next
  case False
  then have "value_wf k (v\<lparr>pv_value := trim (pv_value v)\<rparr>)" using value_wf_trimmed by blast
  with False assms show ?thesis
    by (auto simp: holds_wf_def entry_wf_def add_from_def map_of_push_entry update_conv' delete_conv' Let_def
        split: option.splits)
qed

lemma add_from_holds:
  assumes "trim (pv_value v) \<noteq> []"
  shows "map_of (props (add_from v src m)) (key_of (pv_name v)) \<noteq> None"
    "\<not> is_append v \<Longrightarrow> map_of (props (add_from v src m)) (key_of (pv_name v)) = Some [trimmed v]"
  using assms by (auto simp: add_from_def Let_def map_of_push_entry update_conv' trimmed_def)

lemma holds_wf_set_context:
  "holds_wf m k \<Longrightarrow> map_of (props m) k' \<noteq> None \<Longrightarrow> holds_wf (m\<lparr>ref_ctx := AList.update k' ctx (ref_ctx m)\<rparr>) k"
  by (auto simp: holds_wf_def entry_wf_def update_conv' split: option.splits)

lemma holds_wf_set_modal:
  "holds_wf m k \<Longrightarrow> map_of (props m) k' = Some [v] \<Longrightarrow> \<not> is_append v \<Longrightarrow>
     holds_wf (m\<lparr>modal := AList.update k' b (modal m)\<rparr>) k"
  by (auto simp: holds_wf_def entry_wf_def update_conv' split: option.splits)

lemma holds_wf_context: "holds_wf m k \<Longrightarrow> holds_wf (add_with_reference_context v ctx m) k"
  unfolding add_with_reference_context_def Let_def
  using holds_wf_set_context [OF holds_wf_add_from add_from_holds(1)] holds_wf_add_from by simp

lemma holds_wf_modal:
  assumes "holds_wf m k"
  shows "holds_wf (add_modal v src binding ctx m) k"
proof (cases "trim (pv_value v) = []")
  case True
  then show ?thesis using holds_wf_add_from [OF assms]
    by (simp add: add_modal_def Let_def split: option.splits)
next
  case False
  let ?k = "key_of (pv_name v)" and ?m = "add_from v src m"
  let ?m' = "case ctx of Some c \<Rightarrow> ?m\<lparr>ref_ctx := AList.update ?k c (ref_ctx ?m)\<rparr> | None \<Rightarrow> ?m"
  have wf: "holds_wf ?m' k"
    using holds_wf_add_from [OF assms] holds_wf_set_context add_from_holds(1) [OF False]
    by (auto split: option.split)
  have "props ?m' = props ?m" by (simp split: option.split)
  then have "holds_wf (?m'\<lparr>modal := AList.update ?k b (modal ?m')\<rparr>) k" if "\<not> is_append v" for b
    using holds_wf_set_modal [OF wf, of ?k "trimmed v"] add_from_holds(2) [OF False that] that
    by (simp add: trimmed_def)
  with wf False show ?thesis by (simp add: add_modal_def Let_def split: option.splits)
qed

lemma holds_wf_inherited:
  assumes "holds_wf m k'" "holds_wf a k" "values_for_key a k = Some vs"
  shows "holds_wf (insert_inherited k vs ctx ancestor (sources_for_key a k) (modal_for_key a k) m) k'"
  using assms unfolding holds_wf_def entry_wf_def insert_inherited_def Let_def values_for_key_def modal_for_key_def
  by (auto simp: update_conv' delete_conv' split: option.splits)

lemma property_wf_of_built: "built m \<Longrightarrow> pm_wf m"
proof (induction rule: built.induct)
  case built_new
  show ?case by (simp add: pm_wf_def keys_unique_def holds_wf_def entry_wf_def property_map_new_def)
next
  case (built_inherited m a k vs ctx ancestor)
  then show ?case using holds_wf_inherited keys_unique_ops(4) unfolding pm_wf_def by blast
qed (simp_all add: pm_wf_def keys_unique_ops holds_wf_add_from holds_wf_context holds_wf_modal)

text \<open>C18. Every property map the program builds keeps its four tables consistent: unique keys, one
  source per value, trimmed non-empty values under their own key, no reference context and no modal
  binding without a value, and a modal key with exactly one, assigned value.\<close>

theorem property_map_invariant: "built m \<Longrightarrow> pm_wf m"
  by (rule property_wf_of_built)

text \<open>A thread that inherits a modal period from its process.\<close>

definition demo_value :: "string \<Rightarrow> string \<Rightarrow> bool \<Rightarrow> property_value" where
  "demo_value n v app = \<lparr>pv_name = demo_ref None n, pv_value = v, typed_expr = None, is_append = app\<rparr>"

definition demo_binding :: modal_binding where
  "demo_binding = \<lparr>mode_context = 1, mb_values =
     [\<lparr>in_modes = [''Fast''], mv_value = demo_value ''Period'' ''2 ms'' False\<rparr>,
      \<lparr>in_modes = [''Slow''], mv_value = demo_value ''Period'' ''9 ms'' False\<rparr>]\<rparr>"

definition demo_process :: property_map where
  "demo_process = add_modal (demo_value ''Period'' ''2 ms'' False) DeclaredLocal (Some demo_binding) None property_map_new"

definition demo_thread :: property_map where
  "demo_thread = insert_inherited ('''', ''period'') [demo_value ''Period'' ''2 ms'' False] 1 1
     (sources_for_key demo_process ('''', ''period'')) (modal_for_key demo_process ('''', ''period''))
     (add_from (demo_value ''Priority'' '' 7 '' False) DeclaredLocal property_map_new)"

lemmas demo_property_eval = demo_thread_def demo_process_def demo_binding_def demo_value_def demo_ref_def
  property_map_new_def add_modal_def add_from_def insert_inherited_def values_for_key_def sources_for_key_def
  modal_for_key_def key_of_def ci_name_def ascii_eval trim_eval

lemma demo_process_values: "values_for_key demo_process ('''', ''period'') = Some [demo_value ''Period'' ''2 ms'' False]"
  by (simp add: demo_property_eval)

theorem property_map_invariant_witness:
  "pm_wf demo_thread \<and> sources_for_key demo_thread ('''', ''period'') = [Inherited 1 DeclaredLocal]
    \<and> modal_for_key demo_thread ('''', ''period'') = Some demo_binding"
proof -
  have "built demo_thread" unfolding demo_thread_def
    by (intro built_inherited demo_process_values built_add built_new) (simp add: demo_process_def built_modal built_new)
  from property_map_invariant [OF this] show ?thesis by (simp add: demo_property_eval)
qed


section \<open>One system operation mode\<close>




lemma in_mode_entry_keeps [simp]:
  "sources (in_mode_entry mode_of e out) = sources out" "modal (in_mode_entry mode_of e out) = modal out"
  by (auto simp: in_mode_entry_def split: prod.split option.split)

lemma in_mode_fold_keeps [simp]:
  "sources (fold (in_mode_entry mode_of) es out) = sources out" "modal (fold (in_mode_entry mode_of) es out) = modal out"
  by (induction es arbitrary: out) simp_all





lemma in_mode_modal [simp]: "modal (in_mode mode_of m) = modal m" "sources (in_mode mode_of m) = sources m"
  by (simp_all add: in_mode_def)



text \<open>A mode that leaves a key without a value keeps the key's source, so sources are no longer
  aligned with values in the result.\<close>

lemma in_mode_keeps_stale_source:
  "values_for_key (in_mode (\<lambda>_. Some ''off'') demo_process) ('''', ''period'') = None"
  "sources_for_key (in_mode (\<lambda>_. Some ''off'') demo_process) ('''', ''period'') = [DeclaredLocal]"
  by (simp_all add: in_mode_def in_mode_entry_def value_in_mode_def demo_property_eval)

text \<open>An append with a reference context changes the context of the values that were there before it.\<close>

lemma append_moves_reference_context:
  assumes "trim (pv_value v) \<noteq> []" "is_append w" "trim (pv_value w) \<noteq> []" "pv_name w = pv_name v"
  shows "hd (held (add_with_reference_context w ctx (add v m)) (key_of (pv_name v)))
      = hd (held (add v m) (key_of (pv_name v)))
    \<and> reference_context_for_key (add_with_reference_context w ctx (add v m)) (key_of (pv_name v)) = Some ctx"
proof -
  have "held (add_with_reference_context w ctx (add v m)) (key_of (pv_name v))
      = held (add v m) (key_of (pv_name v)) @ [trimmed w]"
    using assms by (auto simp: add_with_reference_context_def held_def values_for_key_def add_from_def trimmed_def
        map_of_push_entry Let_def)
  moreover have "held (add v m) (key_of (pv_name v)) \<noteq> []" using assms(1) by (simp add: held_add blank_value_def)
  ultimately show ?thesis using assms(3,4)
    by (simp add: add_with_reference_context_def reference_context_for_key_def update_conv' Let_def)
qed

end
