(* ===== verification/Rust_Float.thy ===== *)
theory Rust_Float
  imports Rust_Strings
begin

text \<open>
  The part of Rust's \<^verbatim>\<open>f64\<close> that the readers of real-valued properties use: parsing a decimal
  string (\<^verbatim>\<open>str::parse::<f64>\<close>: sign, digits with an optional point and exponent, \<^verbatim>\<open>inf\<close>,
  \<^verbatim>\<open>infinity\<close>, \<^verbatim>\<open>nan\<close>), multiplication by an integer that is exactly representable, and the
  saturating, truncating cast \<^verbatim>\<open>as u64\<close>.

  A finite value is a sign, a mantissa and a binary exponent. Parsing and multiplication are the exact
  rational result rounded to nearest, ties to even, at 53 bits (fewer below the normal range), as
  IEEE 754 prescribes for binary64.
\<close>

datatype f64 = Finite bool nat int | Infinite bool | NaN

fun bit_length :: "nat \<Rightarrow> nat" where
  "bit_length n = (if n = 0 then 0 else Suc (bit_length (n div 2)))"

declare bit_length.simps [simp del]

definition round_half_even :: "nat \<Rightarrow> nat \<Rightarrow> nat" where
  "round_half_even a b =
     (let d = a div b; r = a mod b
      in if 2 * r > b \<or> 2 * r = b \<and> odd d then d + 1 else d)"

text \<open>The value of \<open>p / q\<close> at 53 bits. \<open>x\<close> is the exponent of its leading bit.\<close>

definition round_f64 :: "bool \<Rightarrow> nat \<Rightarrow> nat \<Rightarrow> f64" where
  "round_f64 neg p q =
     (if p = 0 then Finite neg 0 0
      else let k = int (bit_length p) - int (bit_length q);
               x = (if q * 2 ^ nat k \<le> p * 2 ^ nat (- k) then k else k - 1);
               e = max (x - 52) (- 1074);
               m = round_half_even (p * 2 ^ nat (- e)) (q * 2 ^ nat e)
           in if 0 \<le> e \<and> 2 ^ 1024 \<le> m * 2 ^ nat e then Infinite neg else Finite neg m e)"

definition f64_mul_nat :: "f64 \<Rightarrow> nat \<Rightarrow> f64" where
  "f64_mul_nat v n =
     (case v of
        Finite neg m e \<Rightarrow> round_f64 neg (m * n * 2 ^ nat e) (2 ^ nat (- e))
      | Infinite neg \<Rightarrow> if n = 0 then NaN else Infinite neg
      | NaN \<Rightarrow> NaN)"

definition f64_as_u64 :: "f64 \<Rightarrow> u64" where
  "f64_as_u64 v =
     (case v of
        Finite neg m e \<Rightarrow> if neg then 0 else narrow_u64 (m * 2 ^ nat e div 2 ^ nat (- e))
      | Infinite neg \<Rightarrow> if neg then 0 else u64_max
      | NaN \<Rightarrow> 0)"

section \<open>Parsing\<close>

definition is_dec_digit :: "char \<Rightarrow> bool" where
  "is_dec_digit c \<longleftrightarrow> to_digit 10 c \<noteq> None"

definition dec_value :: "string \<Rightarrow> nat" where
  "dec_value s = fold (\<lambda>c acc. acc * 10 + (case to_digit 10 c of Some d \<Rightarrow> d | None \<Rightarrow> 0)) s 0"

definition split_sign :: "string \<Rightarrow> bool \<times> string" where
  "split_sign s =
     (case s of
        c # cs \<Rightarrow> if c = CHR ''-'' then (True, cs) else if c = CHR ''+'' then (False, cs) else (False, s)
      | [] \<Rightarrow> (False, []))"

text \<open>The exponent part: nothing, or \<^verbatim>\<open>e\<close> with a signed digit string.\<close>

definition parse_exponent :: "string \<Rightarrow> int option" where
  "parse_exponent s =
     (case s of
        [] \<Rightarrow> Some 0
      | c # cs \<Rightarrow>
          if ascii_lower c \<noteq> CHR ''e'' then None
          else let (neg, ds) = split_sign cs
               in if ds = [] \<or> \<not> list_all is_dec_digit ds then None
                  else Some (if neg then - int (dec_value ds) else int (dec_value ds)))"

definition parse_number :: "bool \<Rightarrow> string \<Rightarrow> f64 option" where
  "parse_number neg s =
     (let ip = takeWhile is_dec_digit s;
          rest = dropWhile is_dec_digit s;
          (fp, rest) = (case rest of
                          c # cs \<Rightarrow> if c = CHR ''.'' then (takeWhile is_dec_digit cs, dropWhile is_dec_digit cs) else ([], rest)
                        | [] \<Rightarrow> ([], []))
      in if ip = [] \<and> fp = [] then None
         else map_option (\<lambda>ex. let e = ex - int (length fp)
                               in round_f64 neg (dec_value (ip @ fp) * 10 ^ nat e) (10 ^ nat (- e)))
                (parse_exponent rest))"

definition parse_f64 :: "string \<Rightarrow> f64 option" where
  "parse_f64 s =
     (let (neg, body) = split_sign s; low = to_ascii_lowercase body
      in if low = ''inf'' \<or> low = ''infinity'' then Some (Infinite neg)
         else if low = ''nan'' then Some NaN
         else parse_number neg body)"

text \<open>\<^verbatim>\<open>(s.parse::<f64>().ok()? * factor as f64) as u64\<close>, for a factor below \<open>2^53\<close>.\<close>

definition scale_real :: "string \<Rightarrow> u64 \<Rightarrow> u64 option" where
  "scale_real s factor = map_option (\<lambda>v. f64_as_u64 (f64_mul_nat v factor)) (parse_f64 s)"

lemma bit_length_eval:
  "bit_length 0 = 0" "bit_length 1 = 1" "bit_length (Suc 0) = 1"
  "bit_length (numeral (Num.Bit0 n)) = bit_length (numeral n) + 1"
  "bit_length (numeral (Num.Bit1 n)) = bit_length (numeral n) + 1"
proof -
  show "bit_length 0 = 0" "bit_length 1 = 1" "bit_length (Suc 0) = 1" by (simp_all add: bit_length.simps)
  have "numeral (Num.Bit0 n) div 2 = (numeral n :: nat)" "numeral (Num.Bit1 n) div 2 = (numeral n :: nat)" by simp_all
  then show "bit_length (numeral (Num.Bit0 n)) = bit_length (numeral n) + 1"
      "bit_length (numeral (Num.Bit1 n)) = bit_length (numeral n) + 1"
    by (subst bit_length.simps, simp)+
qed

text \<open>Evaluation goes in two steps: the decimal string to a rational, then the roundings.\<close>

lemmas parse_f64_eval = parse_f64_def split_sign_def parse_number_def parse_exponent_def dec_value_def
  is_dec_digit_def to_digit_def ascii_eval

lemmas round_f64_eval = round_f64_def round_half_even_def bit_length_eval Let_def

lemma parse_f64_examples:
  "parse_f64 ''1.5'' = Some (Finite False 6755399441055744 (- 52))"
  "parse_f64 ''2.01'' = Some (Finite False 4526117625507348 (- 51))"
  "parse_f64 ''x'' = None"
proof -
  have "parse_f64 ''1.5'' = Some (round_f64 False 15 10)" "parse_f64 ''2.01'' = Some (round_f64 False 201 100)"
    by (simp_all add: parse_f64_eval)
  then show "parse_f64 ''1.5'' = Some (Finite False 6755399441055744 (- 52))"
      "parse_f64 ''2.01'' = Some (Finite False 4526117625507348 (- 51))"
    by (simp_all add: round_f64_eval)
  show "parse_f64 ''x'' = None" by (simp add: parse_f64_eval)
qed

text \<open>The cast truncates: a decimal fraction that is not a binary one can lose a unit of the result.\<close>

lemma scale_real_examples:
  "scale_real ''1.5'' 1000 = Some 1500"
  "scale_real ''2.01'' 1000 = Some 2009"
  "scale_real ''x'' 1000 = None"
proof -
  have "f64_mul_nat (Finite False 6755399441055744 (- 52)) 1000 = round_f64 False 6755399441055744000 4503599627370496"
    "f64_mul_nat (Finite False 4526117625507348 (- 51)) 1000 = round_f64 False 4526117625507348000 2251799813685248"
    by (simp_all add: f64_mul_nat_def)
  then have "f64_mul_nat (Finite False 6755399441055744 (- 52)) 1000 = Finite False 6597069766656000 (- 42)"
    "f64_mul_nat (Finite False 4526117625507348 (- 51)) 1000 = Finite False 8840073487319039 (- 42)"
    by (simp_all add: round_f64_eval)
  then show "scale_real ''1.5'' 1000 = Some 1500" "scale_real ''2.01'' 1000 = Some 2009" "scale_real ''x'' 1000 = None"
    by (simp_all add: scale_real_def parse_f64_examples f64_as_u64_def narrow_u64_def u64_max_def)
qed

end
