(* ===== verification/Property_Access.thy ===== *)
theory Property_Access
  imports Property_Map Rust_Float
begin

text \<open>
  The typed property accessors of the analyses, \<^verbatim>\<open>crates/spar-analysis/src/property_accessors.rs\<close>,
  with the text readers they fall back to (\<^verbatim>\<open>parse_time_value\<close>, \<^verbatim>\<open>parse_size_value\<close> of
  \<^verbatim>\<open>crates/spar-hir-def/src/property_value.rs\<close>).

  A reading has two levels of option: the outer \<open>None\<close> is a panic (an unchecked 64-bit product that
  overflows, in a build with overflow checks), \<open>Some None\<close> is a property that is absent or cannot
  be read. \<^verbatim>\<open>*val as u64\<close> on a signed value is reduction modulo \<open>2^64\<close>.
\<close>

section \<open>Units\<close>

type_synonym 'a reading = "'a option option"

definition TIME_UNIT_FACTORS :: "(string \<times> u64) list" where
  "TIME_UNIT_FACTORS =
     [(''ps'', 1), (''ns'', 1000), (''us'', 1000000), (''ms'', 1000000000), (''sec'', 1000000000000),
      (''min'', 60000000000000), (''hr'', 3600000000000000)]"

definition SIZE_UNIT_FACTORS :: "(string \<times> u64) list" where
  "SIZE_UNIT_FACTORS =
     [(''bits'', 1), (''Bytes'', 8), (''KByte'', 8 * 1024), (''MByte'', 8 * 1024 * 1024),
      (''GByte'', 8 * 1024 * 1024 * 1024), (''TByte'', 8 * 1024 * 1024 * 1024 * 1024)]"

definition unit_factor :: "(string \<times> u64) list \<Rightarrow> string \<Rightarrow> u64 option" where
  "unit_factor table u = map_option snd (find (\<lambda>e. eq_ignore_ascii_case (fst e) u) table)"

definition u64_mul :: "u64 \<Rightarrow> u64 \<Rightarrow> u64 option" where
  "u64_mul a b = (if a * b > u64_max then None else Some (a * b))"

definition i64_as_u64 :: "int \<Rightarrow> u64" where
  "i64_as_u64 v = nat (v mod 2 ^ 64)"

definition scaled :: "int \<Rightarrow> u64 \<Rightarrow> u64 reading" where
  "scaled v factor = map_option Some (u64_mul (i64_as_u64 v) factor)"

text \<open>\<^verbatim>\<open>parse_time_value\<close> and \<^verbatim>\<open>parse_size_value\<close>: the first unit that is a suffix and leaves a
  number decides. The tables are those of \<^verbatim>\<open>property_value.rs\<close>, with the same entries.\<close>

definition TIME_UNITS :: "(string \<times> u64) list" where
  "TIME_UNITS =
     [(''ps'', 1), (''ns'', 1000), (''us'', 1000000), (''ms'', 1000000000), (''sec'', 1000000000000),
      (''min'', 60000000000000), (''hr'', 3600000000000000)]"

definition SIZE_UNITS :: "(string \<times> u64) list" where
  "SIZE_UNITS =
     [(''bits'', 1), (''Bytes'', 8), (''KByte'', 8 * 1024), (''MByte'', 8 * 1024 * 1024),
      (''GByte'', 8 * 1024 * 1024 * 1024), (''TByte'', 8 * 1024 * 1024 * 1024 * 1024)]"

definition parse_u64 :: "string \<Rightarrow> u64 option" where
  "parse_u64 s = from_str_radix 10 u64_max s"

fun parse_time_loop :: "(string \<times> u64) list \<Rightarrow> string \<Rightarrow> u64 reading" where
  "parse_time_loop [] s = Some None"
| "parse_time_loop ((u, factor) # table) s =
     (case strip_suffix u s of
        None \<Rightarrow> parse_time_loop table s
      | Some num \<Rightarrow>
          let num_str = trim num
          in case parse_u64 num_str of
               Some val \<Rightarrow> map_option Some (u64_mul val factor)
             | None \<Rightarrow> (case scale_real num_str factor of
                         Some ps \<Rightarrow> Some (Some ps)
                       | None \<Rightarrow> parse_time_loop table s))"

definition parse_time_value :: "string \<Rightarrow> u64 reading" where
  "parse_time_value s = parse_time_loop TIME_UNITS (trim s)"

fun parse_size_loop :: "(string \<times> u64) list \<Rightarrow> string \<Rightarrow> u64 reading" where
  "parse_size_loop [] s = Some None"
| "parse_size_loop ((u, factor) # table) s =
     (case Option.bind (strip_suffix u s) (\<lambda>num. parse_u64 (trim num)) of
        Some val \<Rightarrow> map_option Some (u64_mul val factor)
      | None \<Rightarrow> parse_size_loop table s)"

definition parse_size_value :: "string \<Rightarrow> u64 reading" where
  "parse_size_value s = parse_size_loop SIZE_UNITS (trim s)"


section \<open>Extraction from typed expressions\<close>

fun extract_time_ps :: "property_expr \<Rightarrow> u64 reading" where
  "extract_time_ps (Integer v (Some u)) =
     (case unit_factor TIME_UNIT_FACTORS u of None \<Rightarrow> Some None | Some factor \<Rightarrow> scaled v factor)"
| "extract_time_ps (Integer v None) = Some (Some (i64_as_u64 v))"
| "extract_time_ps (Real s (Some u)) =
     (case unit_factor TIME_UNIT_FACTORS u of None \<Rightarrow> Some None | Some factor \<Rightarrow> Some (scale_real s factor))"
| "extract_time_ps (UnitValue inner u) =
     (case unit_factor TIME_UNIT_FACTORS u of
        None \<Rightarrow> Some None
      | Some factor \<Rightarrow>
          (case inner of
             Integer v _ \<Rightarrow> scaled v factor
           | Real s _ \<Rightarrow> Some (scale_real s factor)
           | _ \<Rightarrow> Some None))"
| "extract_time_ps _ = Some None"

fun extract_size_bits :: "property_expr \<Rightarrow> u64 reading" where
  "extract_size_bits (Integer v (Some u)) =
     (case unit_factor SIZE_UNIT_FACTORS u of None \<Rightarrow> Some None | Some factor \<Rightarrow> scaled v factor)"
| "extract_size_bits (Integer v None) = Some (Some (i64_as_u64 v))"
| "extract_size_bits (UnitValue inner u) =
     (case unit_factor SIZE_UNIT_FACTORS u of
        None \<Rightarrow> Some None
      | Some factor \<Rightarrow> (case inner of Integer v _ \<Rightarrow> scaled v factor | _ \<Rightarrow> Some None))"
| "extract_size_bits _ = Some None"

text \<open>Two readings in sequence: the second is taken only if the first has a value.\<close>

definition read_pair :: "u64 reading \<Rightarrow> u64 reading \<Rightarrow> (u64 \<times> u64) reading" where
  "read_pair lo hi =
     (case lo of
        None \<Rightarrow> None
      | Some None \<Rightarrow> Some None
      | Some (Some l) \<Rightarrow> map_option (map_option (Pair l)) hi)"

definition extract_time_range_ps :: "property_expr \<Rightarrow> (u64 \<times> u64) reading" where
  "extract_time_range_ps e =
     (case e of
        Range lo hi _ \<Rightarrow> read_pair (extract_time_ps lo) (extract_time_ps hi)
      | _ \<Rightarrow> map_option (map_option (\<lambda>v. (v, v))) (extract_time_ps e))"

definition extract_typed_reference :: "property_expr \<Rightarrow> string option" where
  "extract_typed_reference e =
     (case e of ReferenceValue s \<Rightarrow> (let s = trim s in if s = [] then None else Some s) | _ \<Rightarrow> None)"

definition extract_bool :: "property_expr \<Rightarrow> bool option" where
  "extract_bool e = (case e of Boolean b \<Rightarrow> Some b | _ \<Rightarrow> None)"

definition extract_integer :: "property_expr \<Rightarrow> u64 option" where
  "extract_integer e = (case e of Integer v _ \<Rightarrow> if v \<ge> 0 then Some (i64_as_u64 v) else None | _ \<Rightarrow> None)"

definition extract_string :: "property_expr \<Rightarrow> string option" where
  "extract_string e = (case e of StringLit s \<Rightarrow> Some s | Enum n \<Rightarrow> Some n | _ \<Rightarrow> None)"

definition extract_reference_target :: "string \<Rightarrow> string option" where
  "extract_reference_target val =
     (let trimmed_val = trim val
      in case find_str ''reference'' trimmed_val of
           None \<Rightarrow> None
         | Some start \<Rightarrow>
             let after_ref = drop (start + length ''reference'') trimmed_val
             in case find_str ''('' after_ref of
                  None \<Rightarrow> None
                | Some paren_start \<Rightarrow>
                    let inner = drop (paren_start + 1) after_ref
                    in case find_str '')'' inner of
                         None \<Rightarrow> None
                       | Some paren_end \<Rightarrow>
                           let target = trim (take paren_end inner)
                           in if target = [] then None else Some target)"


section \<open>Lookup with fallback\<close>

definition or_else :: "'a option \<Rightarrow> 'a option \<Rightarrow> 'a option" where
  "or_else a b = (case a of Some x \<Rightarrow> Some x | None \<Rightarrow> b)"

definition get_typed_qualified :: "property_map \<Rightarrow> string \<Rightarrow> string \<Rightarrow> property_expr option" where
  "get_typed_qualified m pset nm = or_else (get_typed m pset nm) (get_typed m '''' nm)"

definition get_raw_qualified :: "property_map \<Rightarrow> string \<Rightarrow> string \<Rightarrow> string option" where
  "get_raw_qualified m pset nm = or_else (get m pset nm) (get m '''' nm)"

text \<open>\<^verbatim>\<open>if let Some(expr) = e && let Some(v) = extract(expr) { return Some(v); }\<close>, then the fallback.\<close>

definition typed_or :: "(property_expr \<Rightarrow> 'a reading) \<Rightarrow> property_expr option \<Rightarrow> 'a reading \<Rightarrow> 'a reading" where
  "typed_or extract e fallback =
     (case e of
        None \<Rightarrow> fallback
      | Some ex \<Rightarrow> (case extract ex of None \<Rightarrow> None | Some (Some v) \<Rightarrow> Some (Some v) | Some None \<Rightarrow> fallback))"

definition raw_or_none :: "(string \<Rightarrow> 'a reading) \<Rightarrow> string option \<Rightarrow> 'a reading" where
  "raw_or_none rd raw = (case raw of None \<Rightarrow> Some None | Some s \<Rightarrow> rd s)"

definition parse_time_range :: "string \<Rightarrow> (u64 \<times> u64) reading" where
  "parse_time_range raw =
     (case split_once ''..'' raw of
        Some (lo, hi) \<Rightarrow> read_pair (parse_time_value (trim lo)) (parse_time_value (trim hi))
      | None \<Rightarrow> map_option (map_option (\<lambda>v. (v, v))) (parse_time_value raw))"

definition parse_time_max :: "string \<Rightarrow> u64 reading" where
  "parse_time_max raw =
     (case split_once ''..'' raw of Some (_, hi) \<Rightarrow> parse_time_value (trim hi) | None \<Rightarrow> parse_time_value raw)"


section \<open>Accessors\<close>

definition get_timing_property :: "property_map \<Rightarrow> string \<Rightarrow> u64 reading" where
  "get_timing_property m nm =
     typed_or extract_time_ps (get_typed_qualified m ''Timing_Properties'' nm)
       (raw_or_none parse_time_value (get_raw_qualified m ''Timing_Properties'' nm))"

definition extract_time_max :: "property_expr \<Rightarrow> u64 reading" where
  "extract_time_max e = map_option (map_option snd) (extract_time_range_ps e)"

definition get_execution_time :: "property_map \<Rightarrow> u64 reading" where
  "get_execution_time m =
     typed_or extract_time_max (get_typed_qualified m ''Timing_Properties'' ''Compute_Execution_Time'')
       (raw_or_none parse_time_max (get_raw_qualified m ''Timing_Properties'' ''Compute_Execution_Time''))"

definition get_execution_time_range :: "property_map \<Rightarrow> (u64 \<times> u64) reading" where
  "get_execution_time_range m =
     typed_or extract_time_range_ps (get_typed_qualified m ''Timing_Properties'' ''Compute_Execution_Time'')
       (raw_or_none parse_time_range (get_raw_qualified m ''Timing_Properties'' ''Compute_Execution_Time''))"

definition get_execution_time_or_exec :: "property_map \<Rightarrow> u64 reading" where
  "get_execution_time_or_exec m =
     typed_or extract_time_max
       (or_else (get_typed_qualified m ''Timing_Properties'' ''Execution_Time'')
                (get_typed_qualified m ''Timing_Properties'' ''Compute_Execution_Time''))
       (raw_or_none parse_time_max
         (or_else (get_raw_qualified m ''Timing_Properties'' ''Execution_Time'')
                  (get_raw_qualified m ''Timing_Properties'' ''Compute_Execution_Time'')))"

record latency_budget =
  min_ps :: "u64 option"
  max_ps :: u64

fun latency_typed :: "property_map \<Rightarrow> string list \<Rightarrow> latency_budget reading" where
  "latency_typed m [] = Some None"
| "latency_typed m (pset # psets) =
     (case get_typed_qualified m pset ''Latency'' of
        None \<Rightarrow> latency_typed m psets
      | Some (Range lo hi _) \<Rightarrow>
          (case extract_time_ps lo of
             None \<Rightarrow> None
           | Some l \<Rightarrow> (case extract_time_ps hi of
               None \<Rightarrow> None
             | Some h \<Rightarrow> (case (l, h) of
                 (Some l, Some h) \<Rightarrow> Some (Some \<lparr>min_ps = Some l, max_ps = h\<rparr>)
               | _ \<Rightarrow> latency_typed m psets)))
      | Some other \<Rightarrow>
          (case extract_time_ps other of
             None \<Rightarrow> None
           | Some (Some v) \<Rightarrow> Some (Some \<lparr>min_ps = None, max_ps = v\<rparr>)
           | Some None \<Rightarrow> latency_typed m psets))"

definition get_latency_budget :: "property_map \<Rightarrow> latency_budget reading" where
  "get_latency_budget m =
     (let psets = [''Communication_Properties'', ''Timing_Properties'', '''']
      in case latency_typed m psets of
           None \<Rightarrow> None
         | Some (Some b) \<Rightarrow> Some (Some b)
         | Some None \<Rightarrow>
             raw_or_none (\<lambda>raw. case split_once ''..'' raw of
                 Some (lo, hi) \<Rightarrow> map_option (map_option (\<lambda>(l, h). \<lparr>min_ps = Some l, max_ps = h\<rparr>))
                   (read_pair (parse_time_value (trim lo)) (parse_time_value (trim hi)))
               | None \<Rightarrow> map_option (map_option (\<lambda>v. \<lparr>min_ps = None, max_ps = v\<rparr>)) (parse_time_value raw))
               (fold (\<lambda>pset acc. or_else acc (get m pset ''Latency'')) psets None))"

definition get_size_property :: "property_map \<Rightarrow> string \<Rightarrow> u64 reading" where
  "get_size_property m nm =
     typed_or extract_size_bits (get_typed_qualified m ''Memory_Properties'' nm)
       (raw_or_none parse_size_value (get_raw_qualified m ''Memory_Properties'' nm))"

definition typed_or_text :: "('e \<Rightarrow> 'a option) \<Rightarrow> 'e option \<Rightarrow> 'a option \<Rightarrow> 'a option" where
  "typed_or_text extract e fallback = or_else (Option.bind e extract) fallback"

definition get_processor_binding :: "property_map \<Rightarrow> string option" where
  "get_processor_binding m =
     typed_or_text extract_typed_reference (get_typed_qualified m ''Deployment_Properties'' ''Actual_Processor_Binding'')
       (Option.bind (get_raw_qualified m ''Deployment_Properties'' ''Actual_Processor_Binding'') extract_reference_target)"

definition get_memory_binding :: "property_map \<Rightarrow> string option" where
  "get_memory_binding m =
     typed_or_text extract_typed_reference (get_typed_qualified m ''Deployment_Properties'' ''Actual_Memory_Binding'')
       (Option.bind (get_raw_qualified m ''Deployment_Properties'' ''Actual_Memory_Binding'') extract_reference_target)"

definition get_isr_priority :: "property_map \<Rightarrow> u64 option" where
  "get_isr_priority m =
     typed_or_text extract_integer (get_typed_qualified m ''Spar_Timing'' ''ISR_Priority'')
       (Option.bind (get_raw_qualified m ''Spar_Timing'' ''ISR_Priority'') (\<lambda>raw. parse_u64 (trim raw)))"

definition get_isr_execution_time_range :: "property_map \<Rightarrow> (u64 \<times> u64) reading" where
  "get_isr_execution_time_range m =
     typed_or extract_time_range_ps (get_typed_qualified m ''Spar_Timing'' ''ISR_Execution_Time'')
       (raw_or_none parse_time_range (get_raw_qualified m ''Spar_Timing'' ''ISR_Execution_Time''))"

definition get_interrupt_latency_bound :: "property_map \<Rightarrow> u64 reading" where
  "get_interrupt_latency_bound m =
     typed_or extract_time_ps (get_typed_qualified m ''Spar_Timing'' ''Interrupt_Latency_Bound'')
       (raw_or_none parse_time_value (get_raw_qualified m ''Spar_Timing'' ''Interrupt_Latency_Bound''))"

definition get_interrupt_overhead :: "property_map \<Rightarrow> u64 reading" where
  "get_interrupt_overhead m =
     typed_or extract_time_ps (get_typed_qualified m ''Spar_Timing'' ''Interrupt_Overhead'')
       (typed_or extract_time_ps (get_typed_qualified m ''SPAR_Properties'' ''Interrupt_Overhead'')
         (raw_or_none parse_time_value
           (or_else (get m ''Spar_Timing'' ''Interrupt_Overhead'')
             (get_raw_qualified m ''SPAR_Properties'' ''Interrupt_Overhead''))))"

definition get_bottom_half_server :: "property_map \<Rightarrow> string option" where
  "get_bottom_half_server m =
     typed_or_text extract_typed_reference (get_typed_qualified m ''Spar_Timing'' ''Bottom_Half_Server'')
       (Option.bind (get_raw_qualified m ''Spar_Timing'' ''Bottom_Half_Server'') extract_reference_target)"

definition get_dispatch_jitter :: "property_map \<Rightarrow> u64 reading" where
  "get_dispatch_jitter m = get_timing_property m ''Dispatch_Jitter''"

datatype locking_protocol = Pip | Pcp | StopForLock | NoLocking

definition parse_locking_protocol :: "string \<Rightarrow> locking_protocol option" where
  "parse_locking_protocol s =
     (let low = to_ascii_lowercase (trim s)
      in if low = ''priority_inheritance_protocol'' then Some Pip
         else if low = ''priority_ceiling_protocol'' then Some Pcp
         else if low = ''stop_for_lock'' then Some StopForLock
         else if low = ''none'' then Some NoLocking
         else None)"

definition get_locking_protocol :: "property_map \<Rightarrow> locking_protocol option" where
  "get_locking_protocol m =
     Option.bind
       (typed_or_text extract_string (get_typed_qualified m ''Thread_Properties'' ''Locking_Protocol'')
         (map_option trim (get_raw_qualified m ''Thread_Properties'' ''Locking_Protocol'')))
       parse_locking_protocol"

definition get_critical_section_blocking :: "property_map \<Rightarrow> u64 reading" where
  "get_critical_section_blocking m =
     typed_or extract_time_ps (get_typed_qualified m ''Spar_Timing'' ''Critical_Section_Blocking'')
       (raw_or_none parse_time_value (get_raw_qualified m ''Spar_Timing'' ''Critical_Section_Blocking''))"

definition get_dispatch_protocol :: "property_map \<Rightarrow> string option" where
  "get_dispatch_protocol m =
     typed_or_text extract_string (get_typed_qualified m ''Thread_Properties'' ''Dispatch_Protocol'')
       (typed_or_text extract_string (get_typed_qualified m ''Timing_Properties'' ''Dispatch_Protocol'')
         (map_option trim
           (or_else (get m ''Thread_Properties'' ''Dispatch_Protocol'')
             (get_raw_qualified m ''Timing_Properties'' ''Dispatch_Protocol''))))"

definition get_priority :: "property_map \<Rightarrow> u64 option" where
  "get_priority m =
     typed_or_text extract_integer
       (or_else (get_typed m ''Thread_Properties'' ''Priority'')
         (or_else (get_typed m ''Deployment_Properties'' ''Priority'') (get_typed m '''' ''Priority'')))
       (Option.bind
         (or_else (get m ''Thread_Properties'' ''Priority'')
           (or_else (get m ''Deployment_Properties'' ''Priority'') (get m '''' ''Priority'')))
         (\<lambda>raw. parse_u64 (trim raw)))"

section \<open>Properties of \<^verbatim>\<open>AI_ML\<close>\<close>

definition get_inference_latency_range :: "property_map \<Rightarrow> (u64 \<times> u64) reading" where
  "get_inference_latency_range m =
     typed_or extract_time_range_ps (get_typed_qualified m ''AI_ML'' ''Inference_Latency'')
       (raw_or_none parse_time_range (get_raw_qualified m ''AI_ML'' ''Inference_Latency''))"

definition get_fallback_latency :: "property_map \<Rightarrow> u64 reading" where
  "get_fallback_latency m =
     typed_or extract_time_ps (get_typed_qualified m ''AI_ML'' ''Fallback_Latency'')
       (raw_or_none parse_time_value (get_raw_qualified m ''AI_ML'' ''Fallback_Latency''))"

definition get_ai_ml_string :: "property_map \<Rightarrow> string \<Rightarrow> string option" where
  "get_ai_ml_string m nm =
     typed_or_text extract_string (get_typed_qualified m ''AI_ML'' nm) (get_raw_qualified m ''AI_ML'' nm)"

definition get_ai_ml_bool :: "property_map \<Rightarrow> string \<Rightarrow> bool option" where
  "get_ai_ml_bool m nm =
     typed_or_text extract_bool (get_typed_qualified m ''AI_ML'' nm)
       (Option.bind (get_raw_qualified m ''AI_ML'' nm) (\<lambda>raw.
          let low = to_ascii_lowercase (trim raw)
          in if low = ''true'' then Some True else if low = ''false'' then Some False else None))"

definition get_ai_ml_integer :: "property_map \<Rightarrow> string \<Rightarrow> u64 option" where
  "get_ai_ml_integer m nm =
     typed_or_text extract_integer (get_typed_qualified m ''AI_ML'' nm)
       (Option.bind (get_raw_qualified m ''AI_ML'' nm) (\<lambda>raw. parse_u64 (trim raw)))"

definition get_drift_detection_window :: "property_map \<Rightarrow> u64 reading" where
  "get_drift_detection_window m =
     typed_or extract_time_ps (get_typed_qualified m ''AI_ML'' ''Drift_Detection_Window'')
       (raw_or_none parse_time_value (get_raw_qualified m ''AI_ML'' ''Drift_Detection_Window''))"


section \<open>Typed and textual readings\<close>













section \<open>Where the readings go wrong\<close>

text \<open>A fraction is scaled in binary floating point and truncated, so it can be read below its value.\<close>

lemma fractional_time_truncated: "parse_time_value ''2.01 ns'' = Some (Some 2009)"
proof -
  have t: "trim ''2.01 ns'' = ''2.01 ns''" "trim ''2.01 '' = ''2.01''" by (simp_all add: trim_eval)
  have s: "strip_suffix ''ps'' ''2.01 ns'' = None" "strip_suffix ''ns'' ''2.01 ns'' = Some ''2.01 ''"
    by (simp_all add: strip_suffix_def suffix_to_prefix)
  have "parse_u64 ''2.01'' = None" by (simp add: parse_u64_def from_str_radix_def to_digit_def Let_def u64_max_def)
  then show ?thesis by (simp add: parse_time_value_def TIME_UNITS_def t s scale_real_examples)
qed

text \<open>A negative time is read modulo \<open>2^64\<close>.\<close>

lemma negative_time_wraps: "extract_time_ps (Integer (- 5) None) = Some (Some 18446744073709551611)"
  by (simp add: i64_as_u64_def)

text \<open>The unit of a text is matched case by case, that of a typed value is not.\<close>

lemma text_units_case_sensitive:
  "extract_time_ps (Integer 10 (Some ''MS'')) = Some (Some 10000000000)" "parse_time_value ''10 MS'' = Some None"
proof -
  show "extract_time_ps (Integer 10 (Some ''MS'')) = Some (Some 10000000000)"
    by (simp add: unit_factor_def TIME_UNIT_FACTORS_def scaled_def u64_mul_def i64_as_u64_def u64_max_def ascii_eval)
  have "trim ''10 MS'' = ''10 MS''" by (simp add: trim_eval)
  then show "parse_time_value ''10 MS'' = Some None"
    by (simp add: parse_time_value_def TIME_UNITS_def strip_suffix_def suffix_to_prefix)
qed

text \<open>An unqualified value with a typed expression hides a qualified one that has only its text.\<close>

definition shadowed :: property_map where
  "shadowed = add \<lparr>pv_name = demo_ref None ''Period'', pv_value = ''5 ms'', typed_expr = Some (Integer 5 (Some ''ms'')),
                   is_append = False\<rparr>
     (add \<lparr>pv_name = demo_ref (Some ''Timing_Properties'') ''Period'', pv_value = ''10 ms'', typed_expr = None,
           is_append = False\<rparr> property_map_new)"

lemma unqualified_typed_hides_qualified_text:
  "get shadowed ''Timing_Properties'' ''Period'' = Some ''10 ms''"
  "get_timing_property shadowed ''Period'' = Some (Some 5000000000)"
proof -
  have p: "map_of (props shadowed) (ci_name ''Timing_Properties'', ci_name ''Period'') = Some
      [\<lparr>pv_name = demo_ref (Some ''Timing_Properties'') ''Period'', pv_value = ''10 ms'', typed_expr = None, is_append = False\<rparr>]"
    "map_of (props shadowed) (ci_name '''', ci_name ''Period'') = Some
      [\<lparr>pv_name = demo_ref None ''Period'', pv_value = ''5 ms'', typed_expr = Some (Integer 5 (Some ''ms'')), is_append = False\<rparr>]"
    by (simp_all add: shadowed_def add_def add_from_def property_map_new_def key_of_def demo_ref_def ci_name_def
        ascii_eval trim_eval)
  show "get shadowed ''Timing_Properties'' ''Period'' = Some ''10 ms''"
    by (simp add: get_def first_usable_def p value_is_arithmetic_def)
  have "get_typed shadowed ''Timing_Properties'' ''Period'' = None" "get_typed shadowed '''' ''Period'' = Some (Integer 5 (Some ''ms''))"
    by (simp_all add: get_typed_def first_usable_def p value_is_arithmetic_def)
  then show "get_timing_property shadowed ''Period'' = Some (Some 5000000000)"
    by (simp add: get_timing_property_def get_typed_qualified_def or_else_def typed_or_def unit_factor_def
        TIME_UNIT_FACTORS_def scaled_def u64_mul_def i64_as_u64_def u64_max_def ascii_eval)
qed

end
