(* ===== verification/Property_Types.thy ===== *)
theory Property_Types
  imports Property_Map
begin

text \<open>
  The property type system, \<^verbatim>\<open>crates/spar-hir-def/src/property_value.rs\<close>: the checker
  \<^verbatim>\<open>check_type\<close> against a declarative typing relation, and the absolute factor of a unit in a chain
  of unit definitions.

  An error carries the structure of its message: the reason and the path of list elements, record
  fields and range bounds to it. \<^verbatim>\<open>compute_absolute_factor\<close> follows the chain by recursion and need
  not end, so it is a \<open>partial_function\<close> whose outer \<open>None\<close> is non-termination or an overflow of
  \<^verbatim>\<open>i64\<close>.
\<close>

section \<open>Types and errors\<close>

text \<open>Component categories are only carried along by classifier and reference types; their list is
  kept in \<open>category\<close>.\<close>

datatype category =
    System | Process | Thread | ThreadGroup | Processor | VirtualProcessor | Memory | Bus | VirtualBus
  | Device | Subprogram | SubprogramGroup | Data | Abstract

datatype property_type_def =
    AadlInteger "(int \<times> int) option" "name option"
  | AadlReal "(string \<times> string) option" "name option"
  | AadlString
  | AadlBoolean
  | Enumeration "name list"
  | RangeOf property_type_def
  | ClassifierOf "category option"
  | ReferenceTo "category option"
  | RecordType "(name \<times> property_type_def) list"
  | TypeRef name
  | ListOf property_type_def
  | UnitsType "(name \<times> (name \<times> int) option) list"

datatype type_error =
    OutOfRange int int int
  | NotInEnumeration name "name list"
  | Element nat type_error
  | Field name type_error
  | UndeclaredField name
  | RangeMin type_error
  | RangeMax type_error
  | Mismatch property_expr property_type_def

datatype type_check_result = TcOk | TcError type_error | TcSkipped

definition eq_ci :: "name \<Rightarrow> name \<Rightarrow> bool" where
  "eq_ci a b = eq_ignore_ascii_case a b"


section \<open>The checker\<close>

fun check_typed :: "property_expr \<Rightarrow> property_type_def \<Rightarrow> type_check_result"
  and check_items :: "nat \<Rightarrow> property_expr list \<Rightarrow> property_type_def \<Rightarrow> type_check_result"
  and check_fields :: "(name \<times> property_expr) list \<Rightarrow> (name \<times> property_type_def) list \<Rightarrow> type_check_result" where
  "check_typed (Integer v u) t =
     (case t of
        AadlInteger rng _ \<Rightarrow>
          (case rng of
             Some (lo, hi) \<Rightarrow> if v < lo \<or> v > hi then TcError (OutOfRange v lo hi) else TcOk
           | None \<Rightarrow> TcOk)
      | AadlReal _ _ \<Rightarrow> TcOk
      | _ \<Rightarrow> TcError (Mismatch (Integer v u) t))"
| "check_typed (UnitValue inner u) t =
     (case t of
        AadlInteger _ _ \<Rightarrow> check_typed inner t
      | AadlReal _ _ \<Rightarrow> check_typed inner t
      | _ \<Rightarrow> TcError (Mismatch (UnitValue inner u) t))"
| "check_typed (Real r u) t = (case t of AadlReal _ _ \<Rightarrow> TcOk | _ \<Rightarrow> TcError (Mismatch (Real r u) t))"
| "check_typed (StringLit l) t = (case t of AadlString \<Rightarrow> TcOk | _ \<Rightarrow> TcError (Mismatch (StringLit l) t))"
| "check_typed (Boolean b) t = (case t of AadlBoolean \<Rightarrow> TcOk | _ \<Rightarrow> TcError (Mismatch (Boolean b) t))"
| "check_typed (Enum v) t =
     (case t of
        Enumeration variants \<Rightarrow> if list_ex (\<lambda>x. eq_ci x v) variants then TcOk else TcError (NotInEnumeration v variants)
      | _ \<Rightarrow> TcError (Mismatch (Enum v) t))"
| "check_typed (ListExpr items) t =
     (case t of ListOf el \<Rightarrow> check_items 0 items el | _ \<Rightarrow> TcError (Mismatch (ListExpr items) t))"
| "check_typed (RecordExpr flds) t =
     (case t of RecordType fts \<Rightarrow> check_fields flds fts | _ \<Rightarrow> TcError (Mismatch (RecordExpr flds) t))"
| "check_typed (Range lo hi delta) t =
     (case t of
        RangeOf inner \<Rightarrow>
          (case check_typed lo inner of
             TcError e \<Rightarrow> TcError (RangeMin e)
           | _ \<Rightarrow> (case check_typed hi inner of TcError e \<Rightarrow> TcError (RangeMax e) | _ \<Rightarrow> TcOk))
      | _ \<Rightarrow> TcError (Mismatch (Range lo hi delta) t))"
| "check_typed (ClassifierValue c) t = (case t of ClassifierOf _ \<Rightarrow> TcOk | _ \<Rightarrow> TcError (Mismatch (ClassifierValue c) t))"
| "check_typed (ReferenceValue r) t = (case t of ReferenceTo _ \<Rightarrow> TcOk | _ \<Rightarrow> TcError (Mismatch (ReferenceValue r) t))"
| "check_typed e t = TcError (Mismatch e t)"
| "check_items i [] el = TcOk"
| "check_items i (x # xs) el =
     (case check_typed x el of TcError e \<Rightarrow> TcError (Element i e) | _ \<Rightarrow> check_items (i + 1) xs el)"
| "check_fields [] fts = TcOk"
| "check_fields ((n, v) # fs) fts =
     (case find (\<lambda>ft. eq_ci (fst ft) n) fts of
        Some (_, ft) \<Rightarrow> (case check_typed v ft of TcError e \<Rightarrow> TcError (Field n e) | _ \<Rightarrow> check_fields fs fts)
      | None \<Rightarrow> TcError (UndeclaredField n))"

definition check_type :: "property_expr \<Rightarrow> property_type_def \<Rightarrow> type_check_result" where
  "check_type e t = (case e of Opaque _ \<Rightarrow> TcSkipped | _ \<Rightarrow> check_typed e t)"


section \<open>The typing relation\<close>

inductive has_type :: "property_expr \<Rightarrow> property_type_def \<Rightarrow> bool" where
  integer: "case rng of Some (lo, hi) \<Rightarrow> lo \<le> v \<and> v \<le> hi | None \<Rightarrow> True \<Longrightarrow> has_type (Integer v u) (AadlInteger rng us)"
| integer_real: "has_type (Integer v u) (AadlReal rng us)"
| real: "has_type (Real r u) (AadlReal rng us)"
| unit_integer: "has_type e (AadlInteger rng us) \<Longrightarrow> has_type (UnitValue e u) (AadlInteger rng us)"
| unit_real: "has_type e (AadlReal rrng us) \<Longrightarrow> has_type (UnitValue e u) (AadlReal rrng us)"
| string: "has_type (StringLit l) AadlString"
| boolean: "has_type (Boolean b) AadlBoolean"
| enumeration: "x \<in> set variants \<Longrightarrow> eq_ci x v \<Longrightarrow> has_type (Enum v) (Enumeration variants)"
| list_items: "\<forall>x \<in> set items. has_type x el \<Longrightarrow> has_type (ListExpr items) (ListOf el)"
| record_fields: "\<forall>f \<in> set flds. \<exists>ft. find (\<lambda>d. eq_ci (fst d) (fst f)) fts = Some ft \<and> has_type (snd f) (snd ft)
    \<Longrightarrow> has_type (RecordExpr flds) (RecordType fts)"
| range: "has_type lo inner \<Longrightarrow> has_type hi inner \<Longrightarrow> has_type (Range lo hi delta) (RangeOf inner)"
| classifier: "has_type (ClassifierValue c) (ClassifierOf cat)"
| reference: "has_type (ReferenceValue r) (ReferenceTo cat)"

inductive_simps has_type_simps [simp]:
  "has_type (Integer v u) t" "has_type (Real r u) t" "has_type (UnitValue e u) t" "has_type (StringLit l) t"
  "has_type (Boolean b) t" "has_type (Enum v) t" "has_type (ListExpr items) t" "has_type (RecordExpr flds) t"
  "has_type (Range lo hi delta) t" "has_type (ClassifierValue c) t" "has_type (ReferenceValue r) t"
  "has_type (ComputedValue n) t" "has_type (BinaryOp k a b) t" "has_type (ValueRef n) t" "has_type (Opaque o1) t"




text \<open>An opaque value inside a list is a type error, not a skipped value: the recursion never skips.\<close>

lemma nested_opaque_rejected:
  "check_type (ListExpr [Opaque o1]) (ListOf t) = TcError (Element 0 (Mismatch (Opaque o1) t))"
  by (simp add: check_type_def)

text \<open>The step of a range and the bounds of a real type are not checked.\<close>

lemma range_step_unchecked:
  "check_type (Range lo hi (Some (BinaryOp k a b))) t = check_type (Range lo hi None) t
     \<or> (\<exists>err. check_type (Range lo hi (Some (BinaryOp k a b))) t = TcError err)"
  by (auto simp: check_type_def split: property_type_def.splits type_check_result.splits)


section \<open>Unit chains\<close>

type_synonym units = "(name \<times> (name \<times> int) option) list"

definition i64_fits :: "int \<Rightarrow> bool" where
  "i64_fits x \<longleftrightarrow> - (2 ^ 63) \<le> x \<and> x < 2 ^ 63"

partial_function (option) compute_absolute_factor :: "units \<Rightarrow> string \<Rightarrow> int option option" where
  "compute_absolute_factor units unit_name =
     (case find (\<lambda>u. eq_ignore_ascii_case (fst u) unit_name) units of
        None \<Rightarrow> Some None
      | Some (_, None) \<Rightarrow> Some (Some 1)
      | Some (_, Some (base_name, factor)) \<Rightarrow>
          Option.bind (compute_absolute_factor units base_name) (\<lambda>base.
            (case base of
               None \<Rightarrow> Some None
             | Some b \<Rightarrow> if i64_fits (b * factor) then Some (Some (b * factor)) else None)))"

text \<open>What the chain of a unit comes to: nothing if it ends in an unknown unit, otherwise the product of
  its factors.\<close>

inductive resolves :: "units \<Rightarrow> string \<Rightarrow> int option \<Rightarrow> bool" for units where
  unknown: "find (\<lambda>u. eq_ignore_ascii_case (fst u) n) units = None \<Longrightarrow> resolves units n None"
| base_unit: "find (\<lambda>u. eq_ignore_ascii_case (fst u) n) units = Some (m, None) \<Longrightarrow> resolves units n (Some 1)"
| derived_unknown: "find (\<lambda>u. eq_ignore_ascii_case (fst u) n) units = Some (m, Some (b, f)) \<Longrightarrow>
    resolves units b None \<Longrightarrow> resolves units n None"
| derived: "find (\<lambda>u. eq_ignore_ascii_case (fst u) n) units = Some (m, Some (b, f)) \<Longrightarrow>
    resolves units b (Some v) \<Longrightarrow> i64_fits (v * f) \<Longrightarrow> resolves units n (Some (v * f))"

definition defined_by :: "units \<Rightarrow> string \<Rightarrow> string \<Rightarrow> bool" where
  "defined_by units n b \<longleftrightarrow> (\<exists>m f. find (\<lambda>u. eq_ignore_ascii_case (fst u) n) units = Some (m, Some (b, f)))"

lemma absolute_factor_complete: "resolves units n r \<Longrightarrow> compute_absolute_factor units n = Some r"
  by (induction rule: resolves.induct) (subst compute_absolute_factor.simps; simp)+

lemma absolute_factor_sound: "compute_absolute_factor units n = Some r \<Longrightarrow> resolves units n r"
proof (erule compute_absolute_factor.raw_induct [where P = resolves, rotated], goal_cases)
  case (1 self units n r)
  show ?case
  proof (cases "find (\<lambda>u. eq_ignore_ascii_case (fst u) n) units")
    case None
    then show ?thesis using 1(2) by (simp add: resolves.unknown)
  next
    case (Some u)
    then obtain m d where u: "find (\<lambda>u. eq_ignore_ascii_case (fst u) n) units = Some (m, d)" by (cases u) simp
    show ?thesis
    proof (cases d)
      case None
      with u 1(2) show ?thesis by (auto intro: resolves.base_unit)
    next
      case (Some bf)
      then obtain b f where d: "d = Some (b, f)" by (cases bf) simp
      with u 1(2) obtain base where base: "self units b = Some base"
        and r: "(case base of None \<Rightarrow> Some None
             | Some b \<Rightarrow> if i64_fits (b * f) then Some (Some (b * f)) else None) = Some r"
        by (auto simp: bind_eq_Some_conv)
      from 1(1) [OF base] r show ?thesis
        using u d by (auto split: option.splits if_splits intro: resolves.derived resolves.derived_unknown)
    qed
  qed
qed

lemma resolves_acc: "resolves units n r \<Longrightarrow> Wellfounded.accp (\<lambda>b n. defined_by units n b) n"
  by (induction rule: resolves.induct) (rule accpI; auto simp: defined_by_def)+

lemma acc_no_cycle: "Wellfounded.accp r x \<Longrightarrow> \<not> r\<^sup>+\<^sup>+ x x"
proof (induction rule: accp.induct)
  case (accI x)
  show ?case
  proof
    assume "r\<^sup>+\<^sup>+ x x"
    then obtain y where "r y x" "r\<^sup>*\<^sup>* x y" by (metis tranclpD tranclp.cases rtranclp.rtrancl_refl tranclp_into_rtranclp)
    then have "r\<^sup>+\<^sup>+ y y" by (metis rtranclp_into_tranclp2)
    with accI \<open>r y x\<close> show False by blast
  qed
qed

text \<open>Units that are defined by themselves, directly or through others: the recursion never returns.\<close>

lemma cyclic_units_diverge:
  assumes "(\<lambda>b n. defined_by units n b)\<^sup>+\<^sup>+ n n"
  shows "compute_absolute_factor units n = None"
proof (rule ccontr)
  assume "compute_absolute_factor units n \<noteq> None"
  then obtain r where "compute_absolute_factor units n = Some r" by blast
  from acc_no_cycle [OF resolves_acc [OF absolute_factor_sound [OF this]]] assms show False by contradiction
qed

text \<open>C23. The absolute factor of a unit is computed for every unit whose chain of definitions is
  acyclic (some rank goes down along it) and whose products fit 64 bits: the recursion ends, and the
  result is the product of the factors along the chain, or nothing if the chain ends in an unknown
  unit.\<close>

theorem absolute_factor_terminates:
  assumes "\<forall>n b. defined_by units n b \<longrightarrow> rank b < (rank n :: nat)"
    and "\<forall>n m b f v. find (\<lambda>u. eq_ignore_ascii_case (fst u) n) units = Some (m, Some (b, f)) \<longrightarrow>
      resolves units b (Some v) \<longrightarrow> i64_fits (v * f)"
  shows "\<exists>r. compute_absolute_factor units n = Some r \<and> resolves units n r"
proof (induction "rank n" arbitrary: n rule: less_induct)
  case less
  show ?case
  proof (cases "\<exists>b. defined_by units n b")
    case False
    then have "\<exists>r. resolves units n r"
    proof (cases "find (\<lambda>u. eq_ignore_ascii_case (fst u) n) units")
      case None
      then show ?thesis by (blast intro: resolves.unknown)
    next
      case (Some u)
      then obtain m d where u: "find (\<lambda>u. eq_ignore_ascii_case (fst u) n) units = Some (m, d)" by (cases u) simp
      have "d = None" using False u by (cases d) (auto simp: defined_by_def)
      with u show ?thesis by (blast intro: resolves.base_unit)
    qed
    then show ?thesis using absolute_factor_complete by blast
  next
    case True
    then obtain b m f where b: "find (\<lambda>u. eq_ignore_ascii_case (fst u) n) units = Some (m, Some (b, f))"
      "defined_by units n b" by (auto simp: defined_by_def)
    obtain r where r: "resolves units b r" using less [of b] assms(1) b(2) by blast
    have "\<exists>r. resolves units n r"
      using r b(1) assms(2) resolves.derived resolves.derived_unknown by (cases r) blast+
    then show ?thesis using absolute_factor_complete by blast
  qed
qed

text \<open>Picoseconds and nanoseconds, and two units defined by each other.\<close>

definition demo_units :: units where
  "demo_units = [(''ps'', None), (''ns'', Some (''ps'', 1000))]"

definition cyclic_units :: units where
  "cyclic_units = [(''a'', Some (''b'', 2)), (''b'', Some (''a'', 3))]"

lemma demo_units_find:
  "find (\<lambda>u. eq_ignore_ascii_case (fst u) n) demo_units = Some (m, Some (b, f)) \<longleftrightarrow>
     \<not> eq_ignore_ascii_case ''ps'' n \<and> eq_ignore_ascii_case ''ns'' n \<and> m = ''ns'' \<and> b = ''ps'' \<and> f = 1000"
  by (auto simp: demo_units_def)

lemma demo_units_base: "find (\<lambda>u. eq_ignore_ascii_case (fst u) ''ps'') demo_units = Some (''ps'', None)"
  by (simp add: demo_units_def eq_ignore_ascii_case_def)

theorem absolute_factor_terminates_witness:
  "\<exists>r. compute_absolute_factor demo_units ''NS'' = Some r \<and> resolves demo_units ''NS'' r"
proof (rule absolute_factor_terminates [of demo_units "\<lambda>n. if eq_ignore_ascii_case ''ps'' n then 0 else 1" "''NS''"])
  show "\<forall>n b. defined_by demo_units n b \<longrightarrow>
      (if eq_ignore_ascii_case ''ps'' b then 0 else 1) < ((if eq_ignore_ascii_case ''ps'' n then 0 else 1) :: nat)"
    by (auto simp: defined_by_def demo_units_find) (simp add: eq_ignore_ascii_case_def)
  have one: "v = 1" if "resolves demo_units ''ps'' (Some v)" for v
    using that demo_units_base by (cases rule: resolves.cases) auto
  show "\<forall>n m b f v. find (\<lambda>u. eq_ignore_ascii_case (fst u) n) demo_units = Some (m, Some (b, f)) \<longrightarrow>
      resolves demo_units b (Some v) \<longrightarrow> i64_fits (v * f)"
    by (auto simp: demo_units_find i64_fits_def dest: one)
qed

lemma cyclic_units_never_return: "compute_absolute_factor cyclic_units ''a'' = None"
proof (rule cyclic_units_diverge)
  have "defined_by cyclic_units ''a'' ''b''" "defined_by cyclic_units ''b'' ''a''"
    by (simp_all add: defined_by_def cyclic_units_def ascii_eval)
  then show "(\<lambda>b n. defined_by cyclic_units n b)\<^sup>+\<^sup>+ ''a'' ''a''"
    by (meson tranclp.r_into_trancl tranclp.trancl_into_trancl)
qed

end
