(* ===== verification/Sys_Instance.thy ===== *)
theory Sys_Instance
  imports Property_Access Property_Types
begin

text \<open>
  The instance model as the analyses see it, \<^verbatim>\<open>crates/spar-hir-def/src/instance.rs\<close> and
  \<^verbatim>\<open>overlay.rs\<close>: components with their parents and children, property tables, system operation
  modes; instance paths, resolution of references from their declaring component, and the processor a
  component is bound to. \<^verbatim>\<open>crates/spar-analysis/src/modal.rs\<close> and \<^verbatim>\<open>lib.rs\<close> contribute the activity
  test and \<^verbatim>\<open>component_path\<close>.

  Of the structures the fields these functions, and the ones in the theories that import this one, read
  are kept: features, flows, classifiers, their property tables and error models are left out. Indexing an arena is \<open>nth_opt\<close>, whose
  \<open>None\<close> is a panic. A walk up the parents runs on fuel, the number of components: by
  \<open>ancestors_total\<close> that is enough for every parent relation without a cycle, and on a cycle the
  source does not return either.
\<close>

section \<open>State\<close>

record component_instance =
  comp_name :: name
  comp_category :: category
  comp_parent :: "idx option"
  comp_children :: "idx list"
  comp_connections :: "idx list"
  comp_modes :: "idx list"
  comp_mode_transitions :: "idx list"
  comp_array_index :: "u64 option"
  comp_in_modes :: "name list"

datatype connection_kind = PortConn | AccessConn | FeatureGroupConn | FeatureConn | ParameterConn

record connection_end =
  ce_subcomponent :: "name option"
  ce_feature :: name

record connection_instance =
  conn_name :: name
  conn_kind :: connection_kind
  conn_is_bidirectional :: bool
  conn_owner :: idx
  conn_src :: "connection_end option"
  conn_dst :: "connection_end option"
  conn_in_modes :: "name list"

record mode_instance =
  mode_name :: name
  mode_is_initial :: bool
  mode_owner :: idx

record mode_transition_instance =
  mt_name :: "name option"
  mt_source :: name
  mt_destination :: name
  mt_triggers :: "name list"
  mt_owner :: idx

record semantic_connection =
  sc_name :: name
  sc_kind :: connection_kind
  sc_source :: "idx \<times> name"
  sc_destination :: "idx \<times> name"
  sc_path :: "idx list"

record system_operation_mode =
  som_name :: string
  mode_selections :: "(idx \<times> idx) list"

text \<open>The diagnostics of the computations modelled here, with what their messages print.\<close>

datatype instance_message =
    MissingEndpoint name
  | UnresolvedSource name name
  | UnresolvedDestination name name
  | UnequalArrays name nat nat
  | SomsTruncated "u64 option" nat

record instance_diagnostic =
  diag_message :: instance_message
  diag_path :: "name list"

record system_instance =
  inst_root :: idx
  components :: "component_instance list"
  connections :: "connection_instance list"
  mode_instances :: "mode_instance list"
  mode_transition_instances :: "mode_transition_instance list"
  inst_diagnostics :: "instance_diagnostic list"
  property_maps :: "(idx \<times> property_map) list"
  semantic_connections :: "semantic_connection list"
  system_operation_modes :: "system_operation_mode list"

definition properties_for :: "system_instance \<Rightarrow> idx \<Rightarrow> property_map" where
  "properties_for inst i = (case map_of (property_maps inst) i of Some m \<Rightarrow> m | None \<Rightarrow> property_map_new)"

definition has_modal_property_values :: "system_instance \<Rightarrow> bool" where
  "has_modal_property_values inst \<longleftrightarrow> list_ex (\<lambda>e. has_modal_values (snd e)) (property_maps inst)"

text \<open>The mode a system operation mode selects for a component: the first selected mode it owns. The
  arena index of a selection is checked when it is looked at.\<close>

fun selected_mode :: "system_instance \<Rightarrow> (idx \<times> idx) list \<Rightarrow> idx \<Rightarrow> string option option" where
  "selected_mode inst [] c = Some None"
| "selected_mode inst ((_, mi) # sels) c =
     (case nth_opt (mode_instances inst) mi of
        None \<Rightarrow> None
      | Some m \<Rightarrow> if mode_owner m = c then Some (Some (mode_name m)) else selected_mode inst sels c)"

definition properties_in_som :: "system_instance \<Rightarrow> idx \<Rightarrow> system_operation_mode \<Rightarrow> property_map option" where
  "properties_in_som inst i som =
     (let m = properties_for inst i; sel = selected_mode inst (mode_selections som)
      in if list_ex (\<lambda>(k, b). sel (mode_context b) = None) (modal m) then None
         else Some (in_mode (\<lambda>c. case sel c of Some r \<Rightarrow> r | None \<Rightarrow> None) m))"

definition is_component_active_in_som :: "system_instance \<Rightarrow> idx \<Rightarrow> system_operation_mode \<Rightarrow> bool option" where
  "is_component_active_in_som inst i som = do {
     c \<leftarrow> nth_opt (components inst) i;
     (if comp_in_modes c = [] then Some True
      else case comp_parent c of
        None \<Rightarrow> Some True
      | Some p \<Rightarrow>
          (case selected_mode inst (mode_selections som) p of
             None \<Rightarrow> None
           | Some None \<Rightarrow> Some True
           | Some (Some mode) \<Rightarrow> Some (list_ex (\<lambda>m. eq_ignore_ascii_case m mode) (comp_in_modes c)))) }"


section \<open>Paths\<close>

text \<open>The component and its ancestors, itself first.\<close>

fun ancestors :: "system_instance \<Rightarrow> nat \<Rightarrow> idx \<Rightarrow> idx list option" where
  "ancestors inst 0 i = None"
| "ancestors inst (Suc n) i =
     (case nth_opt (components inst) i of
        None \<Rightarrow> None
      | Some c \<Rightarrow> (case comp_parent c of
                    None \<Rightarrow> Some [i]
                  | Some p \<Rightarrow> map_option (Cons i) (ancestors inst n p)))"

definition component_path :: "system_instance \<Rightarrow> idx \<Rightarrow> string list option" where
  "component_path inst i =
     map_option (\<lambda>as. rev (map (\<lambda>a. comp_name (components inst ! a)) as)) (ancestors inst (length (components inst)) i)"

fun join_with :: "string \<Rightarrow> string list \<Rightarrow> string" where
  "join_with sep [] = []"
| "join_with sep [s] = s"
| "join_with sep (s # ss) = s @ sep @ join_with sep ss"

definition component_instance_path :: "system_instance \<Rightarrow> idx \<Rightarrow> string option" where
  "component_instance_path inst i = map_option (join_with ''/'') (component_path inst i)"

definition component_depth :: "system_instance \<Rightarrow> idx \<Rightarrow> nat option" where
  "component_depth inst i = map_option (\<lambda>as. length as - 1) (ancestors inst (length (components inst)) i)"


section \<open>References\<close>

fun split_chars :: "char set \<Rightarrow> string \<Rightarrow> string list" where
  "split_chars seps [] = [[]]"
| "split_chars seps (c # cs) =
     (if c \<in> seps then [] # split_chars seps cs
      else case split_chars seps cs of p # ps \<Rightarrow> (c # p) # ps | [] \<Rightarrow> [[c]])"

definition path_segments :: "char set \<Rightarrow> string \<Rightarrow> string list" where
  "path_segments seps path = filter (\<lambda>s. s \<noteq> []) (map trim (split_chars seps path))"

fun find_child :: "system_instance \<Rightarrow> string \<Rightarrow> idx list \<Rightarrow> idx option option" where
  "find_child inst seg [] = Some None"
| "find_child inst seg (c # cs) =
     (case nth_opt (components inst) c of
        None \<Rightarrow> None
      | Some cmp \<Rightarrow> if eq_ignore_ascii_case (comp_name cmp) seg then Some (Some c) else find_child inst seg cs)"

fun walk_children :: "system_instance \<Rightarrow> idx \<Rightarrow> string list \<Rightarrow> idx option option" where
  "walk_children inst from [] = Some (Some from)"
| "walk_children inst from (seg # rest) =
     (case nth_opt (components inst) from of
        None \<Rightarrow> None
      | Some cmp \<Rightarrow>
          (case find_child inst seg (comp_children cmp) of
             None \<Rightarrow> None
           | Some None \<Rightarrow> Some None
           | Some (Some child) \<Rightarrow> walk_children inst child rest))"

definition resolve_reference :: "system_instance \<Rightarrow> idx \<Rightarrow> string \<Rightarrow> idx option option" where
  "resolve_reference inst ctx path =
     (let segments = path_segments {CHR ''.'', CHR ''/''} path
      in if segments = [] then Some None
      else case walk_children inst ctx segments of
        None \<Rightarrow> None
      | Some (Some i) \<Rightarrow> Some (Some i)
      | Some None \<Rightarrow>
          (case nth_opt (components inst) (inst_root inst) of
             None \<Rightarrow> None
           | Some r \<Rightarrow>
               let root_name = comp_name r;
                   written = map (\<lambda>c. if c = CHR ''/'' then CHR ''.'' else c) (trim path);
                   n = length root_name
               in if n < length written \<and> written ! n = CHR ''.''
                     \<and> eq_ignore_ascii_case (take n written) root_name
                  then walk_children inst (inst_root inst) (path_segments {CHR ''.''} (drop (Suc n) written))
                  else Some None))"

definition inst_reference_context :: "system_instance \<Rightarrow> idx \<Rightarrow> string \<Rightarrow> string \<Rightarrow> idx" where
  "inst_reference_context inst cmp pset nm =
     (let m = properties_for inst cmp;
          key_set = (if get m pset nm \<noteq> None then pset else '''')
      in case reference_context m key_set nm of Some c \<Rightarrow> c | None \<Rightarrow> cmp)"

fun collect_reference_names :: "property_expr \<Rightarrow> string list" where
  "collect_reference_names (ReferenceValue s) = (let t = trim s in if t = [] then [] else [t])"
| "collect_reference_names (ListExpr items) = concat (map collect_reference_names items)"
| "collect_reference_names _ = []"

function parse_reference_list :: "string \<Rightarrow> string list" where
  "parse_reference_list rest =
     (case find_str ''reference'' rest of
        None \<Rightarrow> []
      | Some i \<Rightarrow>
          let rest = drop (i + length ''reference'') rest
          in case find_str ''('' rest of
               None \<Rightarrow> []
             | Some op \<Rightarrow>
                 (case find_str '')'' (drop (op + 1) rest) of
                    None \<Rightarrow> []
                  | Some cl \<Rightarrow>
                      let inner = trim (take cl (drop (op + 1) rest));
                          tail = parse_reference_list (drop (op + 1 + cl + 1) rest)
                      in if inner = [] then tail else inner # tail))"
  by pat_completeness auto

lemma find_str_length: "find_str pat s = Some i \<Longrightarrow> i + length pat \<le> length s"
  by (induction s arbitrary: i) (auto split: if_splits dest: prefix_length_le)

termination parse_reference_list
  by (relation "measure length") (auto dest!: find_str_length)

declare parse_reference_list.simps [simp del]

definition read_actual_processor_binding_name :: "property_map \<Rightarrow> string option" where
  "read_actual_processor_binding_name m =
     (case Option.bind (get_typed m ''Deployment_Properties'' ''Actual_Processor_Binding'')
             (\<lambda>e. case collect_reference_names e of n # _ \<Rightarrow> Some n | [] \<Rightarrow> None) of
        Some n \<Rightarrow> Some n
      | None \<Rightarrow>
          Option.bind (get_raw_qualified m ''Deployment_Properties'' ''Actual_Processor_Binding'')
            (\<lambda>raw. case parse_reference_list raw of n # _ \<Rightarrow> Some n | [] \<Rightarrow> None))"

text \<open>\<^verbatim>\<open>actual_processor_binding_with_overlay\<close> without an overlay.\<close>

definition actual_processor_binding :: "system_instance \<Rightarrow> idx \<Rightarrow> idx option option" where
  "actual_processor_binding inst cmp =
     (case read_actual_processor_binding_name (properties_for inst cmp) of
        None \<Rightarrow> Some None
      | Some target \<Rightarrow>
          resolve_reference inst
            (inst_reference_context inst cmp ''Deployment_Properties'' ''Actual_Processor_Binding'') target)"

text \<open>\<^verbatim>\<open>resolve_dotted_path\<close>, for user input: the deepest component whose name, or whose path's end,
  matches; among equally deep ones the last.\<close>

definition prefer_deeper :: "idx \<Rightarrow> nat \<Rightarrow> (idx \<times> nat) option \<Rightarrow> (idx \<times> nat) option" where
  "prefer_deeper i d best = (case best of None \<Rightarrow> Some (i, d) | Some (j, e) \<Rightarrow> if d \<ge> e then Some (i, d) else best)"

fun dotted_loop :: "system_instance \<Rightarrow> (component_instance \<Rightarrow> string \<Rightarrow> bool) \<Rightarrow> idx list \<Rightarrow> (idx \<times> nat) option
    \<Rightarrow> (idx \<times> nat) option option" where
  "dotted_loop inst hit [] best = Some best"
| "dotted_loop inst hit (i # is) best =
     (case component_instance_path inst i of
        None \<Rightarrow> None
      | Some path \<Rightarrow>
          if hit (components inst ! i) path
          then dotted_loop inst hit is (prefer_deeper i (length (filter (\<lambda>c. c = CHR ''/'') path)) best)
          else dotted_loop inst hit is best)"

definition resolve_dotted_path :: "system_instance \<Rightarrow> string \<Rightarrow> idx option option" where
  "resolve_dotted_path inst nm =
     (let needle = map (\<lambda>c. if c = CHR ''.'' then CHR ''/'' else c) nm;
          is_path = (CHR ''/'' \<in> set needle);
          hit = (\<lambda>c path. if is_path then suffix (to_ascii_lowercase needle) (to_ascii_lowercase path)
                          else eq_ignore_ascii_case (comp_name c) nm)
      in map_option (map_option fst) (dotted_loop inst hit [0..<length (components inst)] None))"


section \<open>Walking up ends\<close>

text \<open>Parents are components, and some rank goes down along them.\<close>

definition parents_ranked :: "system_instance \<Rightarrow> (idx \<Rightarrow> nat) \<Rightarrow> bool" where
  "parents_ranked inst rank \<longleftrightarrow> (\<forall>i < length (components inst).
     case comp_parent (components inst ! i) of None \<Rightarrow> True | Some p \<Rightarrow> p < length (components inst) \<and> rank p < rank i)"

lemma ancestors_fuel:
  assumes "parents_ranked inst rank"
  shows "i < length (components inst) \<Longrightarrow> card {j. j < length (components inst) \<and> rank j \<le> rank i} \<le> n \<Longrightarrow>
    ancestors inst n i \<noteq> None"
proof (induction n arbitrary: i)
  case 0
  then have "{j. j < length (components inst) \<and> rank j \<le> rank i} = {}" by simp
  with 0 show ?case by blast
next
  case (Suc n)
  show ?case
  proof (cases "comp_parent (components inst ! i)")
    case None
    then show ?thesis using Suc.prems by (simp add: nth_opt_def)
  next
    case (Some p)
    have p: "p < length (components inst)" "rank p < rank i"
      using assms [unfolded parents_ranked_def, rule_format, OF Suc.prems(1)] Some by simp_all
    have "{j. j < length (components inst) \<and> rank j \<le> rank p} \<subset> {j. j < length (components inst) \<and> rank j \<le> rank i}"
    proof
      show "{j. j < length (components inst) \<and> rank j \<le> rank p} \<subseteq> {j. j < length (components inst) \<and> rank j \<le> rank i}"
        using p(2) by auto
      have "i \<in> {j. j < length (components inst) \<and> rank j \<le> rank i}" using Suc.prems(1) by simp
      moreover have "i \<notin> {j. j < length (components inst) \<and> rank j \<le> rank p}" using p(2) by simp
      ultimately show "{j. j < length (components inst) \<and> rank j \<le> rank p} \<noteq> {j. j < length (components inst) \<and> rank j \<le> rank i}"
        by blast
    qed
    from psubset_card_mono [OF _ this] have "card {j. j < length (components inst) \<and> rank j \<le> rank p} \<le> n"
      using Suc.prems(2) by simp
    with Suc.IH [OF p(1)] Some Suc.prems(1) show ?thesis by (simp add: nth_opt_def)
  qed
qed

lemma ancestors_total:
  assumes "parents_ranked inst rank" "i < length (components inst)"
  shows "ancestors inst (length (components inst)) i \<noteq> None"
proof (rule ancestors_fuel [OF assms])
  have "card {j. j < length (components inst) \<and> rank j \<le> rank i} \<le> card {..<length (components inst)}"
    by (intro card_mono) auto
  then show "card {j. j < length (components inst) \<and> rank j \<le> rank i} \<le> length (components inst)" by simp
qed


section \<open>References name what they say\<close>

text \<open>Components reached from \<open>from\<close> by child names, and models in which a name picks one child.\<close>

inductive descends :: "system_instance \<Rightarrow> idx \<Rightarrow> string list \<Rightarrow> idx \<Rightarrow> bool" for inst where
  here: "descends inst from [] from"
| child: "from < length (components inst) \<Longrightarrow> c \<in> set (comp_children (components inst ! from)) \<Longrightarrow>
    descends inst c rest to \<Longrightarrow> descends inst from (comp_name (components inst ! c) # rest) to"

definition siblings_unique :: "system_instance \<Rightarrow> bool" where
  "siblings_unique inst \<longleftrightarrow> (\<forall>p < length (components inst). \<forall>a \<in> set (comp_children (components inst ! p)).
     a < length (components inst) \<and> (\<forall>b \<in> set (comp_children (components inst ! p)).
       eq_ignore_ascii_case (comp_name (components inst ! a)) (comp_name (components inst ! b)) \<longrightarrow> a = b))"

definition clean_name :: "string \<Rightarrow> bool" where
  "clean_name s \<longleftrightarrow> s \<noteq> [] \<and> trim s = s \<and> CHR ''.'' \<notin> set s \<and> CHR ''/'' \<notin> set s"

lemma find_child_unique:
  assumes "c \<in> set cs" "\<forall>a \<in> set cs. a < length (components inst)"
    and "\<forall>a \<in> set cs. eq_ignore_ascii_case (comp_name (components inst ! a)) (comp_name (components inst ! c)) \<longrightarrow> a = c"
  shows "find_child inst (comp_name (components inst ! c)) cs = Some (Some c)"
  using assms by (induction cs) (auto simp: nth_opt_def eq_ignore_ascii_case_def)

lemma walk_descends:
  assumes "siblings_unique inst"
  shows "descends inst from segs to \<Longrightarrow> walk_children inst from segs = Some (Some to)"
proof (induction rule: descends.induct)
  case (child f c rest to)
  have "find_child inst (comp_name (components inst ! c)) (comp_children (components inst ! f)) = Some (Some c)"
    using assms child(1,2) unfolding siblings_unique_def
    by (intro find_child_unique) (auto simp: eq_ignore_ascii_case_def)
  then show ?case using child by (simp add: nth_opt_def)
qed simp

lemma split_chars_clean: "set s \<inter> seps = {} \<Longrightarrow> split_chars seps s = [s]"
  by (induction s) auto

lemma split_chars_append: "set s \<inter> seps = {} \<Longrightarrow> c \<in> seps \<Longrightarrow> split_chars seps (s @ c # t) = s # split_chars seps t"
  by (induction s) auto

lemma path_segments_join:
  "\<forall>s \<in> set segs. clean_name s \<Longrightarrow> path_segments {CHR ''.'', CHR ''/''} (join_with ''.'' segs) = segs"
proof (induction "''.''" segs rule: join_with.induct)
  case (3 s t ts)
  then have "set s \<inter> {CHR ''.'', CHR ''/''} = {}" by (auto simp: clean_name_def)
  then have "split_chars {CHR ''.'', CHR ''/''} (join_with ''.'' (s # t # ts))
      = s # split_chars {CHR ''.'', CHR ''/''} (join_with ''.'' (t # ts))"
    by (simp add: split_chars_append)
  with 3 show ?case by (simp add: path_segments_def clean_name_def)
qed (auto simp: path_segments_def clean_name_def split_chars_clean)

text \<open>C21. A dotted reference names the component it spells out: in a model whose sibling names are
  unique up to case, the path of child names from the declaring component to a component below it
  resolves to that component. On a model whose parent relation has no cycle the instance path of every
  component is found.\<close>

theorem resolve_reference_finds:
  assumes "siblings_unique inst" "descends inst ctx segs i" "segs \<noteq> []" "\<forall>s \<in> set segs. clean_name s"
    and "parents_ranked inst rank" "i < length (components inst)"
  shows "resolve_reference inst ctx (join_with ''.'' segs) = Some (Some i) \<and> component_path inst i \<noteq> None"
  using assms(3) ancestors_total [OF assms(5,6)]
  by (simp add: resolve_reference_def Let_def path_segments_join [OF assms(4)] walk_descends [OF assms(1,2)]
      component_path_def)

text \<open>A board with two processors of the same name at different depths.\<close>

definition demo_component :: "name \<Rightarrow> category \<Rightarrow> idx option \<Rightarrow> idx list \<Rightarrow> component_instance" where
  "demo_component n c p ch = \<lparr>comp_name = n, comp_category = c, comp_parent = p, comp_children = ch, comp_connections = [],
     comp_modes = [], comp_mode_transitions = [], comp_array_index = None, comp_in_modes = []\<rparr>"

definition demo_inst :: "component_instance list \<Rightarrow> (idx \<times> property_map) list \<Rightarrow> system_instance" where
  "demo_inst cs ms = \<lparr>inst_root = 0, components = cs, connections = [], mode_instances = [], mode_transition_instances = [],
     inst_diagnostics = [], property_maps = ms, semantic_connections = [], system_operation_modes = []\<rparr>"

lemma demo_inst_sel [simp]:
  "inst_root (demo_inst cs ms) = 0" "components (demo_inst cs ms) = cs" "property_maps (demo_inst cs ms) = ms"
  by (simp_all add: demo_inst_def)

definition demo_instance :: system_instance where
  "demo_instance = demo_inst [demo_component ''top'' System None [1, 3], demo_component ''mysoc'' System (Some 0) [2],
     demo_component ''CPU'' Processor (Some 1) [], demo_component ''cpu'' Processor (Some 0) []] []"

lemma demo_instance_wf: "siblings_unique demo_instance" "parents_ranked demo_instance (\<lambda>i. i)"
  by (simp_all add: siblings_unique_def parents_ranked_def demo_instance_def demo_component_def All_less_Suc
      eval_nat_numeral ascii_eval)

theorem resolve_reference_finds_witness:
  "resolve_reference demo_instance 0 ''mysoc.CPU'' = Some (Some 2) \<and> component_path demo_instance 2 = Some [''top'', ''mysoc'', ''CPU'']"
proof -
  have "descends demo_instance 0 [''mysoc'', ''CPU''] 2"
    using descends.child [of 0 demo_instance 1 "[''CPU'']" 2] descends.child [of 1 demo_instance 2 "[]" 2] descends.here
    by (simp add: demo_instance_def demo_component_def)
  moreover have "\<forall>s \<in> set [''mysoc'', ''CPU'']. clean_name s" by (simp add: clean_name_def trim_eval)
  moreover have "2 < length (components demo_instance)" by (simp add: demo_instance_def)
  ultimately have "resolve_reference demo_instance 0 (join_with ''.'' [''mysoc'', ''CPU'']) = Some (Some 2)"
    using resolve_reference_finds [OF demo_instance_wf(1) _ _ _ demo_instance_wf(2)] by blast
  moreover have "component_path demo_instance 2 = Some [''top'', ''mysoc'', ''CPU'']"
    by (simp add: component_path_def demo_instance_def demo_component_def nth_opt_def eval_nat_numeral)
  ultimately show ?thesis by simp
qed

text \<open>User input is matched against the end of the path as a string, so the first segment may match the
  tail of a name.\<close>

lemma dotted_path_splits_names: "resolve_dotted_path demo_instance ''soc.cpu'' = Some (Some 2)"
proof -
  have p: "component_instance_path demo_instance 0 = Some ''top''" "component_instance_path demo_instance (Suc 0) = Some ''top/mysoc''"
    "component_instance_path demo_instance 2 = Some ''top/mysoc/CPU''" "component_instance_path demo_instance 3 = Some ''top/cpu''"
    by (simp_all add: component_instance_path_def component_path_def demo_instance_def demo_component_def nth_opt_def
        eval_nat_numeral)
  have "[0..<length (components demo_instance)] = [0, 1, 2, 3]" by (simp add: demo_instance_def upt_rec)
  then show ?thesis
    by (simp add: resolve_dotted_path_def p prefer_deeper_def suffix_to_prefix ascii_eval)
qed

end
