(* ===== verification/Rta_Analysis.thy ===== *)
theory Rta_Analysis
  imports Sys_Instance Rta_Core "HOL-Library.List_Lexorder" "HOL-Library.Char_ord"
begin

text \<open>
  The response-time analysis pass, \<^verbatim>\<open>crates/spar-analysis/src/rta.rs\<close>, with the grouping of threads
  by processor (\<^verbatim>\<open>ProcessorGroups\<close> of \<^verbatim>\<open>property_accessors.rs\<close>): collection of interrupt
  handlers and threads, the interrupt-load check of tier 1 and the response times of tier 2.

  A diagnostic is a value with the ingredients of its message; \<open>severity_of\<close> gives its level and the
  component index stands for the path. The closures \<^verbatim>\<open>props_of\<close> and \<^verbatim>\<open>active\<close> of
  \<^verbatim>\<open>analyze_with\<close> are parameters, as they are in the source. Hash tables are association lists in
  insertion order; \<^verbatim>\<open>sort_by\<close> is a stable insertion sort. \<open>None\<close> is a panic.
\<close>

section \<open>Dispatch order\<close>

datatype ordering = Less | Equal | Greater

definition cmp_u64 :: "u64 \<Rightarrow> u64 \<Rightarrow> ordering" where
  "cmp_u64 a b = (if a < b then Less else if a = b then Equal else Greater)"

definition dispatch_order :: "u64 option \<Rightarrow> u64 \<Rightarrow> u64 option \<Rightarrow> u64 \<Rightarrow> ordering" where
  "dispatch_order a_priority a_period b_priority b_period =
     (case (a_priority, b_priority) of
        (Some pa, Some pb) \<Rightarrow> cmp_u64 pb pa
      | (Some _, None) \<Rightarrow> Less
      | (None, Some _) \<Rightarrow> Greater
      | (None, None) \<Rightarrow> cmp_u64 a_period b_period)"

fun insert_by :: "('a \<Rightarrow> 'a \<Rightarrow> ordering) \<Rightarrow> 'a \<Rightarrow> 'a list \<Rightarrow> 'a list" where
  "insert_by cmp x [] = [x]"
| "insert_by cmp x (y # ys) = (if cmp x y = Greater then y # insert_by cmp x ys else x # y # ys)"

definition sort_by :: "('a \<Rightarrow> 'a \<Rightarrow> ordering) \<Rightarrow> 'a list \<Rightarrow> 'a list" where
  "sort_by cmp xs = foldr (insert_by cmp) xs []"

section \<open>Records and diagnostics\<close>

record rta_thread_info =
  ti_name :: string
  ti_period_ps :: u64
  ti_exec_ps :: u64
  ti_exec_bcet_ps :: "u64 option"
  ti_deadline_ps :: u64
  ti_priority :: "u64 option"
  ti_jitter_ps :: u64
  ti_comp_idx :: idx
  ti_dispatch_protocol :: "string option"
  ti_locking_protocol :: "locking_protocol option"
  ti_blocking_ps :: u64

record isr_info =
  isr_comp_idx :: idx
  isr_name :: string
  isr_period_ps :: u64
  isr_exec_wcet_ps :: u64

record irq_chain_source =
  ch_isr_name :: string
  ch_isr_wcet_ps :: u64
  ch_isr_bcet_ps :: u64
  ch_latency_ps :: u64
  ch_event_port :: string

datatype severity = Error | Warning | Info

datatype rta_diag =
    IsrOverheadInflation idx string u64 u64 u64
  | MissingBottomHalfServer idx string
  | OverheadInflation idx string u64 u64 u64
  | StopForLockUnbounded idx string
  | IsrOverloadedCpu string u64
  | BlockingInflated idx string u64 locking_protocol
  | DeadlineMissed idx string string u64 u64
  | DeadlineMet idx string string u64 u64
  | DeadlineExceeded idx string string u64
  | ResponseBand idx string u64 u64
  | IrqChainMissed idx string u64 u64
  | IrqChainMet idx string u64 u64 u64

fun severity_of :: "rta_diag \<Rightarrow> severity" where
  "severity_of (IsrOverheadInflation _ _ _ _ _) = Info"
| "severity_of (MissingBottomHalfServer _ _) = Warning"
| "severity_of (OverheadInflation _ _ _ _ _) = Info"
| "severity_of (StopForLockUnbounded _ _) = Warning"
| "severity_of (IsrOverloadedCpu _ _) = Error"
| "severity_of (BlockingInflated _ _ _ _) = Info"
| "severity_of (DeadlineMissed _ _ _ _ _) = Error"
| "severity_of (DeadlineMet _ _ _ _ _) = Info"
| "severity_of (DeadlineExceeded _ _ _ _) = Error"
| "severity_of (ResponseBand _ _ _ _) = Info"
| "severity_of (IrqChainMissed _ _ _ _) = Error"
| "severity_of (IrqChainMet _ _ _ _ _) = Info"

definition DEFAULT_ISR_OVERLOAD_THRESHOLD_PCT :: u64 where
  "DEFAULT_ISR_OVERLOAD_THRESHOLD_PCT = 30"

section \<open>Processor groups\<close>

definition UNBOUND :: string where
  "UNBOUND = ''__unbound__''"

record processor_groups =
  pg_display :: "(string \<times> string) list"
  pg_resolved :: "(string \<times> idx) list"

definition or_insert :: "'k \<Rightarrow> 'v \<Rightarrow> ('k \<times> 'v) list \<Rightarrow> ('k \<times> 'v) list" where
  "or_insert k v al = (case map_of al k of Some _ \<Rightarrow> al | None \<Rightarrow> AList.update k v al)"

definition processor_key :: "system_instance \<Rightarrow> idx \<Rightarrow> string option" where
  "processor_key inst i = map_option (Cons (char_of (0 :: nat))) (component_instance_path inst i)"

definition groups_key :: "system_instance \<Rightarrow> idx \<Rightarrow> string option \<Rightarrow> processor_groups
    \<Rightarrow> (string \<times> processor_groups) option" where
  "groups_key inst cmp binding groups =
     (case binding of
        None \<Rightarrow> Some (UNBOUND, groups\<lparr>pg_display := or_insert UNBOUND UNBOUND (pg_display groups)\<rparr>)
      | Some b \<Rightarrow> do {
          r \<leftarrow> actual_processor_binding inst cmp;
          (key, groups) \<leftarrow>
            (case r of
               Some i \<Rightarrow> do {
                 key \<leftarrow> processor_key inst i;
                 Some (key, groups\<lparr>pg_resolved := AList.update key i (pg_resolved groups)\<rparr>) }
             | None \<Rightarrow> Some (b, groups));
          Some (key, groups\<lparr>pg_display := or_insert key b (pg_display groups)\<rparr>) })"

definition groups_display :: "processor_groups \<Rightarrow> string \<Rightarrow> string" where
  "groups_display groups key = (case map_of (pg_display groups) key of Some d \<Rightarrow> d | None \<Rightarrow> key)"

section \<open>First pass\<close>

type_synonym name_index = "(string \<times> idx) list"
type_synonym latency_index = "(string \<times> u64) list"

fun first_pass :: "system_instance \<Rightarrow> (idx \<Rightarrow> property_map option) \<Rightarrow> idx list \<Rightarrow> name_index \<Rightarrow> latency_index
    \<Rightarrow> (name_index \<times> latency_index) option" where
  "first_pass inst props_of [] names lats = Some (names, lats)"
| "first_pass inst props_of (i # is) names lats = do {
     c \<leftarrow> nth_opt (components inst) i;
     let names = AList.update (comp_name c) i names;
     lats \<leftarrow> (if comp_category c = Processor
             then do {
               m \<leftarrow> props_of i;
               lat \<leftarrow> get_interrupt_latency_bound m;
               (case lat of
                  None \<Rightarrow> Some lats
                | Some l \<Rightarrow> do {
                    key \<leftarrow> processor_key inst i;
                    Some (AList.update key l (AList.update (comp_name c) l lats)) }) }
             else Some lats);
     first_pass inst props_of is names lats }"

section \<open>Second pass\<close>

record rta_state =
  st_diags :: "rta_diag list"
  st_threads :: "(string \<times> rta_thread_info list) list"
  st_isrs :: "(string \<times> isr_info list) list"
  st_chains :: "(idx \<times> irq_chain_source) list"
  st_groups :: processor_groups

definition rta_state_new :: rta_state where
  "rta_state_new = \<lparr>st_diags = [], st_threads = [], st_isrs = [], st_chains = [],
     st_groups = \<lparr>pg_display = [], pg_resolved = []\<rparr>\<rparr>"

definition emit :: "rta_diag \<Rightarrow> rta_state \<Rightarrow> rta_state" where
  "emit d st = st\<lparr>st_diags := st_diags st @ [d]\<rparr>"

definition emit_if :: "bool \<Rightarrow> rta_diag \<Rightarrow> rta_state \<Rightarrow> rta_state" where
  "emit_if b d st = (if b then emit d st else st)"

definition unwrap_or :: "'a option \<Rightarrow> 'a \<Rightarrow> 'a" where
  "unwrap_or x d = (case x of Some v \<Rightarrow> v | None \<Rightarrow> d)"

definition collect_isr ::
    "system_instance \<Rightarrow> name_index \<Rightarrow> latency_index \<Rightarrow> idx \<Rightarrow> string \<Rightarrow> property_map \<Rightarrow> rta_state \<Rightarrow> rta_state option" where
  "collect_isr inst names lats i nm m st = do {
     (binding, groups) \<leftarrow>
       (case get_processor_binding m of
          None \<Rightarrow> Some (None, st_groups st)
        | Some b \<Rightarrow> map_option (\<lambda>(k, g). (Some k, g)) (groups_key inst i (Some b) (st_groups st)));
     let st = st\<lparr>st_groups := groups\<rparr>;
     period \<leftarrow> get_timing_property m ''Period'';
     isr_range \<leftarrow> get_isr_execution_time_range m;
     range \<leftarrow> (case isr_range of Some r \<Rightarrow> Some (Some r) | None \<Rightarrow> get_execution_time_range m);
     let (bcet_base, wcet_base) = unwrap_or range (0, 0);
     overhead_reading \<leftarrow> get_interrupt_overhead m;
     let overhead = unwrap_or overhead_reading 0;
     let wcet = sat_add wcet_base overhead;
     let bcet = sat_add bcet_base overhead;
     let st = emit_if (overhead > 0 \<and> wcet_base > 0) (IsrOverheadInflation i nm wcet_base wcet overhead) st;
     let st = (case (binding, period) of
                 (Some cpu, Some p) \<Rightarrow>
                   if wcet > 0
                   then st\<lparr>st_isrs := push_entry cpu \<lparr>isr_comp_idx = i, isr_name = nm, isr_period_ps = p,
                                                     isr_exec_wcet_ps = wcet\<rparr> (st_isrs st)\<rparr>
                   else st
               | _ \<Rightarrow> st);
     let server = get_bottom_half_server m;
     let st = emit_if (isr_range \<noteq> None \<and> server = None) (MissingBottomHalfServer i nm) st;
     Some (case Option.bind server (map_of names) of
             None \<Rightarrow> st
           | Some handler \<Rightarrow>
               st\<lparr>st_chains := AList.update handler
                     \<lparr>ch_isr_name = nm, ch_isr_wcet_ps = wcet, ch_isr_bcet_ps = bcet,
                      ch_latency_ps = unwrap_or (Option.bind binding (map_of lats)) 0, ch_event_port = nm\<rparr>
                     (st_chains st)\<rparr>) }"

definition collect_thread ::
    "system_instance \<Rightarrow> idx \<Rightarrow> string \<Rightarrow> property_map \<Rightarrow> rta_state \<Rightarrow> rta_state option" where
  "collect_thread inst i nm m st = do {
     period \<leftarrow> get_timing_property m ''Period'';
     (case period of
        None \<Rightarrow> Some st
      | Some p \<Rightarrow> do {
          exec \<leftarrow> get_execution_time m;
          (case exec of
             None \<Rightarrow> Some st
           | Some exec_base \<Rightarrow> do {
               ctx_reading \<leftarrow> get_timing_property m ''Context_Switch_Time'';
               let ctx = unwrap_or ctx_reading 0;
               let exec_ps = sat_add exec_base (sat_mul ctx 2);
               let st = emit_if (ctx > 0) (OverheadInflation i nm exec_base exec_ps ctx) st;
               (key, groups) \<leftarrow> groups_key inst i (get_processor_binding m) (st_groups st);
               let st = st\<lparr>st_groups := groups\<rparr>;
               deadline_reading \<leftarrow> get_timing_property m ''Deadline'';
               jitter \<leftarrow> get_dispatch_jitter m;
               exec_range \<leftarrow> get_execution_time_range m;
               let locking = get_locking_protocol m;
               csb \<leftarrow> (if locking = None \<or> locking = Some NoLocking then Some None
                       else get_critical_section_blocking m);
               let blocking = (if locking = Some Pip \<or> locking = Some Pcp then unwrap_or csb 0 else 0);
               let st = emit_if (locking = Some StopForLock \<and> csb = None) (StopForLockUnbounded i nm) st;
               Some (st\<lparr>st_threads := push_entry key
                 \<lparr>ti_name = nm, ti_period_ps = p, ti_exec_ps = exec_ps, ti_exec_bcet_ps = map_option fst exec_range,
                  ti_deadline_ps = unwrap_or deadline_reading p, ti_priority = get_priority m,
                  ti_jitter_ps = unwrap_or jitter 0, ti_comp_idx = i, ti_dispatch_protocol = get_dispatch_protocol m,
                  ti_locking_protocol = locking, ti_blocking_ps = blocking\<rparr> (st_threads st)\<rparr>) }) }) }"

definition collect_component ::
    "system_instance \<Rightarrow> (idx \<Rightarrow> property_map option) \<Rightarrow> (idx \<Rightarrow> bool option) \<Rightarrow> name_index \<Rightarrow> latency_index
      \<Rightarrow> idx \<Rightarrow> rta_state \<Rightarrow> rta_state option" where
  "collect_component inst props_of active names lats i st = do {
     c \<leftarrow> nth_opt (components inst) i;
     on \<leftarrow> active i;
     (if \<not> on then Some st
      else do {
        m \<leftarrow> props_of i;
        st \<leftarrow> (if get_isr_priority m = None then Some st else collect_isr inst names lats i (comp_name c) m st);
        (if comp_category c = Thread then collect_thread inst i (comp_name c) m st else Some st) }) }"

fun second_pass ::
    "system_instance \<Rightarrow> (idx \<Rightarrow> property_map option) \<Rightarrow> (idx \<Rightarrow> bool option) \<Rightarrow> name_index \<Rightarrow> latency_index
      \<Rightarrow> idx list \<Rightarrow> rta_state \<Rightarrow> rta_state option" where
  "second_pass inst props_of active names lats [] st = Some st"
| "second_pass inst props_of active names lats (i # is) st = do {
     st \<leftarrow> collect_component inst props_of active names lats i st;
     second_pass inst props_of active names lats is st }"

section \<open>Tier 1\<close>

definition isr_util_permille :: "isr_info list \<Rightarrow> u64" where
  "isr_util_permille isrs =
     fold (\<lambda>isr acc. if isr_period_ps isr = 0 then acc
                     else sat_add acc (sat_mul (isr_exec_wcet_ps isr) 1000 div isr_period_ps isr)) isrs 0"

definition cmp_string :: "string \<Rightarrow> string \<Rightarrow> ordering" where
  "cmp_string a b = (if a < b then Less else if a = b then Equal else Greater)"

definition sorted_keys :: "processor_groups \<Rightarrow> (string \<times> 'a) list \<Rightarrow> string list" where
  "sorted_keys groups al = sort_by (\<lambda>a b. cmp_string (groups_display groups a) (groups_display groups b)) (map fst al)"

definition tier1 :: "rta_state \<Rightarrow> rta_diag list" where
  "tier1 st = concat (map (\<lambda>cpu.
     let util_pct = isr_util_permille (the (map_of (st_isrs st) cpu)) div 10
     in if util_pct \<ge> DEFAULT_ISR_OVERLOAD_THRESHOLD_PCT
        then [IsrOverloadedCpu (groups_display (st_groups st) cpu) util_pct] else [])
     (sorted_keys (st_groups st) (st_isrs st)))"

section \<open>Tier 2\<close>

definition hp_triple :: "rta_thread_info \<Rightarrow> u64 \<times> u64 \<times> u64" where
  "hp_triple t = (ti_period_ps t, ti_exec_ps t, ti_jitter_ps t)"

definition irq_chain_diags :: "(idx \<times> irq_chain_source) list \<Rightarrow> rta_thread_info \<Rightarrow> u64 \<Rightarrow> rta_diag list" where
  "irq_chain_diags irqs t response =
     (case map_of irqs (ti_comp_idx t) of
        None \<Rightarrow> []
      | Some chain \<Rightarrow>
          if (case ti_dispatch_protocol t of Some p \<Rightarrow> eq_ignore_ascii_case p ''Sporadic'' | None \<Rightarrow> False)
          then let predicted = sat_add (sat_add (ch_latency_ps chain) (ch_isr_wcet_ps chain)) response
               in if predicted > ti_deadline_ps t
                  then [IrqChainMissed (ti_comp_idx t) (ch_event_port chain) predicted (ti_deadline_ps t)]
                  else [IrqChainMet (ti_comp_idx t) (ch_event_port chain) predicted (ti_deadline_ps t)
                          (ti_deadline_ps t - predicted)]
          else [])"

definition response_of :: "rta_thread_info \<Rightarrow> u64 \<Rightarrow> rta_thread_info list \<Rightarrow> isr_info list \<Rightarrow> rta_result option" where
  "response_of t exec before isrs =
     compute_response_time_jittered_blocking exec (ti_deadline_ps t) (ti_jitter_ps t) (ti_blocking_ps t)
       (map hp_triple before) (map (\<lambda>i. (isr_period_ps i, isr_exec_wcet_ps i)) isrs)"

definition response_band :: "rta_thread_info \<Rightarrow> rta_thread_info list \<Rightarrow> isr_info list \<Rightarrow> u64 \<Rightarrow> rta_diag list option" where
  "response_band t before isrs response =
     (case ti_exec_bcet_ps t of
        None \<Rightarrow> Some []
      | Some bcet \<Rightarrow>
          if bcet = ti_exec_ps t then Some []
          else map_option (\<lambda>r. case r of Converged r_b \<Rightarrow> [ResponseBand (ti_comp_idx t) (ti_name t) r_b response]
                                       | Diverged \<Rightarrow> []) (response_of t bcet before isrs))"

definition analyze_thread :: "string \<Rightarrow> isr_info list \<Rightarrow> (idx \<times> irq_chain_source) list \<Rightarrow> rta_thread_info list
    \<Rightarrow> rta_thread_info \<Rightarrow> rta_diag list option" where
  "analyze_thread proc isrs irqs before t = do {
     let blocked = (case ti_locking_protocol t of
                      Some lp \<Rightarrow> if ti_blocking_ps t > 0
                                 then [BlockingInflated (ti_comp_idx t) (ti_name t) (ti_blocking_ps t) lp] else []
                    | None \<Rightarrow> []);
     result \<leftarrow> response_of t (ti_exec_ps t) before isrs;
     (case result of
        Converged response \<Rightarrow> do {
          band \<leftarrow> response_band t before isrs response;
          Some (blocked
            @ [if response > ti_deadline_ps t
               then DeadlineMissed (ti_comp_idx t) (ti_name t) proc response (ti_deadline_ps t)
               else DeadlineMet (ti_comp_idx t) (ti_name t) proc response (ti_deadline_ps t)]
            @ band @ irq_chain_diags irqs t response) }
      | Diverged \<Rightarrow> Some (blocked @ [DeadlineExceeded (ti_comp_idx t) (ti_name t) proc (ti_deadline_ps t)])) }"

fun analyze_threads :: "string \<Rightarrow> isr_info list \<Rightarrow> (idx \<times> irq_chain_source) list \<Rightarrow> rta_thread_info list
    \<Rightarrow> rta_thread_info list \<Rightarrow> rta_diag list option" where
  "analyze_threads proc isrs irqs before [] = Some []"
| "analyze_threads proc isrs irqs before (t # ts) = do {
     d \<leftarrow> analyze_thread proc isrs irqs before t;
     ds \<leftarrow> analyze_threads proc isrs irqs (before @ [t]) ts;
     Some (d @ ds) }"

definition thread_order :: "rta_thread_info \<Rightarrow> rta_thread_info \<Rightarrow> ordering" where
  "thread_order a b = dispatch_order (ti_priority a) (ti_period_ps a) (ti_priority b) (ti_period_ps b)"

definition analyze_group :: "rta_state \<Rightarrow> string \<Rightarrow> rta_diag list option" where
  "analyze_group st key =
     (if key = UNBOUND then Some []
      else analyze_threads (groups_display (st_groups st) key)
             (unwrap_or (map_of (st_isrs st) key) []) (st_chains st) []
             (sort_by thread_order (the (map_of (st_threads st) key))))"

fun tier2 :: "rta_state \<Rightarrow> string list \<Rightarrow> rta_diag list option" where
  "tier2 st [] = Some []"
| "tier2 st (key # keys) = do {
     d \<leftarrow> analyze_group st key;
     ds \<leftarrow> tier2 st keys;
     Some (d @ ds) }"

definition collect :: "system_instance \<Rightarrow> (idx \<Rightarrow> property_map option) \<Rightarrow> (idx \<Rightarrow> bool option) \<Rightarrow> rta_state option" where
  "collect inst props_of active = do {
     let all = [0..<length (components inst)];
     (names, lats) \<leftarrow> first_pass inst props_of all [] [];
     second_pass inst props_of active names lats all rta_state_new }"

definition analyze_with ::
    "system_instance \<Rightarrow> (idx \<Rightarrow> property_map option) \<Rightarrow> (idx \<Rightarrow> bool option) \<Rightarrow> rta_diag list option" where
  "analyze_with inst props_of active = do {
     st \<leftarrow> collect inst props_of active;
     ds \<leftarrow> tier2 st (sorted_keys (st_groups st) (st_threads st));
     Some (st_diags st @ tier1 st @ ds) }"

definition analyze :: "system_instance \<Rightarrow> rta_diag list option" where
  "analyze inst = analyze_with inst (\<lambda>i. Some (properties_for inst i)) (\<lambda>_. Some True)"

definition analyze_in_mode :: "system_instance \<Rightarrow> system_operation_mode \<Rightarrow> rta_diag list option" where
  "analyze_in_mode inst som =
     (if \<not> has_modal_property_values inst then Some []
      else analyze_with inst (\<lambda>i. properties_in_som inst i som) (\<lambda>i. is_component_active_in_som inst i som))"


section \<open>The interface of a comparator\<close>

text \<open>What \<^verbatim>\<open>sort_by\<close> relies on: a total preorder. The client's lemmas are the guarantees of a
  stable sort.\<close>

locale comparator =
  fixes cmp :: "'a \<Rightarrow> 'a \<Rightarrow> ordering"
  assumes cmp_flip: "cmp a b = Greater \<longleftrightarrow> cmp b a = Less"
    and cmp_trans: "cmp a b \<noteq> Greater \<Longrightarrow> cmp b c \<noteq> Greater \<Longrightarrow> cmp a c \<noteq> Greater"
begin

lemma not_both: "cmp a b = Greater \<Longrightarrow> cmp b a \<noteq> Greater"
  using cmp_flip [of a b] by simp

lemma mset_insert_by: "mset (insert_by cmp x ys) = add_mset x (mset ys)"
  by (induction ys) auto

lemma mset_sort_by: "mset (sort_by cmp xs) = mset xs"
  by (induction xs) (simp_all add: sort_by_def mset_insert_by)

lemma set_sort_by: "set (sort_by cmp xs) = set xs"
  by (rule mset_eq_setD [OF mset_sort_by])

lemma sorted_insert_by:
  "sorted_wrt (\<lambda>a b. cmp a b \<noteq> Greater) ys \<Longrightarrow> sorted_wrt (\<lambda>a b. cmp a b \<noteq> Greater) (insert_by cmp x ys)"
proof (induction ys)
  case (Cons y ys)
  have set: "set (insert_by cmp x ys) = insert x (set ys)"
    using mset_eq_setD [OF mset_insert_by [of x ys, folded mset.simps(2)]] by simp
  show ?case
  proof (cases "cmp x y = Greater")
    case True
    then have "cmp y x \<noteq> Greater" by (rule not_both)
    then show ?thesis using Cons True set by simp
  next
    case False
    then show ?thesis using Cons.prems cmp_trans [OF False] by auto
  qed
qed simp

lemma sorted_sort_by: "sorted_wrt (\<lambda>a b. cmp a b \<noteq> Greater) (sort_by cmp xs)"
  by (induction xs) (simp_all add: sort_by_def sorted_insert_by)

lemma before_in_sort:
  assumes "sort_by cmp xs = pre @ x # post"
  shows "u \<in> set pre \<Longrightarrow> cmp u x \<noteq> Greater" and "u \<in> set xs \<Longrightarrow> cmp u x = Less \<Longrightarrow> u \<in> set pre"
proof -
  have s: "sorted_wrt (\<lambda>a b. cmp a b \<noteq> Greater) (pre @ x # post)" using sorted_sort_by [of xs] assms by simp
  then show "u \<in> set pre \<Longrightarrow> cmp u x \<noteq> Greater" by (auto simp: sorted_wrt_append)
  assume u: "u \<in> set xs" "cmp u x = Less"
  then have "u \<in> set pre \<or> u = x \<or> u \<in> set post" using set_sort_by [of xs] assms by auto
  moreover have "u \<noteq> x" using u(2) cmp_flip [of x x] by auto
  moreover have "u \<notin> set post" using s u(2) cmp_flip [of x u] by (auto simp: sorted_wrt_append)
  ultimately show "u \<in> set pre" by blast
qed

lemma stable_insert_by:
  assumes "cmp z x = Equal" "cmp x z = Equal"
  shows "filter (\<lambda>y. cmp z y = Equal \<and> cmp y z = Equal) (insert_by cmp x ys)
    = x # filter (\<lambda>y. cmp z y = Equal \<and> cmp y z = Equal) ys"
proof (induction ys)
  case (Cons y ys)
  have "\<not> (cmp z y = Equal \<and> cmp y z = Equal)" if "cmp x y = Greater"
    using that assms cmp_trans [of x z y] by auto
  then show ?case using Cons assms by auto
qed (simp add: assms)

lemma stable_insert_other:
  assumes "\<not> (cmp z x = Equal \<and> cmp x z = Equal)"
  shows "filter (\<lambda>y. cmp z y = Equal \<and> cmp y z = Equal) (insert_by cmp x ys)
    = filter (\<lambda>y. cmp z y = Equal \<and> cmp y z = Equal) ys"
  by (induction ys) (use assms in auto)

lemma stable_sort_by:
  "filter (\<lambda>y. cmp z y = Equal \<and> cmp y z = Equal) (sort_by cmp xs)
    = filter (\<lambda>y. cmp z y = Equal \<and> cmp y z = Equal) xs"
proof (induction xs)
  case (Cons x xs)
  then show ?case
    using stable_insert_by [of z x "sort_by cmp xs"] stable_insert_other [of z x "sort_by cmp xs"]
    by (cases "cmp z x = Equal \<and> cmp x z = Equal") (simp_all add: sort_by_def)
qed (simp add: sort_by_def)

end

text \<open>The dispatch order is a comparator for any tasks with a priority and a period.\<close>

lemma dispatch_comparator: "comparator (\<lambda>a b. dispatch_order (priority a) (period a) (priority b) (period b))"
  by unfold_locales (auto simp: dispatch_order_def cmp_u64_def split: option.splits if_splits)

interpretation threads: comparator thread_order
  using dispatch_comparator [of ti_priority ti_period_ps] by (simp add: thread_order_def [abs_def])

interpretation keys: comparator "\<lambda>a b. cmp_string (groups_display groups a) (groups_display groups b)" for groups
  by unfold_locales (auto simp: cmp_string_def split: if_splits)

section \<open>Verdicts\<close>






lemma driver_within: "compute_response_time_jittered_blocking exec d j b hps isrs = Some (Converged r) \<Longrightarrow> r \<le> d"
proof -
  have "rta_loop f d n x = Some (Converged r) \<Longrightarrow> x \<le> d \<Longrightarrow> r \<le> d" for f n x
  proof (induction n arbitrary: x)
    case (Suc n)
    from Suc.prems(1) obtain y where "f x = Some y"
      "(if y = x then Some (Converged x) else if y > d then Some Diverged else rta_loop f d n y) = Some (Converged r)"
      unfolding rta_loop.simps by (auto simp: bind_eq_Some_conv)
    then show ?case using Suc.IH [of y] Suc.prems(2) by (auto split: if_splits)
  qed simp
  then show "compute_response_time_jittered_blocking exec d j b hps isrs = Some (Converged r) \<Longrightarrow> r \<le> d"
    by (auto simp: compute_response_time_jittered_blocking_def Let_def split: if_splits)
qed

definition is_verdict :: "rta_diag \<Rightarrow> bool" where
  "is_verdict d = (case d of DeadlineMet _ _ _ _ _ \<Rightarrow> True | DeadlineExceeded _ _ _ _ \<Rightarrow> True
     | DeadlineMissed _ _ _ _ _ \<Rightarrow> True | _ \<Rightarrow> False)"

lemma irq_chain_no_verdict: "filter is_verdict (irq_chain_diags irqs t r) = []"
  by (auto simp: irq_chain_diags_def is_verdict_def Let_def split: option.splits)

lemma response_band_no_verdict: "response_band t before isrs r = Some band \<Longrightarrow> filter is_verdict band = []"
  unfolding response_band_def
  by (cases "response_of t (the (ti_exec_bcet_ps t)) before isrs")
    (auto simp: is_verdict_def split: option.splits if_splits rta_result.splits)

text \<open>The verdict of a thread is the one its response time gives; the branch that reports a response
  time beyond the deadline is never taken.\<close>

lemma analyze_thread_verdict:
  assumes "analyze_thread proc isrs irqs before t = Some ds"
  shows "filter is_verdict ds =
    (case the (response_of t (ti_exec_ps t) before isrs) of
       Converged r \<Rightarrow> [DeadlineMet (ti_comp_idx t) (ti_name t) proc r (ti_deadline_ps t)]
     | Diverged \<Rightarrow> [DeadlineExceeded (ti_comp_idx t) (ti_name t) proc (ti_deadline_ps t)])
    \<and> response_of t (ti_exec_ps t) before isrs \<noteq> None"
proof -
  have blocked: "filter is_verdict (case ti_locking_protocol t of Some lp \<Rightarrow> if ti_blocking_ps t > 0
      then [BlockingInflated (ti_comp_idx t) (ti_name t) (ti_blocking_ps t) lp] else [] | None \<Rightarrow> []) = []"
    by (simp add: is_verdict_def split: option.split)
  obtain res where res: "response_of t (ti_exec_ps t) before isrs = Some res"
    using assms by (auto simp: analyze_thread_def Let_def bind_eq_Some_conv)
  show ?thesis
  proof (cases res)
    case (Converged r)
    then have "r \<le> ti_deadline_ps t" using driver_within res by (simp add: response_of_def)
    moreover from Converged obtain band where "response_band t before isrs r = Some band"
      using assms res by (auto simp: analyze_thread_def Let_def bind_eq_Some_conv)
    ultimately show ?thesis
      using assms res Converged blocked irq_chain_no_verdict response_band_no_verdict
      by (auto simp: analyze_thread_def Let_def is_verdict_def)
  next
    case Diverged
    then show ?thesis using assms res blocked by (auto simp: analyze_thread_def Let_def is_verdict_def)
  qed
qed



text \<open>A thread without a priority below one with it.\<close>

definition demo_ti :: "string \<Rightarrow> u64 \<Rightarrow> u64 \<Rightarrow> u64 option \<Rightarrow> idx \<Rightarrow> rta_thread_info" where
  "demo_ti n p c pr i = \<lparr>ti_name = n, ti_period_ps = p, ti_exec_ps = c, ti_exec_bcet_ps = None, ti_deadline_ps = p,
     ti_priority = pr, ti_jitter_ps = 0, ti_comp_idx = i, ti_dispatch_protocol = None, ti_locking_protocol = None,
     ti_blocking_ps = 0\<rparr>"



section \<open>No thread is skipped\<close>

lemma analyze_threads_verdicts:
  assumes "analyze_threads proc isrs irqs before ts = Some ds" "t \<in> set ts"
  shows "\<exists>d \<in> set ds. is_verdict d \<and> (\<exists>r. d = DeadlineMet (ti_comp_idx t) (ti_name t) proc r (ti_deadline_ps t)
    \<or> d = DeadlineExceeded (ti_comp_idx t) (ti_name t) proc (ti_deadline_ps t))"
  using assms
proof (induction ts arbitrary: before ds)
  case (Cons u ts)
  then obtain d1 d2 where d: "analyze_thread proc isrs irqs before u = Some d1"
    "analyze_threads proc isrs irqs (before @ [u]) ts = Some d2" "ds = d1 @ d2"
    by (auto simp: bind_eq_Some_conv)
  show ?case
  proof (cases "t = u")
    case True
    obtain v where v: "filter is_verdict d1 = [v]" "v = DeadlineExceeded (ti_comp_idx t) (ti_name t) proc (ti_deadline_ps t)
        \<or> (\<exists>r. v = DeadlineMet (ti_comp_idx t) (ti_name t) proc r (ti_deadline_ps t))"
      using analyze_thread_verdict [OF d(1)] True by (auto split: rta_result.splits)
    have "v \<in> set (filter is_verdict d1)" using v(1) by simp
    then have "v \<in> set d1" "is_verdict v" by simp_all
    with v(2) d(3) show ?thesis by auto
  next
    case False
    then show ?thesis using Cons d by fastforce
  qed
qed simp

lemma tier2_group: "tier2 st ks = Some ds \<Longrightarrow> k \<in> set ks \<Longrightarrow> \<exists>d. analyze_group st k = Some d \<and> set d \<subseteq> set ds"
  by (induction ks arbitrary: ds) (auto simp: bind_eq_Some_conv, blast)

text \<open>C25. No bound thread is silently skipped: whenever the pass returns, every thread it collected under
  a processor has a verdict in the result.\<close>

theorem rta_no_thread_skipped:
  assumes "collect inst props_of active = Some st" "analyze_with inst props_of active = Some ds"
    and "map_of (st_threads st) key = Some ts" "key \<noteq> UNBOUND" "t \<in> set ts"
  shows "\<exists>proc r. DeadlineMet (ti_comp_idx t) (ti_name t) proc r (ti_deadline_ps t) \<in> set ds
    \<or> DeadlineExceeded (ti_comp_idx t) (ti_name t) proc (ti_deadline_ps t) \<in> set ds"
proof -
  obtain d2 where d2: "tier2 st (sorted_keys (st_groups st) (st_threads st)) = Some d2" "set d2 \<subseteq> set ds"
    using assms(1,2) unfolding analyze_with_def by (fastforce simp: bind_eq_Some_conv)
  have "key \<in> set (sorted_keys (st_groups st) (st_threads st))"
    using assms(3) by (force simp: sorted_keys_def keys.set_sort_by dest: map_of_SomeD)
  then obtain d where d: "analyze_group st key = Some d" "set d \<subseteq> set d2" using tier2_group d2(1) by blast
  then have "analyze_threads (groups_display (st_groups st) key) (unwrap_or (map_of (st_isrs st) key) [])
      (st_chains st) [] (sort_by thread_order ts) = Some d"
    using assms(3,4) by (simp add: analyze_group_def)
  from analyze_threads_verdicts [OF this, of t] assms(5) d(2) d2(2) show ?thesis
    by (auto simp: threads.set_sort_by)
qed

text \<open>One periodic thread whose binding names no component.\<close>


definition demo_typed :: "string \<Rightarrow> string \<Rightarrow> property_expr \<Rightarrow> property_value" where
  "demo_typed pset nm e = \<lparr>pv_name = demo_ref (Some pset) nm, pv_value = ''text'', typed_expr = Some e, is_append = False\<rparr>"

definition demo_task :: property_map where
  "demo_task = add (demo_typed ''Timing_Properties'' ''Period'' (Integer 10 None))
     (add (demo_typed ''Timing_Properties'' ''Compute_Execution_Time'' (Integer 3 None))
     (add (demo_typed ''Deployment_Properties'' ''Actual_Processor_Binding'' (ReferenceValue ''cpu'')) property_map_new))"

definition demo_system :: system_instance where
  "demo_system = demo_inst [demo_component ''task'' Thread None []] [(0, demo_task)]"

lemma demo_task_first_usable:
  "first_usable demo_task pset nm = (
    if ci_name pset = ''timing_properties'' \<and> ci_name nm = ''period'' then Some (demo_typed ''Timing_Properties'' ''Period'' (Integer 10 None))
    else if ci_name pset = ''timing_properties'' \<and> ci_name nm = ''compute_execution_time''
      then Some (demo_typed ''Timing_Properties'' ''Compute_Execution_Time'' (Integer 3 None))
    else if ci_name pset = ''deployment_properties'' \<and> ci_name nm = ''actual_processor_binding''
      then Some (demo_typed ''Deployment_Properties'' ''Actual_Processor_Binding'' (ReferenceValue ''cpu''))
    else None)"
proof -
  have p: "props demo_task = [((''deployment_properties'', ''actual_processor_binding''),
      [demo_typed ''Deployment_Properties'' ''Actual_Processor_Binding'' (ReferenceValue ''cpu'')]),
     ((''timing_properties'', ''compute_execution_time''),
      [demo_typed ''Timing_Properties'' ''Compute_Execution_Time'' (Integer 3 None)]),
     ((''timing_properties'', ''period''), [demo_typed ''Timing_Properties'' ''Period'' (Integer 10 None)])]"
    by (simp add: demo_task_def add_def add_from_def property_map_new_def key_of_def demo_typed_def demo_ref_def
        ci_name_def ascii_eval trim_eval)
  show ?thesis unfolding first_usable_def p
    by (simp add: value_is_arithmetic_def demo_typed_def)
qed

lemma demo_task_readings:
  "get_timing_property demo_task ''Period'' = Some (Some 10)"
  "get_timing_property demo_task ''Deadline'' = Some None"
  "get_timing_property demo_task ''Context_Switch_Time'' = Some None"
  "get_dispatch_jitter demo_task = Some None"
  "get_execution_time demo_task = Some (Some 3)"
  "get_execution_time_range demo_task = Some (Some (3, 3))"
  "get_isr_priority demo_task = None"
  "get_locking_protocol demo_task = None"
  "get_processor_binding demo_task = Some ''cpu''"
  "get_priority demo_task = None"
  "get_dispatch_protocol demo_task = None"
  by (simp_all add: get_timing_property_def get_dispatch_jitter_def get_execution_time_def get_execution_time_range_def
      get_isr_priority_def get_locking_protocol_def get_processor_binding_def get_priority_def get_dispatch_protocol_def
      get_typed_qualified_def get_raw_qualified_def or_else_def get_typed_def get_def demo_task_first_usable
      demo_typed_def typed_or_def typed_or_text_def raw_or_none_def extract_time_max_def extract_time_range_ps_def
      extract_typed_reference_def i64_as_u64_def ci_name_def ascii_eval trim_eval)

definition demo_collected :: rta_state where
  "demo_collected = rta_state_new\<lparr>st_threads := [(''cpu'', [(demo_ti ''task'' 10 3 None 0)\<lparr>ti_exec_bcet_ps := Some 3\<rparr>])],
     st_groups := \<lparr>pg_display = [(''cpu'', ''cpu'')], pg_resolved = []\<rparr>\<rparr>"

lemma demo_task_binding: "read_actual_processor_binding_name demo_task = Some ''cpu''" "ref_ctx demo_task = []"
  "path_segments {CHR ''.'', CHR ''/''} ''cpu'' = [''cpu'']" "trim ''cpu'' = ''cpu''"
proof -
  show t: "trim ''cpu'' = ''cpu''" by (simp add: trim_eval)
  then show "read_actual_processor_binding_name demo_task = Some ''cpu''"
    by (simp add: read_actual_processor_binding_name_def get_typed_def demo_task_first_usable demo_typed_def ci_name_def ascii_eval)
qed (simp_all add: path_segments_def trim_eval demo_task_def add_def add_from_def property_map_new_def demo_typed_def)

lemma demo_system_binding: "actual_processor_binding demo_system 0 = Some None"
proof -
  have "properties_for demo_system 0 = demo_task" by (simp add: properties_for_def demo_system_def)
  then show ?thesis
    by (simp add: actual_processor_binding_def inst_reference_context_def reference_context_def resolve_reference_def
        demo_task_binding)
      (simp add: demo_system_def demo_component_def nth_opt_def demo_task_binding)
qed

lemma demo_system_collect:
  "collect demo_system (\<lambda>i. Some (properties_for demo_system i)) (\<lambda>_. Some True) = Some demo_collected"
proof -
  have m: "properties_for demo_system 0 = demo_task" by (simp add: properties_for_def demo_system_def)
  have c: "nth_opt (components demo_system) 0 = Some (demo_component ''task'' Thread None [])"
    by (simp add: demo_system_def nth_opt_def)
  have g: "groups_key demo_system 0 (Some ''cpu'') \<lparr>pg_display = [], pg_resolved = []\<rparr>
      = Some (''cpu'', \<lparr>pg_display = [(''cpu'', ''cpu'')], pg_resolved = []\<rparr>)"
    by (simp add: groups_key_def demo_system_binding or_insert_def)
  have "[0..<length (components demo_system)] = [0]" by (simp add: demo_system_def)
  then show ?thesis
    by (simp add: collect_def collect_component_def collect_thread_def c m g demo_task_readings demo_component_def
      rta_state_new_def emit_if_def unwrap_or_def demo_collected_def demo_ti_def push_entry_def sat_add_def sat_mul_def u64_max_def)
qed

lemma demo_collected_group: "analyze_group demo_collected ''cpu'' = Some [DeadlineMet 0 ''task'' ''cpu'' 3 10]"
proof -
  let ?t = "(demo_ti ''task'' 10 3 None 0)\<lparr>ti_exec_bcet_ps := Some 3\<rparr>"
  have "response_of ?t 3 [] [] = Some (Converged 3)"
    by (simp add: response_of_def demo_ti_def compute_response_time_jittered_blocking_def rta_step_jittered_blocking_def
        rta_step_jittered_def Let_def sat_add_def u64_max_def rta_loop_unfold total_interference_def
        total_interference_jittered_def total_isr_interference_def)
  moreover have "ti_exec_ps ?t = 3" "ti_locking_protocol ?t = None" "ti_deadline_ps ?t = 10" "ti_comp_idx ?t = 0"
    "ti_name ?t = ''task''" "ti_exec_bcet_ps ?t = Some 3"
    by (simp_all add: demo_ti_def)
  ultimately have "analyze_thread ''cpu'' [] [] [] ?t = Some [DeadlineMet 0 ''task'' ''cpu'' 3 10]"
    unfolding analyze_thread_def response_band_def irq_chain_diags_def by simp
  then show ?thesis
    by (simp add: analyze_group_def demo_collected_def rta_state_new_def sort_by_def UNBOUND_def unwrap_or_def
        groups_display_def)
qed

lemma demo_system_analyze:
  "analyze_with demo_system (\<lambda>i. Some (properties_for demo_system i)) (\<lambda>_. Some True)
    = Some [DeadlineMet 0 ''task'' ''cpu'' 3 10]"
proof -
  have "sorted_keys (st_groups demo_collected) (st_threads demo_collected) = [''cpu'']"
    "tier1 demo_collected = []" "st_diags demo_collected = []"
    by (simp_all add: demo_collected_def rta_state_new_def sorted_keys_def sort_by_def tier1_def)
  then show ?thesis by (simp add: analyze_with_def demo_system_collect demo_collected_group)
qed

theorem rta_no_thread_skipped_witness:
  "collect demo_system (\<lambda>i. Some (properties_for demo_system i)) (\<lambda>_. Some True) = Some demo_collected
    \<and> analyze demo_system = Some [DeadlineMet 0 ''task'' ''cpu'' 3 10]
    \<and> (\<exists>proc r. DeadlineMet 0 ''task'' proc r 10 \<in> set [DeadlineMet 0 ''task'' ''cpu'' 3 10]
      \<or> DeadlineExceeded 0 ''task'' proc 10 \<in> set [DeadlineMet 0 ''task'' ''cpu'' 3 10])"
proof -
  let ?t = "(demo_ti ''task'' 10 3 None 0)\<lparr>ti_exec_bcet_ps := Some 3\<rparr>"
  have "map_of (st_threads demo_collected) ''cpu'' = Some [?t]" "''cpu'' \<noteq> UNBOUND"
    by (simp_all add: demo_collected_def UNBOUND_def)
  moreover have "?t \<in> set [?t]" by simp
  moreover have "ti_comp_idx ?t = 0" "ti_name ?t = ''task''" "ti_deadline_ps ?t = 10" by (simp_all add: demo_ti_def)
  ultimately show ?thesis
    using rta_no_thread_skipped [OF demo_system_collect demo_system_analyze, of "''cpu''" "[?t]" ?t]
      demo_system_collect demo_system_analyze unfolding analyze_def by metis
qed

section \<open>Only bound threads get a verdict\<close>

lemma groups_key_unbound: "groups_key inst i None g = Some (key, g') \<Longrightarrow> key = UNBOUND"
  by (simp add: groups_key_def)

lemma st_threads_emit_if [simp]: "st_threads (emit_if b d st) = st_threads st"
  by (simp add: emit_if_def emit_def)

text \<open>A property of whatever a computation returns, taken step by step.\<close>

lemma returns_bind: "pred_option P (Option.bind x f) \<longleftrightarrow> (\<forall>a. x = Some a \<longrightarrow> pred_option P (f a))"
  by (cases x) auto

lemma returns_map: "pred_option P (map_option f x) \<longleftrightarrow> (\<forall>a. x = Some a \<longrightarrow> P (f a))"
  by (cases x) auto

lemma returns_case: "pred_option P (case x of None \<Rightarrow> y | Some a \<Rightarrow> f a)
    \<longleftrightarrow> (case x of None \<Rightarrow> pred_option P y | Some a \<Rightarrow> pred_option P (f a))"
  by (cases x) auto

lemma collect_isr_threads: "pred_option (\<lambda>st'. st_threads st' = st_threads st) (collect_isr inst names lats i nm m st)"
  unfolding collect_isr_def by (simp add: returns_bind Let_def split: option.split prod.split)

lemma collect_thread_threads:
  "pred_option (\<lambda>st'. st_threads st' = st_threads st \<or> (\<exists>key t. st_threads st' = push_entry key t (st_threads st)
    \<and> ti_comp_idx t = i \<and> (get_processor_binding m = None \<longrightarrow> key = UNBOUND))) (collect_thread inst i nm m st)"
proof -
  have push: "\<exists>key' t'. push_entry key t ths = push_entry key' t' ths \<and> ti_comp_idx t' = i
      \<and> (get_processor_binding m = None \<longrightarrow> key' = UNBOUND)"
    if "groups_key inst i (get_processor_binding m) g = Some (key, g')" "ti_comp_idx t = i" for key t g g' ths
    using that groups_key_unbound by metis
  show ?thesis unfolding collect_thread_def
    by (simp add: returns_bind returns_case Let_def push split: option.split)
qed

definition bound_threads :: "(idx \<Rightarrow> property_map option) \<Rightarrow> rta_state \<Rightarrow> bool" where
  "bound_threads props_of st \<longleftrightarrow> (\<forall>key ts. map_of (st_threads st) key = Some ts \<longrightarrow> key \<noteq> UNBOUND \<longrightarrow>
     (\<forall>t \<in> set ts. \<exists>m. props_of (ti_comp_idx t) = Some m \<and> get_processor_binding m \<noteq> None))"

lemma bound_threads_push:
  assumes "bound_threads props_of st" "st_threads st' = push_entry key t (st_threads st)"
    "props_of (ti_comp_idx t) = Some m" "get_processor_binding m = None \<longrightarrow> key = UNBOUND"
  shows "bound_threads props_of st'"
  using assms unfolding bound_threads_def by (fastforce simp: map_of_push_entry split: option.splits if_splits)

lemma collect_isr_bound:
  "bound_threads props_of st \<Longrightarrow> collect_isr inst names lats i nm m st = Some st' \<Longrightarrow> bound_threads props_of st'"
  using collect_isr_threads [of st inst names lats i nm m] by (simp add: bound_threads_def)

lemma collect_thread_bound:
  assumes "bound_threads props_of st" "props_of i = Some m"
  shows "pred_option (bound_threads props_of) (collect_thread inst i nm m st)"
proof (cases "collect_thread inst i nm m st")
  case (Some st')
  with collect_thread_threads [of st i m inst nm]
  have "st_threads st' = st_threads st \<or> (\<exists>key t. st_threads st' = push_entry key t (st_threads st)
    \<and> ti_comp_idx t = i \<and> (get_processor_binding m = None \<longrightarrow> key = UNBOUND))"
    by simp
  then have "bound_threads props_of st'"
  proof (elim disjE exE conjE)
    assume "st_threads st' = st_threads st"
    then show ?thesis using assms(1) by (simp add: bound_threads_def)
  next
    fix key t
    assume "st_threads st' = push_entry key t (st_threads st)" "ti_comp_idx t = i"
      "get_processor_binding m = None \<longrightarrow> key = UNBOUND"
    then show ?thesis using bound_threads_push [OF assms(1)] assms(2) by metis
  qed
  then show ?thesis using Some by simp
qed simp

lemma collect_component_bound:
  "bound_threads props_of st \<Longrightarrow> pred_option (bound_threads props_of) (collect_component inst props_of active names lats i st)"
  unfolding collect_component_def
  by (auto simp: returns_bind intro!: collect_thread_bound split: if_splits intro: collect_isr_bound)

lemma second_pass_keeps:
  assumes "\<And>i st. P st \<Longrightarrow> pred_option P (collect_component inst props_of active names lats i st)"
  shows "P st \<Longrightarrow> pred_option P (second_pass inst props_of active names lats is st)"
proof (induction "is" arbitrary: st)
  case (Cons i "is")
  then show ?case using assms [of st i] by (auto simp: returns_bind)
qed simp

lemma collect_keeps:
  assumes "\<And>names lats i st. P st \<Longrightarrow> pred_option P (collect_component inst props_of active names lats i st)"
    and "P rta_state_new" "collect inst props_of active = Some st"
  shows "P st"
proof -
  have "pred_option P (collect inst props_of active)"
    unfolding collect_def using second_pass_keeps [OF assms(1,2)] by (simp add: returns_bind Let_def split: prod.split)
  then show ?thesis using assms(3) by simp
qed

lemma collect_bound: "collect inst props_of active = Some st \<Longrightarrow> bound_threads props_of st"
  by (rule collect_keeps [OF collect_component_bound]) (simp_all add: bound_threads_def rta_state_new_def)

text \<open>The collection emits no verdicts, and neither does tier 1.\<close>

definition no_verdicts :: "rta_state \<Rightarrow> bool" where
  "no_verdicts st \<longleftrightarrow> (\<forall>d \<in> set (st_diags st). \<not> is_verdict d)"

lemma no_verdicts_emit_if [simp]: "no_verdicts (emit_if b d st) \<longleftrightarrow> no_verdicts st \<and> (b \<longrightarrow> \<not> is_verdict d)"
  by (auto simp: no_verdicts_def emit_if_def emit_def)

lemma no_verdicts_update [simp]:
  "no_verdicts (st\<lparr>st_groups := g\<rparr>) = no_verdicts st" "no_verdicts (st\<lparr>st_threads := t\<rparr>) = no_verdicts st"
  "no_verdicts (st\<lparr>st_isrs := s\<rparr>) = no_verdicts st" "no_verdicts (st\<lparr>st_chains := c\<rparr>) = no_verdicts st"
  by (simp_all add: no_verdicts_def)

lemma collect_isr_silent: "no_verdicts st \<Longrightarrow> pred_option no_verdicts (collect_isr inst names lats i nm m st)"
  unfolding collect_isr_def by (simp add: returns_bind Let_def is_verdict_def split: option.split prod.split)

lemma collect_thread_silent: "no_verdicts st \<Longrightarrow> pred_option no_verdicts (collect_thread inst i nm m st)"
  unfolding collect_thread_def by (simp add: returns_bind returns_case Let_def is_verdict_def split: option.split)

lemma collect_component_silent:
  assumes "no_verdicts st"
  shows "pred_option no_verdicts (collect_component inst props_of active names lats i st)"
proof -
  have "no_verdicts st'" if "collect_isr inst names lats i nm m st = Some st'" for nm m st'
    using collect_isr_silent [OF assms, of inst names lats i nm m] that by simp
  then show ?thesis using assms collect_thread_silent unfolding collect_component_def
    by (auto simp: returns_bind split: if_splits)
qed

lemma collect_silent: "collect inst props_of active = Some st \<Longrightarrow> no_verdicts st"
  by (rule collect_keeps [OF collect_component_silent]) (simp_all add: no_verdicts_def rta_state_new_def)

lemma tier1_silent: "d \<in> set (tier1 st) \<Longrightarrow> \<not> is_verdict d"
  by (auto simp: tier1_def Let_def is_verdict_def split: if_splits)

fun verdict_idx :: "rta_diag \<Rightarrow> idx" where
  "verdict_idx (DeadlineMissed i _ _ _ _) = i"
| "verdict_idx (DeadlineMet i _ _ _ _) = i"
| "verdict_idx (DeadlineExceeded i _ _ _) = i"
| "verdict_idx _ = 0"

lemma analyze_threads_idx:
  assumes "analyze_threads proc isrs irqs before ts = Some ds" "d \<in> set ds" "is_verdict d"
  shows "verdict_idx d \<in> ti_comp_idx ` set ts"
  using assms
proof (induction ts arbitrary: before ds)
  case (Cons u ts)
  then obtain d1 d2 where d: "analyze_thread proc isrs irqs before u = Some d1"
    "analyze_threads proc isrs irqs (before @ [u]) ts = Some d2" "ds = d1 @ d2"
    by (auto simp: bind_eq_Some_conv)
  show ?case
  proof (cases "d \<in> set d1")
    case True
    then have "d \<in> set (filter is_verdict d1)" using Cons.prems(3) by simp
    then show ?thesis using analyze_thread_verdict [OF d(1)] by (auto split: rta_result.splits)
  qed (use Cons d in auto)
qed simp

lemma tier2_diag: "tier2 st ks = Some ds \<Longrightarrow> d \<in> set ds \<Longrightarrow> \<exists>k \<in> set ks. \<exists>g. analyze_group st k = Some g \<and> d \<in> set g"
  by (induction ks arbitrary: ds) (auto simp: bind_eq_Some_conv)

lemma rta_verdicts_bound:
  assumes "analyze_with inst props_of active = Some ds" "d \<in> set ds" "is_verdict d"
  shows "\<exists>m. props_of (verdict_idx d) = Some m \<and> get_processor_binding m \<noteq> None"
proof -
  obtain st d2 where st: "collect inst props_of active = Some st" "ds = st_diags st @ tier1 st @ d2"
    "tier2 st (sorted_keys (st_groups st) (st_threads st)) = Some d2"
    using assms(1) unfolding analyze_with_def by (auto simp: bind_eq_Some_conv)
  have "d \<in> set d2" using assms(2,3) st(2) collect_silent [OF st(1)] tier1_silent by (auto simp: no_verdicts_def)
  then obtain key g where g: "key \<in> set (sorted_keys (st_groups st) (st_threads st))" "analyze_group st key = Some g" "d \<in> set g"
    using tier2_diag [OF st(3)] by blast
  obtain ts where ts: "map_of (st_threads st) key = Some ts"
    using g(1) by (cases "map_of (st_threads st) key") (auto simp: sorted_keys_def keys.set_sort_by map_of_eq_None_iff)
  have key: "key \<noteq> UNBOUND" using g(2,3) by (auto simp: analyze_group_def)
  with g(2) ts have "analyze_threads (groups_display (st_groups st) key) (unwrap_or (map_of (st_isrs st) key) []) (st_chains st) []
      (sort_by thread_order ts) = Some g"
    by (simp add: analyze_group_def)
  from analyze_threads_idx [OF this g(3) assms(3)] have "verdict_idx d \<in> ti_comp_idx ` set ts"
    by (simp add: threads.set_sort_by)
  then show ?thesis using collect_bound [OF st(1)] ts key by (auto simp: bound_threads_def)
qed

end
