(* ===== verification/Arinc_Partition.thy ===== *)
theory Arinc_Partition
  imports Arinc_Supply Rta_Analysis
begin

text \<open>
  The ARINC 653 pass, the second half of \<^verbatim>\<open>crates/spar-analysis/src/arinc_supply.rs\<close>: threads inside a
  virtual processor and without a processor binding are grouped by their partition, ordered by the
  comparator of the response-time pass, and each is analysed by \<open>analyze_task\<close> with the threads before
  it as interference and the longest poll segment after it as blocking.

  A diagnostic keeps the values its message prints; the component index stands for the path. \<open>None\<close>
  is a panic, or a walk along parents that does not end. The \<^verbatim>\<open>BTreeMap\<close> of partitions is an association
  list that is sorted by key when it is iterated.
\<close>

section \<open>Inner tasks\<close>

record inner_task =
  it_comp_idx :: idx
  it_name :: string
  it_period :: u64
  it_exec :: u64
  it_deadline :: u64
  it_segment :: u64
  it_extra_jitter :: u64
  it_priority :: "u64 option"

fun partition_above :: "system_instance \<Rightarrow> nat \<Rightarrow> idx option \<Rightarrow> idx option option" where
  "partition_above inst n None = Some None"
| "partition_above inst 0 (Some ci) = None"
| "partition_above inst (Suc n) (Some ci) =
     (case nth_opt (components inst) ci of
        None \<Rightarrow> None
      | Some c \<Rightarrow> if comp_category c = VirtualProcessor then Some (Some ci)
                  else partition_above inst n (comp_parent c))"

definition owning_partition :: "system_instance \<Rightarrow> idx \<Rightarrow> idx option option" where
  "owning_partition inst i = do {
     c \<leftarrow> nth_opt (components inst) i;
     partition_above inst (length (components inst)) (comp_parent c) }"

text \<open>The timing of an inner task, if its period and execution time are declared.\<close>

definition inner_timing :: "idx \<Rightarrow> string \<Rightarrow> property_map \<Rightarrow> inner_task reading" where
  "inner_timing i nm m = do {
     period \<leftarrow> get_timing_property m ''Period'';
     (case period of
        None \<Rightarrow> Some None
      | Some p \<Rightarrow> do {
          exec \<leftarrow> get_execution_time m;
          (case exec of
             None \<Rightarrow> Some None
           | Some e \<Rightarrow> do {
               deadline \<leftarrow> get_timing_property m ''Deadline'';
               segment \<leftarrow> get_timing_property m ''Poll_Segment_Time'';
               jitter \<leftarrow> get_timing_property m ''Dispatch_Jitter'';
               Some (Some \<lparr>it_comp_idx = i, it_name = nm, it_period = p, it_exec = e,
                 it_deadline = unwrap_or deadline p, it_segment = unwrap_or segment e,
                 it_extra_jitter = unwrap_or jitter 0, it_priority = get_priority m\<rparr>) }) }) }"

type_synonym partitions = "(idx \<times> inner_task list) list"

definition collect_inner :: "system_instance \<Rightarrow> idx \<Rightarrow> partitions \<Rightarrow> partitions option" where
  "collect_inner inst i by_vp = do {
     c \<leftarrow> nth_opt (components inst) i;
     let m = properties_for inst i;
     (if comp_category c \<noteq> Thread \<or> get_processor_binding m \<noteq> None then Some by_vp
      else do {
        vp \<leftarrow> owning_partition inst i;
        (case vp of
           None \<Rightarrow> Some by_vp
         | Some vp \<Rightarrow> map_option (\<lambda>r. case r of None \<Rightarrow> by_vp | Some t \<Rightarrow> push_entry vp t by_vp)
                       (inner_timing i (comp_name c) m)) }) }"

fun collect_inner_tasks :: "system_instance \<Rightarrow> idx list \<Rightarrow> partitions \<Rightarrow> partitions option" where
  "collect_inner_tasks inst [] by_vp = Some by_vp"
| "collect_inner_tasks inst (i # is) by_vp = do {
     by_vp \<leftarrow> collect_inner inst i by_vp;
     collect_inner_tasks inst is by_vp }"

section \<open>The analysis of a partition\<close>

definition inner_order :: "inner_task \<Rightarrow> inner_task \<Rightarrow> ordering" where
  "inner_order a b = dispatch_order (it_priority a) (it_period a) (it_priority b) (it_period b)"

definition inner_triple :: "inner_task \<Rightarrow> u64 \<times> u64 \<times> u64" where
  "inner_triple t = (it_period t, it_exec t, it_extra_jitter t)"

definition blocking_of :: "inner_task list \<Rightarrow> u64" where
  "blocking_of after = unwrap_or (iter_max (map it_segment after)) 0"

definition analyze_inner ::
    "u64 \<Rightarrow> u64 \<Rightarrow> inner_task list \<Rightarrow> inner_task \<Rightarrow> inner_task list \<Rightarrow> supply_rta_outcome option" where
  "analyze_inner period_pi budget_theta before t after =
     analyze_task period_pi budget_theta (it_exec t) (it_deadline t) (blocking_of after) (it_extra_jitter t)
       (map inner_triple before) []"

record supply_diag =
  sd_severity :: severity
  sd_comp_idx :: idx
  sd_name :: string
  sd_vp_name :: string
  sd_period_pi :: u64
  sd_budget_theta :: u64
  sd_blackout :: u64
  sd_outcome :: supply_rta_outcome
  sd_deadline :: u64

definition diagnostic_for :: "inner_task \<Rightarrow> string \<Rightarrow> u64 \<Rightarrow> u64 \<Rightarrow> supply_rta_outcome \<Rightarrow> supply_diag" where
  "diagnostic_for task vp_name period_pi budget_theta outcome =
     \<lparr>sd_severity = (case outcome of JitterPath _ _ \<Rightarrow> Info | FallbackPath _ \<Rightarrow> Info | DeadlineMiss _ \<Rightarrow> Error
                       | Unschedulable \<Rightarrow> Error | IllFormed \<Rightarrow> Error | DeclinedExtraJitter \<Rightarrow> Error),
      sd_comp_idx = it_comp_idx task, sd_name = it_name task, sd_vp_name = vp_name, sd_period_pi = period_pi,
      sd_budget_theta = budget_theta, sd_blackout = derived_jitter period_pi budget_theta, sd_outcome = outcome,
      sd_deadline = it_deadline task\<rparr>"

fun analyze_inner_tasks ::
    "string \<Rightarrow> u64 \<Rightarrow> u64 \<Rightarrow> inner_task list \<Rightarrow> inner_task list \<Rightarrow> supply_diag list option" where
  "analyze_inner_tasks vp_name period_pi budget_theta before [] = Some []"
| "analyze_inner_tasks vp_name period_pi budget_theta before (t # ts) = do {
     outcome \<leftarrow> analyze_inner period_pi budget_theta before t ts;
     ds \<leftarrow> analyze_inner_tasks vp_name period_pi budget_theta (before @ [t]) ts;
     Some (diagnostic_for t vp_name period_pi budget_theta outcome # ds) }"

definition analyze_partition :: "system_instance \<Rightarrow> inner_task list \<Rightarrow> supply_diag list option" where
  "analyze_partition inst tasks = do {
     first \<leftarrow> nth_opt tasks 0;
     owner \<leftarrow> owning_partition inst (it_comp_idx first);
     vp \<leftarrow> owner;
     vp_comp \<leftarrow> nth_opt (components inst) vp;
     let m = properties_for inst vp;
     period \<leftarrow> get_timing_property m ''Period'';
     (case period of
        None \<Rightarrow> Some []
      | Some period_pi \<Rightarrow> do {
          budget \<leftarrow> get_execution_time_or_exec m;
          (case budget of
             None \<Rightarrow> Some []
           | Some budget_theta \<Rightarrow>
               analyze_inner_tasks (comp_name vp_comp) period_pi budget_theta [] (sort_by inner_order tasks)) }) }"

fun analyze_partitions :: "system_instance \<Rightarrow> partitions \<Rightarrow> supply_diag list option" where
  "analyze_partitions inst [] = Some []"
| "analyze_partitions inst ((_, tasks) # ps) = do {
     d \<leftarrow> analyze_partition inst tasks;
     ds \<leftarrow> analyze_partitions inst ps;
     Some (d @ ds) }"

definition arinc_analyze :: "system_instance \<Rightarrow> supply_diag list option" where
  "arinc_analyze inst = do {
     by_vp \<leftarrow> collect_inner_tasks inst [0..<length (components inst)] [];
     analyze_partitions inst (sort_key fst by_vp) }"

interpretation inner: comparator inner_order
  using dispatch_comparator [of it_priority it_period] by (simp add: inner_order_def [abs_def])

section \<open>Verdicts\<close>

lemma diagnostic_severity: "sd_severity (diagnostic_for t vp p b out) = Error \<longleftrightarrow> is_error out"
  by (cases out) (simp_all add: diagnostic_for_def)

lemma blocking_of_bounds: "u \<in> set after \<Longrightarrow> it_segment u \<le> blocking_of after"
proof (cases "iter_max (map it_segment after)")
  case (Some m)
  then show "u \<in> set after \<Longrightarrow> it_segment u \<le> blocking_of after"
    by (simp add: blocking_of_def unwrap_or_def) (auto simp: iter_max_eq_Some)
qed simp

text \<open>A converged driver returns a fixed point of the saturating recurrence.\<close>

lemma driver_converged:
  assumes "compute_response_time_jittered_blocking exec d j b hps isrs = Some (Converged w)"
  shows "periods_pos hps isrs" "w \<le> d" "sat_step (exec + j + b) hps isrs w = w"
  using assms sat_rec.loop_Converged sat_rec.loop_Converged_le
  by (auto simp: blocking_driver_eq split: if_splits)

text \<open>Charging the blackout as jitter is charging a window that is longer by the blackout.\<close>

lemma jitter_as_window:
  "sat_interference (p, c, sat_add b e) w = sat_interference (p, c, e) (sat_add b w)"
proof -
  have "sat_add w (sat_add b e) = sat_add (sat_add b w) e" by (simp add: sat_add_min min_def)
  then show ?thesis by (simp add: sat_interference_def)
qed

lemma rbf_of_busy_window:
  assumes "compute_response_time_jittered_blocking exec d 0 blocking (map (\<lambda>(t, c, e). (t, c, sat_add b e)) hp) [] = Some (Converged w)"
  shows "rbf exec blocking hp (sat_add b w) = Some w"
proof -
  have "sat_interference (case h of (t, c, e) \<Rightarrow> (t, c, sat_add b e)) w = sat_interference h (sat_add b w)" for h
    by (cases h) (simp add: jitter_as_window)
  then have "sat_step (exec + 0 + blocking) (map (\<lambda>(t, c, e). (t, c, sat_add b e)) hp) [] w
      = min (exec + blocking + (\<Sum>h\<leftarrow>hp. sat_interference h (sat_add b w))) u64_max"
    by (simp add: sat_step_def comp_def)
  with driver_converged [OF assms] show ?thesis
    by (fastforce simp: rbf_eq periods_pos_def)
qed

lemma accepted_task_supplied:
  assumes "analyze_task period budget exec deadline blocking extra hp [] = Some out" "\<not> is_error out" "2 * period \<le> u64_max"
    "deadline < u64_max"
  shows "response out \<le> deadline \<and> (\<exists>s d. response out = s + extra \<and> rbf exec blocking hp s = Some d
    \<and> (\<forall>runs a. delivers period budget runs \<longrightarrow> d \<le> supplied runs a s))"
proof (cases out)
  case (JitterPath r w)
  note j = analyze_task_JitterPath [OF assms(1) [unfolded JitterPath]]
  have w: "w \<le> budget" using driver_converged(2) [OF j(5)] .
  have b: "derived_jitter period budget = 2 * (period - budget)"
    using assms(3) by (simp add: derived_jitter_def sat_mul_min)
  have s: "sat_add (derived_jitter period budget) w = 2 * (period - budget) + w"
    unfolding b using w j(2) assms(3) by (intro sat_add_exact) linarith
  have "r = 2 * (period - budget) + w + extra" using j(3,4) assms(4) by (auto simp: b sat_add_min min_def split: if_splits)
  moreover have "rbf exec blocking hp (2 * (period - budget) + w) = Some w"
    using rbf_of_busy_window [OF j(5)] unfolding s .
  moreover have "w \<le> supplied runs a (2 * (period - budget) + w)" if "delivers period budget runs" for runs a
    using supply_after_blackout [OF that j(2) _ w] j(1,2) by simp
  ultimately show ?thesis using j(3) JitterPath by (metis supply_rta_outcome.sel(1))
next
  case (FallbackPath r)
  note f = analyze_task_FallbackPath [OF assms(1) [unfolded FallbackPath]]
  obtain d s where "rbf exec blocking hp r = Some d" "lsbf period budget r = Some s" "d \<le> s"
    using meets_supply_SomeD [OF f(6)] by blast
  moreover have "s \<le> supplied runs a r" if "delivers period budget runs" for runs a
    using lsbf_le_supply [OF that f(2) _ assms(3)] calculation(2) by blast
  moreover have "response out = r" "r = r + extra" using f(3) FallbackPath by simp_all
  ultimately show ?thesis using f(5) order_trans by metis
qed (use assms(2) in auto)

lemma analyze_inner_tasks_nth:
  assumes "analyze_inner_tasks vp p b before ts = Some ds"
  shows "length ds = length ts \<and> (\<forall>i < length ts. \<exists>out. analyze_inner p b (before @ take i ts) (ts ! i) (drop (Suc i) ts) = Some out
    \<and> ds ! i = diagnostic_for (ts ! i) vp p b out)"
  using assms
proof (induction ts arbitrary: before ds)
  case (Cons t ts)
  then obtain out ds' where d: "analyze_inner p b before t ts = Some out" "ds = diagnostic_for t vp p b out # ds'"
    "analyze_inner_tasks vp p b (before @ [t]) ts = Some ds'"
    by (auto simp: bind_eq_Some_conv)
  show ?case using Cons.IH [OF d(3)] d(1,2) by (auto simp: less_Suc_eq_0_disj)
qed simp

text \<open>C12. Verdicts inside a partition are sound: the tasks of a partition are analysed in dispatch order
  and each gets one diagnostic. If a task passes, every task that outranks it is charged as interference,
  no poll segment of a task after it exceeds the blocking term, its response time is within its deadline,
  and in any partition schedule that delivers the budget in every period each window as long as the
  response time less the task's own jitter supplies all the time requested in it.\<close>

theorem partition_verdict_sound:
  assumes "analyze_inner_tasks vp period_pi budget_theta [] (sort_by inner_order ts) = Some ds" "2 * period_pi \<le> u64_max"
    and "i < length ts" "order = sort_by inner_order ts" "t = order ! i" "it_deadline t < u64_max" "sd_severity (ds ! i) \<noteq> Error"
  shows "length ds = length ts \<and> sd_comp_idx (ds ! i) = it_comp_idx t
    \<and> (\<forall>u \<in> set ts. inner_order u t = Less \<longrightarrow> u \<in> set (take i order))
    \<and> (\<forall>u \<in> set (drop (Suc i) order). it_segment u \<le> blocking_of (drop (Suc i) order))
    \<and> response (sd_outcome (ds ! i)) \<le> it_deadline t
    \<and> (\<exists>s d. response (sd_outcome (ds ! i)) = s + it_extra_jitter t
        \<and> rbf (it_exec t) (blocking_of (drop (Suc i) order)) (map inner_triple (take i order)) s = Some d
        \<and> (\<forall>runs a. delivers period_pi budget_theta runs \<longrightarrow> d \<le> supplied runs a s))"
proof -
  have len: "length order = length ts" unfolding assms(4) by (metis inner.mset_sort_by size_mset)
  then have split: "sort_by inner_order ts = take i order @ t # drop (Suc i) order"
    using assms(3-5) id_take_nth_drop by metis
  obtain out where out: "analyze_inner period_pi budget_theta (take i order) t (drop (Suc i) order) = Some out"
    "ds ! i = diagnostic_for t vp period_pi budget_theta out"
    using analyze_inner_tasks_nth [OF assms(1)] assms(3-5) len by auto
  then have "\<not> is_error out" using assms(7) diagnostic_severity by metis
  from accepted_task_supplied [OF out(1) [unfolded analyze_inner_def] this assms(2,6)] show ?thesis
    using analyze_inner_tasks_nth [OF assms(1)] inner.before_in_sort(2) [OF split] blocking_of_bounds len out(2)
    by (auto simp: diagnostic_for_def assms(4))
qed

text \<open>Two tasks in a partition with half of every ten time units.\<close>

definition demo_inner :: "u64 \<Rightarrow> u64 \<Rightarrow> u64 \<Rightarrow> u64 option \<Rightarrow> idx \<Rightarrow> inner_task" where
  "demo_inner p c seg pr i = \<lparr>it_comp_idx = i, it_name = ''task'', it_period = p, it_exec = c, it_deadline = p,
     it_segment = seg, it_extra_jitter = 0, it_priority = pr\<rparr>"

theorem partition_verdict_sound_witness:
  "\<exists>ds. analyze_inner_tasks ''vp'' 10 5 [] (sort_by inner_order [demo_inner 100 2 1 None 4, demo_inner 200 3 3 (Some 7) 5]) = Some ds
    \<and> sd_severity (ds ! 1) = Info \<and> response (sd_outcome (ds ! 1)) \<le> 100
    \<and> (\<exists>s d. response (sd_outcome (ds ! 1)) = s \<and> rbf 2 0 [(200, 3, 0)] s = Some d
        \<and> (\<forall>runs a. delivers 10 5 runs \<longrightarrow> d \<le> supplied runs a s))"
proof -
  let ?l = "demo_inner 100 2 1 None 4" and ?h = "demo_inner 200 3 3 (Some 7) 5"
  have s: "sort_by inner_order [?l, ?h] = [?h, ?l]"
    by (simp add: sort_by_def inner_order_def dispatch_order_def demo_inner_def)
  have "sat_step 4 [] [] 4 = 4" "sat_step 2 [(200, 3, 10)] [] 2 = 5" "sat_step 2 [(200, 3, 10)] [] 5 = 5"
    by (simp_all add: sat_step_def sat_interference_def sat_add_def sat_mul_def div_ceil_def u64_max_def)
  then have "compute_response_time_jittered_blocking 3 5 0 1 [] [] = Some (Converged 4)"
    "compute_response_time_jittered_blocking 2 5 0 0 [(200, 3, 10)] [] = Some (Converged 5)"
    unfolding blocking_driver_eq by (simp_all add: periods_pos_def u64_max_def rta_loop_unfold)
  then have "analyze_task 10 5 3 200 1 0 [] [] = Some (JitterPath 14 4)"
    "analyze_task 10 5 2 100 0 0 [(200, 3, 0)] [] = Some (JitterPath 15 5)"
    by (simp_all add: analyze_task_def derived_jitter_def sat_mul_def sat_add_def u64_max_def)
  then have "analyze_inner 10 5 [] ?h [?l] = Some (JitterPath 14 4)" "analyze_inner 10 5 [?h] ?l [] = Some (JitterPath 15 5)"
    by (simp_all add: analyze_inner_def demo_inner_def blocking_of_def unwrap_or_def inner_triple_def)
  then obtain ds where ds: "analyze_inner_tasks ''vp'' 10 5 [] (sort_by inner_order [?l, ?h]) = Some ds"
    "sd_severity (ds ! 1) = Info"
    unfolding s by (simp add: diagnostic_for_def)
  have "(10 :: nat) * 2 \<le> u64_max" "it_deadline ?l < u64_max" by (simp_all add: u64_max_def demo_inner_def)
  with partition_verdict_sound [OF ds(1), of 1 "[?h, ?l]" ?l] ds(2) s
  have "response (sd_outcome (ds ! 1)) \<le> it_deadline ?l" "\<exists>s d. response (sd_outcome (ds ! 1)) = s + it_extra_jitter ?l
      \<and> rbf (it_exec ?l) (blocking_of []) (map inner_triple [?h]) s = Some d
      \<and> (\<forall>runs a. delivers 10 5 runs \<longrightarrow> d \<le> supplied runs a s)"
    by simp_all
  moreover have "it_deadline ?l = 100" "it_extra_jitter ?l = 0" "it_exec ?l = 2" "blocking_of [] = 0"
    "map inner_triple [?h] = [(200, 3, 0)]"
    by (simp_all add: demo_inner_def blocking_of_def unwrap_or_def inner_triple_def)
  ultimately show ?thesis using ds by (metis add_0_right)
qed

section \<open>Only unbound threads are analysed here\<close>

lemma set_update_alist: "set (AList.update k v al) \<subseteq> insert (k, v) (set al)"
  by (induction al) auto

lemma push_entry_member:
  assumes "(key, vs) \<in> set (push_entry k v al)" "u \<in> set vs"
  shows "u = v \<or> (\<exists>key ws. (key, ws) \<in> set al \<and> u \<in> set ws)"
  using assms set_update_alist [of k _ al] unfolding push_entry_def
  by (fastforce split: option.splits dest: map_of_SomeD)

definition unbound_tasks :: "system_instance \<Rightarrow> partitions \<Rightarrow> bool" where
  "unbound_tasks inst by_vp \<longleftrightarrow>
     (\<forall>(vp, ts) \<in> set by_vp. \<forall>t \<in> set ts. get_processor_binding (properties_for inst (it_comp_idx t)) = None)"

lemma inner_timing_idx: "pred_option (pred_option (\<lambda>t. it_comp_idx t = i)) (inner_timing i nm m)"
  unfolding inner_timing_def by (simp add: returns_bind returns_case split: option.split)

lemma collect_inner_unbound:
  assumes "unbound_tasks inst by_vp"
  shows "pred_option (unbound_tasks inst) (collect_inner inst i by_vp)"
proof -
  have "unbound_tasks inst (push_entry vp t by_vp)"
    if "get_processor_binding (properties_for inst i) = None" "it_comp_idx t = i" for vp t
    using assms that push_entry_member unfolding unbound_tasks_def by fastforce
  moreover have "it_comp_idx t = i" if "inner_timing i nm m = Some (Some t)" for nm m t
    using inner_timing_idx [of i nm m] that by simp
  ultimately show ?thesis using assms unfolding collect_inner_def
    by (auto simp: returns_bind returns_map Let_def split: option.split)
qed

lemma collect_inner_tasks_unbound:
  "unbound_tasks inst by_vp \<Longrightarrow> pred_option (unbound_tasks inst) (collect_inner_tasks inst is by_vp)"
proof (induction "is" arbitrary: by_vp)
  case (Cons i "is")
  then show ?case using collect_inner_unbound [OF Cons.prems, of i] by (auto simp: returns_bind)
qed simp

lemma analyze_inner_tasks_idx:
  assumes "analyze_inner_tasks vp p b before ts = Some ds" "d \<in> set ds"
  shows "sd_comp_idx d \<in> it_comp_idx ` set ts"
proof -
  obtain i where "i < length ts" "d = ds ! i"
    using assms analyze_inner_tasks_nth [OF assms(1)] by (metis in_set_conv_nth)
  then show ?thesis using analyze_inner_tasks_nth [OF assms(1)] by (auto simp: diagnostic_for_def)
qed

lemma analyze_partition_idx:
  assumes "analyze_partition inst ts = Some ds" "d \<in> set ds"
  shows "sd_comp_idx d \<in> it_comp_idx ` set ts"
proof -
  obtain vp p b where "analyze_inner_tasks vp p b [] (sort_by inner_order ts) = Some ds"
    using assms unfolding analyze_partition_def by (auto simp: bind_eq_Some_conv Let_def split: option.splits)
  then show ?thesis using analyze_inner_tasks_idx [OF _ assms(2)] inner.set_sort_by by metis
qed

lemma analyze_partitions_unbound:
  "analyze_partitions inst ps = Some ds \<Longrightarrow> unbound_tasks inst ps \<Longrightarrow> d \<in> set ds \<Longrightarrow>
    get_processor_binding (properties_for inst (sd_comp_idx d)) = None"
  by (induction inst ps arbitrary: ds rule: analyze_partitions.induct)
    (fastforce simp: bind_eq_Some_conv unbound_tasks_def dest: analyze_partition_idx)+

lemma arinc_verdicts_unbound:
  assumes "arinc_analyze inst = Some ds" "d \<in> set ds"
  shows "get_processor_binding (properties_for inst (sd_comp_idx d)) = None"
proof -
  obtain by_vp where "collect_inner_tasks inst [0..<length (components inst)] [] = Some by_vp"
    "analyze_partitions inst (sort_key fst by_vp) = Some ds"
    using assms(1) unfolding arinc_analyze_def by (auto simp: bind_eq_Some_conv)
  moreover have "unbound_tasks inst by_vp"
    using collect_inner_tasks_unbound [of inst "[]" "[0..<length (components inst)]"] calculation(1)
    by (simp add: unbound_tasks_def)
  then have "unbound_tasks inst (sort_key fst by_vp)" by (simp add: unbound_tasks_def)
  ultimately show ?thesis using analyze_partitions_unbound assms(2) by blast
qed

end
