(* ===== verification/System_Modes.thy ===== *)
theory System_Modes
  imports Sys_Instance
begin

text \<open>
  System operation modes, \<^verbatim>\<open>compute_soms\<close> of \<^verbatim>\<open>crates/spar-hir-def/src/instance.rs\<close>: the product of the
  modes of all modal components, expanded one component at a time and cut off at \<open>MAX_SOMS\<close>. The
  function updates two fields of the instance; \<open>None\<close> is an arena index out of range.
\<close>

section \<open>The computation\<close>

type_synonym selection = "(idx \<times> idx) list"

definition MAX_SOMS :: nat where
  "MAX_SOMS = 10000"

definition modal_components :: "system_instance \<Rightarrow> (idx \<times> idx list) list" where
  "modal_components inst =
     filter (\<lambda>(i, ms). ms \<noteq> []) (map (\<lambda>i. (i, comp_modes (components inst ! i))) [0..<length (components inst)])"

text \<open>The product of the mode counts, \<open>None\<close> on overflow (\<^verbatim>\<open>checked_mul\<close>).\<close>

fun mode_product :: "u64 \<Rightarrow> (idx \<times> idx list) list \<Rightarrow> u64 option" where
  "mode_product acc [] = Some acc"
| "mode_product acc ((_, ms) # cs) =
     (if acc * length ms > u64_max then None else mode_product (acc * length ms) cs)"

text \<open>The three nested loops, each left as soon as more than \<open>MAX_SOMS\<close> selections are collected.\<close>

fun push_modes :: "idx \<Rightarrow> idx list \<Rightarrow> selection \<Rightarrow> selection list \<Rightarrow> selection list" where
  "push_modes c [] existing acc = acc"
| "push_modes c (m # ms) existing acc =
     (let acc = acc @ [existing @ [(c, m)]]
      in if length acc > MAX_SOMS then acc else push_modes c ms existing acc)"

fun push_all :: "idx \<Rightarrow> idx list \<Rightarrow> selection list \<Rightarrow> selection list \<Rightarrow> selection list" where
  "push_all c ms [] acc = acc"
| "push_all c ms (existing # es) acc =
     (let acc = push_modes c ms existing acc
      in if length acc > MAX_SOMS then acc else push_all c ms es acc)"

fun expand_soms :: "(idx \<times> idx list) list \<Rightarrow> selection list \<Rightarrow> selection list" where
  "expand_soms [] soms = soms"
| "expand_soms ((c, ms) # cs) soms =
     (let acc = push_all c ms soms []
      in if length acc > MAX_SOMS then acc else expand_soms cs acc)"

definition named_som :: "system_instance \<Rightarrow> selection \<Rightarrow> system_operation_mode option" where
  "named_som inst sel = do {
     ns \<leftarrow> those (map (\<lambda>(_, mi). map_option mode_name (nth_opt (mode_instances inst) mi)) sel);
     Some \<lparr>som_name = join_with ''_'' ns, mode_selections = sel\<rparr> }"

definition compute_soms :: "system_instance \<Rightarrow> system_instance option" where
  "compute_soms inst =
     (let modal_comps = modal_components inst
      in if modal_comps = [] then Some (inst\<lparr>system_operation_modes := []\<rparr>)
      else do {
        let product = mode_product 1 modal_comps;
        let truncated = (case product of None \<Rightarrow> True | Some t \<Rightarrow> t > MAX_SOMS);
        let soms = take MAX_SOMS (expand_soms modal_comps [[]]);
        inst \<leftarrow> (if truncated
                 then do {
                   r \<leftarrow> nth_opt (components inst) (inst_root inst);
                   Some (inst\<lparr>inst_diagnostics := inst_diagnostics inst
                     @ [\<lparr>diag_message = SomsTruncated product MAX_SOMS, diag_path = [comp_name r]\<rparr>]\<rparr>) }
                 else Some inst);
        named \<leftarrow> those (map (named_som inst) soms);
        Some (inst\<lparr>system_operation_modes := named\<rparr>) })"

section \<open>The product\<close>

text \<open>All selections of one mode per component, the first component varying slowest.\<close>

fun all_selections :: "(idx \<times> idx list) list \<Rightarrow> selection list" where
  "all_selections [] = [[]]"
| "all_selections ((c, ms) # cs) = concat (map (\<lambda>m. map (Cons (c, m)) (all_selections cs)) ms)"

definition extended :: "idx \<Rightarrow> idx list \<Rightarrow> selection list \<Rightarrow> selection list" where
  "extended c ms soms = concat (map (\<lambda>e. map (\<lambda>m. e @ [(c, m)]) ms) soms)"

abbreviation combinations :: "(idx \<times> idx list) list \<Rightarrow> nat" where
  "combinations cs \<equiv> prod_list (map (\<lambda>cm. length (snd cm)) cs)"

lemma length_all_selections [simp]: "length (all_selections cs) = combinations cs"
proof (induction cs)
  case (Cons cm cs)
  then show ?case by (cases cm) (simp add: length_concat comp_def sum_list_triv)
qed simp

lemma set_all_selections:
  "set (all_selections cs) = {sel. list_all2 (\<lambda>(c, m) (c', ms). c = c' \<and> m \<in> set ms) sel cs}"
proof (induction cs rule: all_selections.induct)
  case (2 c ms cs)
  show ?case
  proof (intro set_eqI iffI)
    fix sel assume "sel \<in> {sel. list_all2 (\<lambda>(c, m) (c', ms). c = c' \<and> m \<in> set ms) sel ((c, ms) # cs)}"
    then obtain m s where "sel = (c, m) # s" "m \<in> set ms" "list_all2 (\<lambda>(c, m) (c', ms). c = c' \<and> m \<in> set ms) s cs"
      by (auto simp: list_all2_Cons2)
    then show "sel \<in> set (all_selections ((c, ms) # cs))" using 2 by auto
  qed (use 2 in auto)
qed simp

lemma distinct_all_selections:
  "\<forall>(c, ms) \<in> set cs. distinct ms \<Longrightarrow> distinct (all_selections cs)"
proof (induction cs)
  case (Cons cm cs)
  obtain c ms where cm: "cm = (c, ms)" by force
  have d: "distinct (all_selections cs)" "distinct ms" using Cons cm by auto
  have "distinct (concat (map (\<lambda>m. map (Cons (c, m)) (all_selections cs)) ms))" using d
    by (induction ms) (auto simp: distinct_map inj_on_def)
  then show ?case by (simp add: cm)
qed simp

section \<open>The loops compute the product, up to the cap\<close>

lemma push_modes_eq:
  "length acc \<le> MAX_SOMS \<Longrightarrow> push_modes c ms e acc = take (Suc MAX_SOMS) (acc @ map (\<lambda>m. e @ [(c, m)]) ms)"
proof (induction ms arbitrary: acc)
  case (Cons m ms)
  have "Suc (MAX_SOMS - Suc (length acc)) = MAX_SOMS - length acc" if "length acc \<noteq> MAX_SOMS"
    using that Cons.prems by simp
  then show ?case using Cons
    by (cases "length acc = MAX_SOMS") (simp_all add: Let_def Suc_le_eq Suc_diff_le)
qed simp

lemma push_all_eq:
  "length acc \<le> MAX_SOMS \<Longrightarrow> push_all c ms soms acc = take (Suc MAX_SOMS) (acc @ extended c ms soms)"
proof (induction soms arbitrary: acc)
  case (Cons e soms)
  let ?new = "map (\<lambda>m. e @ [(c, m)]) ms"
  show ?case
  proof (cases "length (acc @ ?new) \<le> MAX_SOMS")
    case True
    then show ?thesis using Cons by (simp add: push_modes_eq extended_def)
  next
    case False
    then show ?thesis using Cons.prems by (simp add: push_modes_eq extended_def Let_def)
  qed
qed (simp add: extended_def)

lemma length_extended: "length (extended c ms soms) = length soms * length ms"
  by (simp add: extended_def length_concat comp_def sum_list_triv)

lemma expand_step:
  "expand_soms ((c, ms) # cs) soms =
     (if length soms * length ms > MAX_SOMS then take (Suc MAX_SOMS) (extended c ms soms)
      else expand_soms cs (extended c ms soms))"
  by (auto simp: push_all_eq length_extended Let_def)

lemma extended_selections:
  "concat (map (\<lambda>e. map ((@) e) (all_selections cs)) (extended c ms soms))
    = concat (map (\<lambda>e. map ((@) e) (all_selections ((c, ms) # cs))) soms)"
proof -
  have "(@) (e @ [x]) = (\<lambda>s. e @ x # s)" for e and x :: "idx \<times> idx" by auto
  then show ?thesis by (induction soms) (simp_all add: extended_def map_concat comp_def)
qed

lemma combinations_pos: "\<forall>(c, ms) \<in> set cs. ms \<noteq> [] \<Longrightarrow> 1 \<le> combinations cs"
  by (induction cs) (auto simp: Suc_le_eq)

lemma expand_soms_full:
  assumes "\<forall>(c, ms) \<in> set cs. ms \<noteq> []" "length soms * combinations cs \<le> MAX_SOMS"
  shows "expand_soms cs soms = concat (map (\<lambda>e. map ((@) e) (all_selections cs)) soms)"
  using assms
proof (induction cs arbitrary: soms)
  case (Cons cm cs)
  obtain c ms where cm: "cm = (c, ms)" by force
  have "length soms * length ms \<le> length soms * combinations (cm # cs)"
    using combinations_pos [of cs] Cons.prems(1) by (simp add: cm)
  then have "\<not> length soms * length ms > MAX_SOMS" using Cons.prems(2) by linarith
  then show ?case
    using Cons.IH [of "extended c ms soms"] Cons.prems unfolding cm expand_step
    by (simp add: length_extended extended_selections mult.assoc del: all_selections.simps expand_soms.simps)
qed simp

lemma expand_soms_capped:
  assumes "MAX_SOMS < length soms * combinations cs" "length soms \<le> MAX_SOMS"
  shows "length (expand_soms cs soms) = Suc MAX_SOMS"
  using assms
proof (induction cs arbitrary: soms)
  case (Cons cm cs)
  obtain c ms where cm: "cm = (c, ms)" by force
  show ?case
    using Cons.IH [of "extended c ms soms"] Cons.prems unfolding cm expand_step
    by (auto simp: length_extended mult.assoc simp del: expand_soms.simps)
qed simp

lemma mode_product_eq:
  "\<forall>(c, ms) \<in> set cs. ms \<noteq> [] \<Longrightarrow> mode_product acc cs =
     (if acc * combinations cs > u64_max \<and> cs \<noteq> [] then None else Some (acc * combinations cs))"
proof (induction acc cs rule: mode_product.induct)
  case (2 acc c ms cs)
  have "acc * length ms \<le> acc * length ms * combinations cs" using combinations_pos [of cs] 2 by simp
  then have "u64_max < acc * length ms * combinations cs" if "u64_max < acc * length ms" using that by linarith
  then show ?case using 2 by (auto simp: mult.assoc)
qed simp

section \<open>Properties\<close>

definition modes_valid :: "system_instance \<Rightarrow> bool" where
  "modes_valid inst \<longleftrightarrow> inst_root inst < length (components inst)
     \<and> (\<forall>c \<in> set (components inst). \<forall>m \<in> set (comp_modes c). m < length (mode_instances inst))"

lemma modal_components_nonempty: "\<forall>(c, ms) \<in> set (modal_components inst). ms \<noteq> []"
  by (auto simp: modal_components_def)

lemma those_map_total: "\<forall>x \<in> set xs. \<exists>y. f x = Some y \<Longrightarrow> those (map f xs) = Some (map (the \<circ> f) xs)"
  by (induction xs) auto

text \<open>Every selection the loops build takes its modes from the components.\<close>

lemma expand_soms_modes:
  assumes "\<forall>sel \<in> set soms. \<forall>(c, m) \<in> set sel. P c m" "\<forall>(c, ms) \<in> set cs. \<forall>m \<in> set ms. P c m"
  shows "\<forall>sel \<in> set (expand_soms cs soms). \<forall>(c, m) \<in> set sel. P c m"
  using assms
proof (induction cs arbitrary: soms)
  case (Cons cm cs)
  obtain c ms where cm: "cm = (c, ms)" by force
  have "\<forall>sel \<in> set (extended c ms soms). \<forall>(c, m) \<in> set sel. P c m"
    using Cons.prems by (fastforce simp: extended_def cm)
  then show ?case
    using Cons.IH [of "extended c ms soms"] Cons.prems(2) unfolding cm expand_step
    by (auto dest!: in_set_takeD simp del: expand_soms.simps)
qed simp

lemma expand_soms_width:
  assumes "\<forall>sel \<in> set soms. length sel = n" "MAX_SOMS < length soms * combinations pre" "length soms \<le> MAX_SOMS"
  shows "\<forall>sel \<in> set (expand_soms (pre @ post) soms). length sel \<le> n + length pre"
  using assms
proof (induction pre arbitrary: soms n)
  case (Cons cm pre)
  obtain c ms where cm: "cm = (c, ms)" by force
  have w: "\<forall>sel \<in> set (extended c ms soms). length sel = Suc n" using Cons.prems(1) by (auto simp: extended_def)
  show ?case
  proof (cases "length soms * length ms > MAX_SOMS")
    case True
    then show ?thesis using w unfolding cm append_Cons expand_step by (auto dest!: in_set_takeD)
  next
    case False
    then show ?thesis
      using Cons.IH [OF w] Cons.prems(2) unfolding cm append_Cons expand_step
      by (simp add: length_extended mult.assoc del: expand_soms.simps)
  qed
qed simp

lemma compute_soms_eq:
  assumes "modes_valid inst" "modal_components inst \<noteq> []"
  defines "cs \<equiv> modal_components inst"
  shows "\<exists>inst'. compute_soms inst = Some inst'
    \<and> map mode_selections (system_operation_modes inst') = take MAX_SOMS (expand_soms cs [[]])
    \<and> inst_diagnostics inst' = inst_diagnostics inst @ (if combinations cs > MAX_SOMS
         then [\<lparr>diag_message = SomsTruncated (if combinations cs > u64_max then None else Some (combinations cs)) MAX_SOMS,
                diag_path = [comp_name (components inst ! inst_root inst)]\<rparr>] else [])"
proof -
  have product: "mode_product 1 cs = (if combinations cs > u64_max then None else Some (combinations cs))"
    using mode_product_eq [OF modal_components_nonempty] assms(2) by (simp add: cs_def)
  have big: "u64_max > MAX_SOMS" by (simp add: u64_max_def MAX_SOMS_def)
  define soms where "soms = take MAX_SOMS (expand_soms cs [[]])"
  have valid: "\<forall>(c, ms) \<in> set cs. \<forall>m \<in> set ms. m < length (mode_instances inst)"
    using assms(1) by (auto simp: modes_valid_def cs_def modal_components_def)
  have "\<forall>sel \<in> set soms. \<forall>(c, m) \<in> set sel. m < length (mode_instances inst)"
    using expand_soms_modes [of "[[]]", OF _ valid] unfolding soms_def by (fastforce dest: in_set_takeD)
  then have names: "\<exists>y. named_som i sel = Some y" if "sel \<in> set soms" "mode_instances i = mode_instances inst" for sel i
    using that those_map_total [of sel "\<lambda>(_, mi). map_option mode_name (nth_opt (mode_instances inst) mi)"]
    by (fastforce simp: named_som_def nth_opt_def)
  have those: "those (map (named_som i) soms) = Some (map (the \<circ> named_som i) soms)"
    if "mode_instances i = mode_instances inst" for i
    using names that by (intro those_map_total) blast
  have sel: "mode_selections (the (named_som i s)) = s" if "s \<in> set soms" "mode_instances i = mode_instances inst" for i s
    using names [OF that] by (auto simp: named_som_def bind_eq_Some_conv)
  have root: "nth_opt (components inst) (inst_root inst) = Some (components inst ! inst_root inst)"
    using assms(1) by (simp add: modes_valid_def nth_opt_def)
  show ?thesis
    using assms(2) product root those sel big
    by (cases "combinations cs > u64_max"; cases "combinations cs > MAX_SOMS")
      (simp_all add: compute_soms_def Let_def cs_def [symmetric] soms_def [symmetric] map_idI)
qed

lemma selections_iff:
  assumes "cs = modal_components inst"
  shows "list_all2 (\<lambda>(c, m) (c', ms). c = c' \<and> m \<in> set ms) sel cs \<longleftrightarrow>
    map fst sel = map fst cs \<and> (\<forall>(c, m) \<in> set sel. m \<in> set (comp_modes (components inst ! c)))"
proof -
  have modes: "ms = comp_modes (components inst ! c)" if "(c, ms) \<in> set cs" for c ms
    using that assms by (auto simp: modal_components_def)
  have "list_all2 (\<lambda>(c, m) (c', ms). c = c' \<and> m \<in> set ms) sel cs \<longleftrightarrow>
      list_all2 (\<lambda>(c, m) (c', ms). c = c' \<and> m \<in> set (comp_modes (components inst ! c))) sel cs"
    using modes by (intro list.rel_cong refl) auto
  also have "\<dots> \<longleftrightarrow> map fst sel = map fst cs \<and> (\<forall>(c, m) \<in> set sel. m \<in> set (comp_modes (components inst ! c)))"
    by (induction sel cs rule: list_induct2') auto
  finally show ?thesis .
qed

text \<open>C14. The system operation modes are the product of the modes of the modal components: on an instance
  whose indices are valid the computation returns; if the product has at most \<open>MAX_SOMS\<close> elements, the
  result lists exactly the selections of one declared mode for every modal component, each once, and adds
  no diagnostic; otherwise it lists \<open>MAX_SOMS\<close> selections and adds one.\<close>

theorem compute_soms_exact:
  assumes "modes_valid inst" "cs = modal_components inst" "cs \<noteq> []" "\<forall>c \<in> set (components inst). distinct (comp_modes c)"
  shows "\<exists>inst'. compute_soms inst = Some inst' \<and>
    (let soms = map mode_selections (system_operation_modes inst')
     in if combinations cs \<le> MAX_SOMS
        then distinct soms \<and> length soms = combinations cs \<and> inst_diagnostics inst' = inst_diagnostics inst
          \<and> set soms = {sel. map fst sel = map fst cs \<and> (\<forall>(c, m) \<in> set sel. m \<in> set (comp_modes (components inst ! c)))}
        else length soms = MAX_SOMS \<and> length (inst_diagnostics inst') = Suc (length (inst_diagnostics inst)))"
proof -
  obtain inst' where inst': "compute_soms inst = Some inst'"
    "map mode_selections (system_operation_modes inst') = take MAX_SOMS (expand_soms cs [[]])"
    "length (inst_diagnostics inst') = length (inst_diagnostics inst) + (if combinations cs > MAX_SOMS then 1 else 0)"
    "combinations cs \<le> MAX_SOMS \<Longrightarrow> inst_diagnostics inst' = inst_diagnostics inst"
    using compute_soms_eq [OF assms(1)] assms(2,3) by fastforce
  have "distinct (all_selections cs)"
    using assms(4) unfolding assms(2) by (intro distinct_all_selections) (auto simp: modal_components_def)
  moreover have "expand_soms cs [[]] = all_selections cs" if "combinations cs \<le> MAX_SOMS"
    using expand_soms_full [OF modal_components_nonempty, of "[[]]" inst] that assms(2) by (simp add: map_idI)
  moreover have "length (expand_soms cs [[]]) = Suc MAX_SOMS" if "\<not> combinations cs \<le> MAX_SOMS"
    using expand_soms_capped [of "[[]]" cs] that by (simp add: MAX_SOMS_def)
  ultimately show ?thesis
    using inst' selections_iff [OF assms(2)] by (auto simp: Let_def set_all_selections)
qed

text \<open>Two modal components around one that is not.\<close>

definition demo_modal :: "idx list \<Rightarrow> component_instance" where
  "demo_modal ms = (demo_component ''c'' System None [])\<lparr>comp_modes := ms\<rparr>"

definition demo_modes :: "idx list list \<Rightarrow> system_instance" where
  "demo_modes mss = (demo_inst (map demo_modal mss) [])\<lparr>mode_instances :=
     [\<lparr>mode_name = ''on'', mode_is_initial = True, mode_owner = 0\<rparr>, \<lparr>mode_name = ''off'', mode_is_initial = False, mode_owner = 0\<rparr>]\<rparr>"

lemma demo_modes_components: "components (demo_modes mss) = map demo_modal mss" "comp_modes (demo_modal ms) = ms"
  "length (mode_instances (demo_modes mss)) = 2" "inst_root (demo_modes mss) = 0"
  by (simp_all add: demo_modes_def demo_modal_def demo_component_def)

theorem compute_soms_exact_witness:
  "\<exists>inst'. compute_soms (demo_modes [[0, 1], [], [1]]) = Some inst' \<and>
    set (map mode_selections (system_operation_modes inst')) = {[(0, 0), (2, 1)], [(0, 1), (2, 1)]}"
proof -
  let ?i = "demo_modes [[0, 1], [], [1]]"
  have cs: "modal_components ?i = [(0, [0, 1]), (2, [1])]"
    by (simp add: modal_components_def demo_modes_components upt_rec eval_nat_numeral)
  have "modes_valid ?i" "\<forall>c \<in> set (components ?i). distinct (comp_modes c)"
    by (simp_all add: modes_valid_def demo_modes_components)
  from compute_soms_exact [OF this(1) refl _ this(2)] obtain inst' where i: "compute_soms ?i = Some inst'"
    "set (map mode_selections (system_operation_modes inst')) = {sel. map fst sel = [0, 2] \<and>
      (\<forall>(c, m) \<in> set sel. m \<in> set (comp_modes (components ?i ! c)))}"
    unfolding cs by (auto simp: MAX_SOMS_def Let_def)
  moreover have "{sel. map fst sel = [0, 2] \<and> (\<forall>(c, m) \<in> set sel. m \<in> set (comp_modes (components ?i ! c)))}
      = {[(0, 0), (2, 1)], [(0, 1), (2, 1)]}"
  proof -
    have pair: "map fst sel = [0, 2] \<longleftrightarrow> (\<exists>a b. sel = [(0, a), (2, b)])" for sel :: selection
      by (auto simp: map_eq_Cons_conv)
    have eq: "{sel. map fst sel = [0, 2] \<and> (\<forall>(c, m) \<in> set sel. m \<in> set (f c))} = {[(0, 0), (2, 1)], [(0, 1), (2, 1)]}"
      if "f 0 = [0, 1]" "f 2 = [1]" for f :: "idx \<Rightarrow> idx list"
    proof -
      have "map fst sel = [0, 2] \<and> (\<forall>(c, m) \<in> set sel. m \<in> set (f c)) \<longleftrightarrow> sel = [(0, 0), (2, 1)] \<or> sel = [(0, 1), (2, 1)]" for sel
        unfolding pair by (cases "\<exists>a b. sel = [(0, a), (2, b)]") (auto simp: that)
      then show ?thesis by (simp add: set_eq_iff)
    qed
    have f: "comp_modes (components ?i ! 0) = [0, 1]" "comp_modes (components ?i ! 2) = [1]"
      unfolding demo_modes_components by (simp_all add: demo_modal_def)
    show ?thesis by (rule eq [of "\<lambda>c. comp_modes (components ?i ! c)", OF f])
  qed
  ultimately show ?thesis by (intro exI [of _ inst'] conjI) simp_all
qed

text \<open>The cap leaves selections incomplete: the expansion stops at the component that exceeds it, and the
  components after that one are selected in no system operation mode. With fifteen components of two
  modes each, no system operation mode selects a mode for the last one.\<close>

lemma truncated_soms_partial:
  "\<exists>inst'. compute_soms (demo_modes (replicate 15 [0, 1])) = Some inst'
    \<and> length (modal_components (demo_modes (replicate 15 [0, 1]))) = 15
    \<and> (\<forall>som \<in> set (system_operation_modes inst'). length (mode_selections som) \<le> 14)"
proof -
  let ?i = "demo_modes (replicate 15 [0, 1])"
  have cs: "modal_components ?i = map (\<lambda>i. (i, [0, 1])) [0..<14] @ [(14, [0, 1])]"
  proof -
    have "[0..<15] = [0..<14] @ [14 :: nat]" using upt_Suc [of 0 14] by (simp del: upt_Suc)
    moreover have "map (\<lambda>i. (i, comp_modes (components ?i ! i))) [0..<15] = map (\<lambda>i. (i, [0, 1])) [0..<15]"
      by (rule map_cong) (simp_all add: demo_modes_components del: replicate.simps)
    ultimately show ?thesis unfolding modal_components_def demo_modes_components by (simp add: filter_map comp_def)
  qed
  have "prod_list (map (\<lambda>cm. length (snd cm)) (map (\<lambda>i. (i, [0, 1 :: nat])) [0..<n])) = (2 :: nat) ^ n" for n
    by (induction n) (simp_all add: comp_def)
  from this [of 14]
  have "MAX_SOMS < length [[] :: selection] * combinations (map (\<lambda>i. (i, [0, 1])) [0..<14])"
    by (simp add: MAX_SOMS_def comp_def)
  from expand_soms_width [of "[[]]" 0, OF _ this, of "[(14, [0, 1])]"]
  have w: "\<forall>sel \<in> set (expand_soms (modal_components ?i) [[]]). length sel \<le> 14" unfolding cs by (simp add: MAX_SOMS_def)
  have "modes_valid ?i" by (simp add: modes_valid_def demo_modes_components)
  from compute_soms_eq [OF this] obtain inst' where i: "compute_soms ?i = Some inst'"
    "map mode_selections (system_operation_modes inst') = take MAX_SOMS (expand_soms (modal_components ?i) [[]])"
    unfolding cs by auto
  have "length (mode_selections som) \<le> 14" if "som \<in> set (system_operation_modes inst')" for som
  proof -
    have "mode_selections som \<in> set (take MAX_SOMS (expand_soms (modal_components ?i) [[]]))"
      using that i(2) by (metis image_eqI set_map)
    then show ?thesis using w by (auto dest: in_set_takeD)
  qed
  then show ?thesis using i(1) cs by auto
qed

end
