(* ===== verification/Mode_Reachability.thy ===== *)
theory Mode_Reachability
  imports Rta_Analysis System_Modes
begin

text \<open>
  Mode reachability, \<^verbatim>\<open>crates/spar-analysis/src/mode_reachability.rs\<close>: for every modal component the
  matrix of modes reachable along transitions, the modes that cannot be reached from the initial one,
  and the transitions with an unconnected trigger.

  The two ordered containers of the source are a map from folded names to positions and sorted lists
  without repetition. The work list is kept top first. An index out of range is \<open>None\<close>; on a
  well-formed instance it does not occur. The exports to NuSMV and DOT print these results and are not
  modelled.
\<close>

section \<open>Data\<close>

record dead_transition =
  dt_name :: string
  dt_source :: string
  dt_destination :: string
  dt_trigger :: string

record reachability_matrix =
  rm_component_idx :: idx
  rm_modes :: "string list"
  rm_initial_mode :: string
  rm_matrix :: "bool list list"
  rm_unreachable :: "string list"
  rm_dead_transitions :: "dead_transition list"

definition modes_for :: "system_instance \<Rightarrow> idx \<Rightarrow> mode_instance list option" where
  "modes_for inst i = do {
     c \<leftarrow> nth_opt (components inst) i;
     those (map (nth_opt (mode_instances inst)) (comp_modes c)) }"

definition mode_transitions_for :: "system_instance \<Rightarrow> idx \<Rightarrow> mode_transition_instance list option" where
  "mode_transitions_for inst i = do {
     c \<leftarrow> nth_opt (components inst) i;
     those (map (nth_opt (mode_transition_instances inst)) (comp_mode_transitions c)) }"

section \<open>The search\<close>

text \<open>The last of several modes with the same folded name keeps the entry.\<close>

definition mode_index :: "string list \<Rightarrow> string \<rightharpoonup> nat" where
  "mode_index names = map_of (rev (zip (map to_ascii_lowercase names) [0..<length names]))"

fun adjacency :: "(string \<rightharpoonup> nat) \<Rightarrow> mode_transition_instance list \<Rightarrow> nat list list \<Rightarrow> nat list list option" where
  "adjacency index [] adj = Some adj"
| "adjacency index (mt # mts) adj =
     (case (index (to_ascii_lowercase (mt_source mt)), index (to_ascii_lowercase (mt_destination mt))) of
        (Some si, Some di) \<Rightarrow>
          (case nth_opt adj si of
             None \<Rightarrow> None
           | Some ds \<Rightarrow> adjacency index mts (adj[si := insort_insert di ds]))
      | _ \<Rightarrow> adjacency index mts adj)"

fun visit :: "nat list \<Rightarrow> bool list \<Rightarrow> nat list \<Rightarrow> (bool list \<times> nat list) option" where
  "visit [] visited queue = Some (visited, queue)"
| "visit (n # ns) visited queue =
     (case nth_opt visited n of
        None \<Rightarrow> None
      | Some seen \<Rightarrow> if seen then visit ns visited queue else visit ns (visited[n := True]) (n # queue))"

definition unseen :: "bool list \<Rightarrow> nat" where
  "unseen visited = length (filter Not visited)"

lemma unseen_mark: "n < length visited \<Longrightarrow> \<not> visited ! n \<Longrightarrow> Suc (unseen (visited[n := True])) = unseen visited"
proof (induction visited arbitrary: n)
  case (Cons v visited)
  then show ?case by (cases n) (auto simp: unseen_def)
qed simp

lemma visit_measure:
  "visit ns visited queue = Some (visited', queue') \<Longrightarrow> unseen visited' + length queue' = unseen visited + length queue"
  by (induction ns visited queue rule: visit.induct)
    (auto simp: nth_opt_def split: if_splits dest!: unseen_mark)

function search_modes :: "nat list list \<Rightarrow> bool list \<Rightarrow> nat list \<Rightarrow> bool list option" where
  "search_modes adj visited [] = Some visited"
| "search_modes adj visited (current # queue) =
     (case nth_opt adj current of
        None \<Rightarrow> None
      | Some ns \<Rightarrow>
          (case visit ns visited queue of
             None \<Rightarrow> None
           | Some (visited', queue') \<Rightarrow> search_modes adj visited' queue'))"
  by pat_completeness auto
termination
  by (relation "measure (\<lambda>(adj, visited, queue). unseen visited + length queue)") (auto dest: visit_measure)

definition reach_row :: "nat list list \<Rightarrow> nat \<Rightarrow> nat \<Rightarrow> bool list option" where
  "reach_row adj n start = do {
     ns \<leftarrow> nth_opt adj start;
     (visited, queue) \<leftarrow> visit ns ((replicate n False)[start := True]) [];
     search_modes adj visited queue }"

section \<open>Dead transitions\<close>

definition dst_feature_if :: "(connection_end \<Rightarrow> bool) \<Rightarrow> system_instance \<Rightarrow> idx \<Rightarrow> string list option" where
  "dst_feature_if P inst ci = map_option (\<lambda>conn. case conn_dst conn of
       Some dst \<Rightarrow> if P dst then [to_ascii_lowercase (ce_feature dst)] else []
     | None \<Rightarrow> []) (nth_opt (connections inst) ci)"

definition dst_features :: "(connection_end \<Rightarrow> bool) \<Rightarrow> system_instance \<Rightarrow> component_instance \<Rightarrow> string list option" where
  "dst_features P inst c = map_option concat (those (map (dst_feature_if P inst) (comp_connections c)))"

definition connected_features :: "system_instance \<Rightarrow> idx \<Rightarrow> string list option" where
  "connected_features inst i = do {
     c \<leftarrow> nth_opt (components inst) i;
     own \<leftarrow> dst_features (\<lambda>dst. ce_subcomponent dst = None) inst c;
     let semantic = map (to_ascii_lowercase \<circ> snd \<circ> sc_destination)
                      (filter (\<lambda>sc. fst (sc_destination sc) = i) (semantic_connections inst));
     outer \<leftarrow> (case comp_parent c of
                 None \<Rightarrow> Some []
               | Some p \<Rightarrow> do {
                   pc \<leftarrow> nth_opt (components inst) p;
                   dst_features (\<lambda>dst. case ce_subcomponent dst of
                       Some s \<Rightarrow> eq_ignore_ascii_case s (comp_name c) | None \<Rightarrow> False) inst pc });
     Some (own @ semantic @ outer) }"

definition transition_label :: "mode_transition_instance \<Rightarrow> string" where
  "transition_label mt = (case mt_name mt of Some n \<Rightarrow> n | None \<Rightarrow> mt_source mt @ ''->'' @ mt_destination mt)"

definition find_dead_transitions :: "system_instance \<Rightarrow> idx \<Rightarrow> mode_transition_instance list \<Rightarrow> dead_transition list option" where
  "find_dead_transitions inst i transitions = map_option (\<lambda>connected.
     concat (map (\<lambda>mt. map (\<lambda>t. \<lparr>dt_name = transition_label mt, dt_source = mt_source mt,
                                 dt_destination = mt_destination mt, dt_trigger = t\<rparr>)
                       (filter (\<lambda>t. to_ascii_lowercase t \<notin> set connected) (mt_triggers mt))) transitions))
     (connected_features inst i)"

section \<open>The analysis\<close>

definition reachability_of :: "system_instance \<Rightarrow> idx \<Rightarrow> reachability_matrix option option" where
  "reachability_of inst i = do {
     modes \<leftarrow> modes_for inst i;
     transitions \<leftarrow> mode_transitions_for inst i;
     (if length modes < 2 \<or> transitions = [] then Some None
      else case find mode_is_initial modes of
        None \<Rightarrow> Some None
      | Some m \<Rightarrow> do {
          let names = map mode_name modes;
          let index = mode_index names;
          let n = length names;
          adj \<leftarrow> adjacency index transitions (replicate n []);
          matrix \<leftarrow> those (map (reach_row adj n) [0..<n]);
          let initial_idx = unwrap_or (index (to_ascii_lowercase (mode_name m))) 0;
          row \<leftarrow> nth_opt matrix initial_idx;
          let unreachable = map (\<lambda>i. names ! i) (filter (\<lambda>i. i \<noteq> initial_idx \<and> \<not> row ! i) [0..<n]);
          dead \<leftarrow> find_dead_transitions inst i transitions;
          Some (Some \<lparr>rm_component_idx = i, rm_modes = names, rm_initial_mode = mode_name m, rm_matrix = matrix,
                      rm_unreachable = unreachable, rm_dead_transitions = dead\<rparr>) }) }"

definition compute_reachability_matrices :: "system_instance \<Rightarrow> reachability_matrix list option" where
  "compute_reachability_matrices inst =
     map_option (List.map_filter id) (those (map (reachability_of inst) [0..<length (components inst)]))"

datatype mode_diag =
    UnreachableMode idx string string
  | DeadTransition idx dead_transition
  | ReachabilitySummary idx nat nat string

definition mode_diagnostics :: "reachability_matrix \<Rightarrow> mode_diag list" where
  "mode_diagnostics m =
     map (\<lambda>mode. UnreachableMode (rm_component_idx m) mode (rm_initial_mode m)) (rm_unreachable m)
     @ map (DeadTransition (rm_component_idx m)) (rm_dead_transitions m)
     @ [ReachabilitySummary (rm_component_idx m) (length (rm_modes m) - length (rm_unreachable m)) (length (rm_modes m))
          (rm_initial_mode m)]"

definition mode_analyze :: "system_instance \<Rightarrow> mode_diag list option" where
  "mode_analyze inst = map_option (\<lambda>ms. concat (map mode_diagnostics ms)) (compute_reachability_matrices inst)"

section \<open>The search finds what is reachable\<close>

definition marked :: "bool list \<Rightarrow> nat set" where
  "marked visited = {i. i < length visited \<and> visited ! i}"

definition edge :: "nat list list \<Rightarrow> nat \<Rightarrow> nat \<Rightarrow> bool" where
  "edge adj i j \<longleftrightarrow> i < length adj \<and> j \<in> set (adj ! i)"

definition adj_wf :: "nat \<Rightarrow> nat list list \<Rightarrow> bool" where
  "adj_wf n adj \<longleftrightarrow> length adj = n \<and> (\<forall>i < n. \<forall>j \<in> set (adj ! i). j < n)"

lemma marked_update: "n < length visited \<Longrightarrow> marked (visited[n := True]) = insert n (marked visited)"
  by (auto simp: marked_def nth_list_update)

lemma marked_start: "start < n \<Longrightarrow> marked ((replicate n False)[start := True]) = {start}"
  by (auto simp: marked_def nth_list_update)

lemma visit_spec:
  assumes "\<forall>j \<in> set ns. j < length visited"
  shows "\<exists>visited' queue'. visit ns visited queue = Some (visited', queue') \<and> length visited' = length visited
    \<and> marked visited' = marked visited \<union> set ns \<and> set queue' = set queue \<union> (set ns - marked visited)"
  using assms
proof (induction ns visited queue rule: visit.induct)
  case (2 n ns visited queue)
  then have n: "nth_opt visited n = Some (visited ! n)" "n < length visited" by (simp_all add: nth_opt_def)
  show ?case
  proof (cases "visited ! n")
    case True
    then have "n \<in> marked visited" using n(2) by (simp add: marked_def)
    then show ?thesis using 2(1) [OF n(1) True] 2(3) True n(1) by (simp add: insert_absorb insert_Diff_if)
  next
    case False
    then have "n \<notin> marked visited" by (simp add: marked_def)
    moreover obtain visited' queue' where "visit ns (visited[n := True]) (n # queue) = Some (visited', queue')"
      "length visited' = length visited" "marked visited' = insert n (marked visited) \<union> set ns"
      "set queue' = insert n (set queue) \<union> (set ns - insert n (marked visited))"
      using 2(2) [OF n(1) False] 2(3) n(2) by (auto simp: marked_update)
    ultimately show ?thesis using False n(1) by auto
  qed
qed simp

text \<open>Marked modes are reachable, and the successors of a marked mode are marked unless it still waits.\<close>

definition modes_inv :: "nat list list \<Rightarrow> nat \<Rightarrow> bool list \<Rightarrow> nat list \<Rightarrow> bool" where
  "modes_inv adj start visited queue \<longleftrightarrow> length visited = length adj \<and> set queue \<subseteq> marked visited \<and> start \<in> marked visited
     \<and> marked visited \<subseteq> {j. (edge adj)\<^sup>*\<^sup>* start j}
     \<and> (\<forall>i \<in> marked visited - set queue. \<forall>j. edge adj i j \<longrightarrow> j \<in> marked visited)"

lemma modes_invD:
  assumes "modes_inv adj start visited queue"
  shows "length visited = length adj" "set queue \<subseteq> marked visited" "start \<in> marked visited"
    "j \<in> marked visited \<Longrightarrow> (edge adj)\<^sup>*\<^sup>* start j"
    "i \<in> marked visited \<Longrightarrow> i \<notin> set queue \<Longrightarrow> edge adj i j \<Longrightarrow> j \<in> marked visited"
  using assms unfolding modes_inv_def by blast+

lemma marked_less: "i \<in> marked visited \<Longrightarrow> i < length visited"
  by (simp add: marked_def)

lemma modes_inv_visit:
  assumes "adj_wf n adj" "modes_inv adj start visited (current # queue)"
  shows "\<exists>visited' queue'. visit (adj ! current) visited queue = Some (visited', queue') \<and> modes_inv adj start visited' queue'"
proof -
  have "current \<in> marked visited" using modes_invD(2) [OF assms(2)] by simp
  moreover have "length visited = n" using modes_invD(1) [OF assms(2)] assms(1) by (simp add: adj_wf_def)
  ultimately have c: "current \<in> marked visited" "length visited = n" "current < n"
    using marked_less by blast+
  then have "\<forall>j \<in> set (adj ! current). j < length visited" using assms(1) by (simp add: adj_wf_def)
  from visit_spec [OF this, of queue]
  obtain visited' queue' where v: "visit (adj ! current) visited queue = Some (visited', queue')"
    "length visited' = length visited" "marked visited' = marked visited \<union> set (adj ! current)"
    "set queue' = set queue \<union> (set (adj ! current) - marked visited)"
    by blast
  have succ: "j \<in> set (adj ! current) \<longleftrightarrow> edge adj current j" for j
    using c(3) assms(1) by (simp add: edge_def adj_wf_def)
  note inv = modes_invD [OF assms(2)]
  have "(edge adj)\<^sup>*\<^sup>* start j" if "edge adj current j" for j
    using inv(4) [OF c(1)] that by (rule rtranclp.rtrancl_into_rtrancl)
  then have "marked visited' \<subseteq> {j. (edge adj)\<^sup>*\<^sup>* start j}" unfolding v(3) using inv(4) succ by blast
  moreover have "j \<in> marked visited'" if "i \<in> marked visited' - set queue'" "edge adj i j" for i j
    using that inv(5) succ unfolding v(3,4) by auto
  ultimately have "modes_inv adj start visited' queue'"
    using inv(1-3) unfolding modes_inv_def v(2-4) by auto
  with v(1) show ?thesis by blast
qed

lemma modes_inv_done:
  assumes "modes_inv adj start visited []"
  shows "marked visited = {j. (edge adj)\<^sup>*\<^sup>* start j}"
proof (intro subset_antisym subsetI)
  fix j assume "j \<in> {j. (edge adj)\<^sup>*\<^sup>* start j}"
  then have "(edge adj)\<^sup>*\<^sup>* start j" by simp
  then show "j \<in> marked visited"
  proof (induction rule: rtranclp_induct)
    case (step i j)
    then show ?case using modes_invD(5) [OF assms] by simp
  qed (rule modes_invD(3) [OF assms])
qed (use modes_invD(4) [OF assms] in simp)

lemma search_modes_spec:
  assumes "adj_wf n adj" "modes_inv adj start visited queue"
  shows "\<exists>visited'. search_modes adj visited queue = Some visited' \<and> length visited' = n
    \<and> marked visited' = {j. (edge adj)\<^sup>*\<^sup>* start j}"
  using assms
proof (induction adj visited queue rule: search_modes.induct)
  case (1 adj visited)
  then show ?case using modes_inv_done [OF 1(2)] modes_invD(1) [OF 1(2)] by (simp add: adj_wf_def)
next
  case (2 adj visited current queue)
  obtain visited' queue' where v: "visit (adj ! current) visited queue = Some (visited', queue')"
    "modes_inv adj start visited' queue'"
    using modes_inv_visit [OF 2(2,3)] by blast
  have a: "nth_opt adj current = Some (adj ! current)"
    using modes_invD(1,2) [OF 2(3)] marked_less [of current visited] by (simp add: nth_opt_def)
  show ?case using 2(1) [OF a v(1) refl 2(2) v(2)] by (simp add: a v(1))
qed

lemma reach_row_spec:
  assumes "adj_wf n adj" "start < n"
  shows "\<exists>row. reach_row adj n start = Some row \<and> length row = n \<and> marked row = {j. (edge adj)\<^sup>*\<^sup>* start j}"
proof -
  let ?v = "(replicate n False)[start := True]"
  have s: "nth_opt adj start = Some (adj ! start)" using assms by (simp add: nth_opt_def adj_wf_def)
  have "modes_inv adj start ?v [start]"
    using assms by (simp add: modes_inv_def marked_start adj_wf_def)
  from modes_inv_visit [OF assms(1) this] obtain visited queue where
    "visit (adj ! start) ?v [] = Some (visited, queue)" "modes_inv adj start visited queue" by blast
  then show ?thesis using search_modes_spec [OF assms(1)] s by (simp add: reach_row_def)
qed

section \<open>Modes by name\<close>

text \<open>One transition between declared modes, on folded names.\<close>

inductive mode_step :: "string list \<Rightarrow> mode_transition_instance list \<Rightarrow> string \<Rightarrow> string \<Rightarrow> bool" for names mts where
  "mt \<in> set mts \<Longrightarrow> to_ascii_lowercase (mt_source mt) \<in> to_ascii_lowercase ` set names \<Longrightarrow>
     to_ascii_lowercase (mt_destination mt) \<in> to_ascii_lowercase ` set names \<Longrightarrow>
     mode_step names mts (to_ascii_lowercase (mt_source mt)) (to_ascii_lowercase (mt_destination mt))"

lemma mode_index_iff:
  assumes "distinct (map to_ascii_lowercase names)"
  shows "mode_index names x = Some i \<longleftrightarrow> i < length names \<and> to_ascii_lowercase (names ! i) = x"
proof -
  have "mode_index names = map_of (zip (map to_ascii_lowercase names) [0..<length names])"
    unfolding mode_index_def using assms by (intro map_of_inject_set [THEN iffD2]) (simp_all add: rev_map [symmetric])
  then have "mode_index names x = Some i \<longleftrightarrow> (x, i) \<in> set (zip (map to_ascii_lowercase names) [0..<length names])"
    using assms by simp
  also have "\<dots> \<longleftrightarrow> i < length names \<and> to_ascii_lowercase (names ! i) = x"
  proof
    assume "(x, i) \<in> set (zip (map to_ascii_lowercase names) [0..<length names])"
    then show "i < length names \<and> to_ascii_lowercase (names ! i) = x" by (auto simp: in_set_zip)
  next
    assume "i < length names \<and> to_ascii_lowercase (names ! i) = x"
    then show "(x, i) \<in> set (zip (map to_ascii_lowercase names) [0..<length names])"
      by (auto simp: in_set_zip intro!: exI [of _ i])
  qed
  finally show ?thesis .
qed

lemma adjacency_spec:
  assumes "adj_wf n adj" "\<forall>x i. index x = Some i \<longrightarrow> i < n"
  shows "\<exists>adj'. adjacency index mts adj = Some adj' \<and> adj_wf n adj'
    \<and> (\<forall>i j. edge adj' i j \<longleftrightarrow> edge adj i j \<or> (\<exists>mt \<in> set mts. index (to_ascii_lowercase (mt_source mt)) = Some i
          \<and> index (to_ascii_lowercase (mt_destination mt)) = Some j))"
  using assms(1)
proof (induction mts arbitrary: adj)
  case (Cons mt mts)
  show ?case
  proof (cases "\<exists>si di. index (to_ascii_lowercase (mt_source mt)) = Some si \<and> index (to_ascii_lowercase (mt_destination mt)) = Some di")
    case True
    then obtain si di where d: "index (to_ascii_lowercase (mt_source mt)) = Some si"
      "index (to_ascii_lowercase (mt_destination mt)) = Some di" by blast
    then have lt: "si < n" "di < n" using assms(2) by auto
    let ?adj = "adj[si := insort_insert di (adj ! si)]"
    have wf: "adj_wf n ?adj"
      using Cons.prems lt by (auto simp: adj_wf_def nth_list_update set_insort_insert)
    have e: "edge ?adj i j \<longleftrightarrow> edge adj i j \<or> i = si \<and> j = di" for i j
      using Cons.prems lt by (auto simp: adj_wf_def edge_def nth_list_update set_insort_insert)
    have "nth_opt adj si = Some (adj ! si)" using Cons.prems lt by (simp add: nth_opt_def adj_wf_def)
    then show ?thesis using Cons.IH [OF wf] d by (auto simp: e)
  next
    case False
    then have "adjacency index (mt # mts) adj = adjacency index mts adj" by (auto split: option.splits)
    then show ?thesis using Cons.IH [OF Cons.prems] False by auto
  qed
qed simp

section \<open>Properties\<close>

lemma step_edge:
  assumes "distinct (map to_ascii_lowercase names)"
    and "\<forall>i j. edge adj i j \<longleftrightarrow> (\<exists>mt \<in> set mts. mode_index names (to_ascii_lowercase (mt_source mt)) = Some i
          \<and> mode_index names (to_ascii_lowercase (mt_destination mt)) = Some j)"
  shows "a < length names \<Longrightarrow> (edge adj)\<^sup>*\<^sup>* a b \<longleftrightarrow>
    b < length names \<and> (mode_step names mts)\<^sup>*\<^sup>* (to_ascii_lowercase (names ! a)) (to_ascii_lowercase (names ! b))"
proof -
  let ?l = "\<lambda>i. to_ascii_lowercase (names ! i)"
  note index = mode_index_iff [OF assms(1)]
  have inj: "i = j" if "?l i = ?l j" "i < length names" "j < length names" for i j
    using that assms(1) by (simp add: distinct_conv_nth) metis
  have edge: "edge adj i j \<longleftrightarrow> i < length names \<and> j < length names \<and> mode_step names mts (?l i) (?l j)" for i j
  proof
    assume "edge adj i j"
    then obtain mt where mt: "mt \<in> set mts" "i < length names" "?l i = to_ascii_lowercase (mt_source mt)"
      "j < length names" "?l j = to_ascii_lowercase (mt_destination mt)"
      using assms(2) index by auto
    then have "mode_step names mts (?l i) (?l j)" using mode_step.intros [OF mt(1), of names] by (metis imageI nth_mem)
    with mt(2,4) show "i < length names \<and> j < length names \<and> mode_step names mts (?l i) (?l j)" by simp
  next
    assume a: "i < length names \<and> j < length names \<and> mode_step names mts (?l i) (?l j)"
    then obtain mt where "mt \<in> set mts" "?l i = to_ascii_lowercase (mt_source mt)" "?l j = to_ascii_lowercase (mt_destination mt)"
      by (auto elim: mode_step.cases)
    then show "edge adj i j" using a assms(2) index by metis
  qed
  have back_path: "(mode_step names mts)\<^sup>*\<^sup>* (?l a) y \<Longrightarrow> a < length names \<Longrightarrow> b < length names \<Longrightarrow> ?l b = y \<Longrightarrow> (edge adj)\<^sup>*\<^sup>* a b" for y b
  proof (induction arbitrary: b rule: rtranclp_induct)
    case base
    then show ?case using inj by blast
  next
    case (step y z)
    then obtain c where c: "c < length names" "?l c = y" by (auto elim!: mode_step.cases simp: in_set_conv_nth)
    then have "edge adj c b" using step.hyps(2) step.prems edge by blast
    then show ?case using step.IH [OF step.prems(1) c] by simp
  qed
  have forth_path: "(edge adj)\<^sup>*\<^sup>* a b \<Longrightarrow> a < length names \<Longrightarrow> b < length names \<and> (mode_step names mts)\<^sup>*\<^sup>* (?l a) (?l b)"
  proof (induction rule: rtranclp_induct)
    case (step i j)
    then show ?case using edge by (meson rtranclp.rtrancl_into_rtrancl)
  qed simp
  show "a < length names \<Longrightarrow> (edge adj)\<^sup>*\<^sup>* a b \<longleftrightarrow> b < length names \<and> (mode_step names mts)\<^sup>*\<^sup>* (?l a) (?l b)"
    using back_path forth_path by blast
qed

lemma find_in_list: "find P xs = Some x \<Longrightarrow> x \<in> set xs \<and> P x"
  by (induction xs) (auto split: if_splits)

text \<open>C15. Mode reachability is exact: for a modal component whose modes have different names the search
  ends, the matrix relates two modes precisely when a sequence of transitions between declared modes
  leads from one to the other, and the modes reported as unreachable are precisely those to which no
  such sequence leads from the initial mode.\<close>

theorem mode_reachability_exact:
  assumes "modes_for inst i = Some modes" "mode_transitions_for inst i = Some mts" "2 \<le> length modes" "mts \<noteq> []"
    and "find mode_is_initial modes = Some m" "distinct (map to_ascii_lowercase names)" "names = map mode_name modes"
    and "connected_features inst i = Some connected"
  shows "\<exists>mx. reachability_of inst i = Some (Some mx) \<and> rm_modes mx = names
    \<and> (\<forall>a < length names. \<forall>b < length names. rm_matrix mx ! a ! b \<longleftrightarrow>
         (mode_step names mts)\<^sup>*\<^sup>* (to_ascii_lowercase (names ! a)) (to_ascii_lowercase (names ! b)))
    \<and> rm_unreachable mx = filter (\<lambda>x. \<not> (mode_step names mts)\<^sup>*\<^sup>* (to_ascii_lowercase (mode_name m)) (to_ascii_lowercase x)) names"
proof -
  let ?l = "\<lambda>i. to_ascii_lowercase (names ! i)" and ?n = "length names"
  note index = mode_index_iff [OF assms(6)]
  obtain k where k: "k < ?n" "names ! k = mode_name m"
    using find_in_list [OF assms(5)] assms(7) by (auto simp: in_set_conv_nth)
  then have init: "mode_index names (to_ascii_lowercase (mode_name m)) = Some k" unfolding index by simp
  have "adj_wf ?n (replicate ?n [])" by (simp add: adj_wf_def)
  moreover have no_edge: "\<not> edge (replicate ?n []) i j" for i j by (simp add: edge_def)
  moreover have "\<forall>x i. mode_index names x = Some i \<longrightarrow> i < ?n" using index by blast
  ultimately obtain adj where
    adj: "adjacency (mode_index names) mts (replicate ?n []) = Some adj" "adj_wf ?n adj"
    and e: "\<forall>i j. edge adj i j \<longleftrightarrow> (\<exists>mt \<in> set mts. mode_index names (to_ascii_lowercase (mt_source mt)) = Some i
          \<and> mode_index names (to_ascii_lowercase (mt_destination mt)) = Some j)"
    using adjacency_spec [of ?n "replicate ?n []" "mode_index names" mts] by auto
  define matrix where "matrix = map (the \<circ> reach_row adj ?n) [0..<?n]"
  have rows: "\<forall>a \<in> set [0..<?n]. \<exists>row. reach_row adj ?n a = Some row" using reach_row_spec [OF adj(2)] by fastforce
  have those: "those (map (reach_row adj ?n) [0..<?n]) = Some matrix"
    unfolding matrix_def by (rule those_map_total [OF rows])
  have cell: "matrix ! a ! b \<longleftrightarrow> (mode_step names mts)\<^sup>*\<^sup>* (?l a) (?l b)" if ab: "a < ?n" "b < ?n" for a b
  proof -
    obtain row where row: "reach_row adj ?n a = Some row" "length row = ?n" "marked row = {j. (edge adj)\<^sup>*\<^sup>* a j}"
      using reach_row_spec [OF adj(2) ab(1)] by blast
    have "matrix ! a = row" using ab row(1) by (simp add: matrix_def)
    then have "matrix ! a ! b \<longleftrightarrow> b \<in> marked row" using ab row(2) by (simp add: marked_def)
    then show ?thesis using row(3) step_edge [OF assms(6) e ab(1)] ab(2) by simp
  qed
  have "length matrix = ?n" by (simp add: matrix_def)
  then have row: "nth_opt matrix k = Some (matrix ! k)" using k(1) by (simp add: nth_opt_def)
  have "map ((!) names) (filter (\<lambda>i. i \<noteq> k \<and> \<not> matrix ! k ! i) [0..<?n])
      = map ((!) names) (filter (\<lambda>i. \<not> (mode_step names mts)\<^sup>*\<^sup>* (to_ascii_lowercase (mode_name m)) (?l i)) [0..<?n])"
    using cell [OF k(1)] k by (intro arg_cong [where f = "map _"] filter_cong) auto
  also have "\<dots> = filter (\<lambda>x. \<not> (mode_step names mts)\<^sup>*\<^sup>* (to_ascii_lowercase (mode_name m)) (to_ascii_lowercase x)) (map ((!) names) [0..<?n])"
    by (simp add: filter_map comp_def)
  finally have unreachable: "map ((!) names) (filter (\<lambda>i. i \<noteq> k \<and> \<not> matrix ! k ! i) [0..<?n]) = \<dots>" .
  obtain dead where "find_dead_transitions inst i mts = Some dead" using assms(8) by (simp add: find_dead_transitions_def)
  then show ?thesis
    using assms(1-5) adj(1) those row cell unreachable init
    by (simp add: reachability_of_def Let_def unwrap_or_def assms(7) [symmetric] map_nth)
qed

text \<open>A machine of three modes, one of them without a way in.\<close>

definition demo_mode :: "string \<Rightarrow> bool \<Rightarrow> mode_instance" where
  "demo_mode n b = \<lparr>mode_name = n, mode_is_initial = b, mode_owner = 0\<rparr>"

definition demo_transition :: "string \<Rightarrow> string \<Rightarrow> string list \<Rightarrow> mode_transition_instance" where
  "demo_transition s d ts = \<lparr>mt_name = None, mt_source = s, mt_destination = d, mt_triggers = ts, mt_owner = 0\<rparr>"

definition demo_machine :: system_instance where
  "demo_machine = (demo_inst [(demo_component ''m'' System None [])\<lparr>comp_modes := [0, 1, 2], comp_mode_transitions := [0]\<rparr>] [])
     \<lparr>mode_instances := [demo_mode ''idle'' True, demo_mode ''Run'' False, demo_mode ''fault'' False],
      mode_transition_instances := [demo_transition ''Idle'' ''RUN'' []]\<rparr>"

theorem mode_reachability_exact_witness:
  "\<exists>mx. reachability_of demo_machine 0 = Some (Some mx) \<and> ''fault'' \<in> set (rm_unreachable mx) \<and> ''Run'' \<notin> set (rm_unreachable mx)"
proof -
  let ?modes = "[demo_mode ''idle'' True, demo_mode ''Run'' False, demo_mode ''fault'' False]"
  let ?mts = "[demo_transition ''Idle'' ''RUN'' []]" and ?names = "[''idle'', ''Run'', ''fault'']"
  have h: "modes_for demo_machine 0 = Some ?modes" "mode_transitions_for demo_machine 0 = Some ?mts"
    "find mode_is_initial ?modes = Some (demo_mode ''idle'' True)" "connected_features demo_machine 0 = Some []"
    by (simp_all add: modes_for_def mode_transitions_for_def connected_features_def dst_features_def demo_machine_def
        demo_inst_def demo_component_def demo_mode_def nth_opt_def)
  have d: "distinct (map to_ascii_lowercase ?names)" "?names = map mode_name ?modes"
    by (simp_all add: ascii_eval demo_mode_def)
  obtain mx where mx: "reachability_of demo_machine 0 = Some (Some mx)"
    "rm_unreachable mx = filter (\<lambda>x. \<not> (mode_step ?names ?mts)\<^sup>*\<^sup>* (to_ascii_lowercase (mode_name (demo_mode ''idle'' True))) (to_ascii_lowercase x)) ?names"
    using mode_reachability_exact [OF h(1,2) _ _ h(3) d h(4)] by auto
  have lower: "to_ascii_lowercase ''idle'' = ''idle''" "to_ascii_lowercase ''Idle'' = ''idle''" "to_ascii_lowercase ''Run'' = ''run''"
    "to_ascii_lowercase ''RUN'' = ''run''" "to_ascii_lowercase ''fault'' = ''fault''"
    by (simp_all add: ascii_eval)
  have step: "mode_step ?names ?mts a b \<longleftrightarrow> a = ''idle'' \<and> b = ''run''" for a b
    by (auto simp: mode_step.simps demo_transition_def lower)
  have "\<not> (mode_step ?names ?mts)\<^sup>*\<^sup>* ''idle'' ''fault''" by (auto simp: step elim: rtranclp.cases)
  moreover have "(mode_step ?names ?mts)\<^sup>*\<^sup>* ''idle'' ''run''" by (rule r_into_rtranclp) (simp add: step)
  ultimately show ?thesis using mx by (simp add: demo_mode_def lower)
qed

text \<open>A transition with two triggers is reported as one that can never fire when only one of them is
  unconnected.\<close>

lemma dead_transition_may_fire:
  "connected_features inst i = Some [''go''] \<Longrightarrow>
    find_dead_transitions inst i [demo_transition ''Idle'' ''Run'' [''go'', ''retry'']]
      = Some [\<lparr>dt_name = ''Idle->Run'', dt_source = ''Idle'', dt_destination = ''Run'', dt_trigger = ''retry''\<rparr>]"
  by (simp add: find_dead_transitions_def demo_transition_def transition_label_def ascii_eval)

end
