(* ===== verification/Semantic_Connections.thy ===== *)
theory Semantic_Connections
  imports System_Modes
begin

text \<open>
  Semantic connections, \<^verbatim>\<open>compute_semantic_connections\<close> of \<^verbatim>\<open>crates/spar-hir-def/src/instance.rs\<close>:
  the connections declared at each level of the hierarchy are traced to their ultimate ends, up through
  \<^verbatim>\<open>trace_sources\<close> and down through \<^verbatim>\<open>trace_destinations\<close>. The two functions differ only in which end of
  a connection they match and follow; they are instances of one \<open>trace\<close>. \<open>None\<close> is an arena index out
  of range. The expansion of feature groups, a separate pass, is not modelled.
\<close>

section \<open>Children by name\<close>

definition base_name_of :: "string \<Rightarrow> string" where
  "base_name_of nm = (case find_str ''['' nm of Some pos \<Rightarrow> take pos nm | None \<Rightarrow> nm)"

definition children_of :: "system_instance \<Rightarrow> idx \<Rightarrow> (idx \<times> component_instance) list option" where
  "children_of inst owner = do {
     c \<leftarrow> nth_opt (components inst) owner;
     those (map (\<lambda>k. map_option (Pair k) (nth_opt (components inst) k)) (comp_children c)) }"

definition find_children_by_name :: "system_instance \<Rightarrow> idx \<Rightarrow> name \<Rightarrow> idx list option" where
  "find_children_by_name inst owner sub_name = map_option (\<lambda>kids.
     let exact = map fst (filter (\<lambda>(_, c). comp_name c = sub_name) kids)
     in if exact \<noteq> [] then exact
        else if CHR ''['' \<notin> set sub_name
        then map fst (filter (\<lambda>(_, c). eq_ignore_ascii_case (base_name_of (comp_name c)) sub_name
                                       \<and> comp_array_index c \<noteq> None) kids)
        else []) (children_of inst owner)"

section \<open>Tracing\<close>

definition MAX_TRACE_DEPTH :: nat where
  "MAX_TRACE_DEPTH = 20"

text \<open>The subcomponent and feature a connection leads to from a feature of its owner: against the
  connection for sources, along it for destinations.\<close>

definition up_end :: "connection_instance \<Rightarrow> name \<Rightarrow> (name \<times> name) option" where
  "up_end conn feat =
     (case (conn_src conn, conn_dst conn) of
        (Some src, Some dst) \<Rightarrow>
          (case (ce_subcomponent src, ce_subcomponent dst) of
             (Some sub, None) \<Rightarrow> if ce_feature dst = feat then Some (sub, ce_feature src) else None
           | _ \<Rightarrow> None)
      | _ \<Rightarrow> None)"

definition down_end :: "connection_instance \<Rightarrow> name \<Rightarrow> (name \<times> name) option" where
  "down_end conn feat =
     (case (conn_src conn, conn_dst conn) of
        (Some src, Some dst) \<Rightarrow>
          (case (ce_subcomponent src, ce_subcomponent dst) of
             (None, Some sub) \<Rightarrow> if ce_feature src = feat then Some (sub, ce_feature dst) else None
           | _ \<Rightarrow> None)
      | _ \<Rightarrow> None)"

type_synonym traced = "idx \<times> name \<times> idx list"

fun trace :: "(connection_instance \<Rightarrow> name \<Rightarrow> (name \<times> name) option) \<Rightarrow> system_instance \<Rightarrow> nat \<Rightarrow> idx \<Rightarrow> name \<Rightarrow> idx list
    \<Rightarrow> traced list option" where
  "trace follow inst 0 c feat base = Some [(c, feat, base)]"
| "trace follow inst (Suc depth) c feat base = do {
     cmp \<leftarrow> nth_opt (components inst) c;
     rs \<leftarrow> those (map (\<lambda>ci. do {
              conn \<leftarrow> nth_opt (connections inst) ci;
              (case follow conn feat of
                 None \<Rightarrow> Some []
               | Some (sub, feat') \<Rightarrow> do {
                   inner \<leftarrow> find_children_by_name inst c sub;
                   deeper \<leftarrow> those (map (\<lambda>k. trace follow inst depth k feat' (base @ [ci])) inner);
                   Some (concat deeper) }) }) (comp_connections cmp));
     let results = concat rs;
     Some (if results = [] then [(c, feat, base)] else results) }"

definition trace_sources :: "system_instance \<Rightarrow> idx \<Rightarrow> name \<Rightarrow> idx list \<Rightarrow> nat \<Rightarrow> traced list option" where
  "trace_sources inst c feat base depth = trace up_end inst depth c feat base"

definition trace_destinations :: "system_instance \<Rightarrow> idx \<Rightarrow> name \<Rightarrow> idx list \<Rightarrow> nat \<Rightarrow> traced list option" where
  "trace_destinations inst c feat base depth = trace down_end inst depth c feat base"

section \<open>Semantic connections\<close>

datatype connection_pattern = OneToOne | AllToAll

definition parse_connection_pattern :: "string \<Rightarrow> connection_pattern" where
  "parse_connection_pattern val =
     (let stripped = filter (\<lambda>c. c \<notin> {CHR ''('', CHR '')'', CHR '','', CHR '' '', CHR 0x09, CHR 0x0A}) val
      in if eq_ignore_ascii_case stripped ''one_to_one'' then OneToOne else AllToAll)"

definition resolve_connection_pattern :: "system_instance \<Rightarrow> idx \<Rightarrow> connection_pattern" where
  "resolve_connection_pattern inst owner =
     (case get_raw_qualified (properties_for inst owner) ''Communication_Properties'' ''Connection_Pattern'' of
        Some val \<Rightarrow> parse_connection_pattern val
      | None \<Rightarrow> AllToAll)"

definition pattern_pairs :: "connection_pattern \<Rightarrow> idx list \<Rightarrow> idx list \<Rightarrow> (idx \<times> idx) list" where
  "pattern_pairs pat ss ds =
     (case pat of OneToOne \<Rightarrow> zip ss ds | AllToAll \<Rightarrow> concat (map (\<lambda>s. map (Pair s) ds) ss))"

text \<open>The path of a source extended by the connections of a destination it does not have yet.\<close>

definition merge_paths :: "idx list \<Rightarrow> idx list \<Rightarrow> idx list" where
  "merge_paths src_path dst_path = fold (\<lambda>ci path. if ci \<in> set path then path else path @ [ci]) dst_path src_path"

definition semantic :: "connection_instance \<Rightarrow> idx \<times> name \<Rightarrow> idx \<times> name \<Rightarrow> idx list \<Rightarrow> semantic_connection" where
  "semantic conn s d path = \<lparr>sc_name = conn_name conn, sc_kind = conn_kind conn, sc_source = s, sc_destination = d, sc_path = path\<rparr>"

definition semantic_across :: "system_instance \<Rightarrow> idx \<Rightarrow> connection_instance \<Rightarrow> name \<Rightarrow> name \<Rightarrow> idx \<times> idx
    \<Rightarrow> semantic_connection list option" where
  "semantic_across inst ci conn src_feat dst_feat pair = do {
     ss \<leftarrow> trace_sources inst (fst pair) src_feat [ci] MAX_TRACE_DEPTH;
     ds \<leftarrow> trace_destinations inst (snd pair) dst_feat [ci] MAX_TRACE_DEPTH;
     Some (concat (map (\<lambda>(sc, sf, sp). map (\<lambda>(dc, df, dp).
       semantic conn (sc, sf) (dc, df) (merge_paths sp dp)) ds) ss)) }"

definition diagnose :: "bool \<Rightarrow> instance_message \<Rightarrow> name \<Rightarrow> name \<Rightarrow> instance_diagnostic list" where
  "diagnose b msg owner nm = (if b then [\<lparr>diag_message = msg, diag_path = [owner, nm]\<rparr>] else [])"

text \<open>One connection declaration: its semantic connections and its diagnostics, for the three shapes of
  its ends and then for all.\<close>

type_synonym semantic_result = "semantic_connection list \<times> instance_diagnostic list"

definition across_connection :: "system_instance \<Rightarrow> idx \<Rightarrow> connection_instance \<Rightarrow> name \<Rightarrow> name \<Rightarrow> name \<Rightarrow> name \<Rightarrow> semantic_result option" where
  "across_connection inst ci conn s src_feat d dst_feat = do {
     owner \<leftarrow> nth_opt (components inst) (conn_owner conn);
     ss \<leftarrow> find_children_by_name inst (conn_owner conn) s;
     ds \<leftarrow> find_children_by_name inst (conn_owner conn) d;
     let pat = resolve_connection_pattern inst (conn_owner conn);
     rs \<leftarrow> those (map (semantic_across inst ci conn src_feat dst_feat) (pattern_pairs pat ss ds));
     let nm = conn_name conn;
     Some (concat rs,
       diagnose (ss = []) (UnresolvedSource nm s) (comp_name owner) nm
       @ diagnose (ds = []) (UnresolvedDestination nm d) (comp_name owner) nm
       @ diagnose (pat = OneToOne \<and> length ss \<noteq> length ds) (UnequalArrays nm (length ss) (length ds)) (comp_name owner) nm) }"

definition up_connection :: "system_instance \<Rightarrow> idx \<Rightarrow> connection_instance \<Rightarrow> name \<Rightarrow> name \<Rightarrow> name \<Rightarrow> semantic_result option" where
  "up_connection inst ci conn s src_feat dst_feat = do {
     owner \<leftarrow> nth_opt (components inst) (conn_owner conn);
     (if comp_parent owner \<noteq> None then Some ([], [])
      else do {
        ss \<leftarrow> find_children_by_name inst (conn_owner conn) s;
        rs \<leftarrow> those (map (\<lambda>k. trace_sources inst k src_feat [ci] MAX_TRACE_DEPTH) ss);
        Some (map (\<lambda>(c, f, path). semantic conn (c, f) (conn_owner conn, dst_feat) path) (concat rs),
          diagnose (ss = []) (UnresolvedSource (conn_name conn) s) (comp_name owner) (conn_name conn)) }) }"

definition down_connection :: "system_instance \<Rightarrow> idx \<Rightarrow> connection_instance \<Rightarrow> name \<Rightarrow> name \<Rightarrow> name \<Rightarrow> semantic_result option" where
  "down_connection inst ci conn d src_feat dst_feat = do {
     owner \<leftarrow> nth_opt (components inst) (conn_owner conn);
     (if comp_parent owner \<noteq> None then Some ([], [])
      else do {
        ds \<leftarrow> find_children_by_name inst (conn_owner conn) d;
        rs \<leftarrow> those (map (\<lambda>k. trace_destinations inst k dst_feat [ci] MAX_TRACE_DEPTH) ds);
        Some (map (\<lambda>(c, f, path). semantic conn (conn_owner conn, src_feat) (c, f) path) (concat rs),
          diagnose (ds = []) (UnresolvedDestination (conn_name conn) d) (comp_name owner) (conn_name conn)) }) }"

definition semantic_of :: "system_instance \<Rightarrow> idx \<Rightarrow> semantic_result option" where
  "semantic_of inst ci = do {
     conn \<leftarrow> nth_opt (connections inst) ci;
     (case (conn_src conn, conn_dst conn) of
        (Some src, Some dst) \<Rightarrow>
          (case (ce_subcomponent src, ce_subcomponent dst) of
             (Some s, Some d) \<Rightarrow> across_connection inst ci conn s (ce_feature src) d (ce_feature dst)
           | (Some s, None) \<Rightarrow> up_connection inst ci conn s (ce_feature src) (ce_feature dst)
           | (None, Some d) \<Rightarrow> down_connection inst ci conn d (ce_feature src) (ce_feature dst)
           | (None, None) \<Rightarrow> Some ([], []))
      | _ \<Rightarrow> map_option (\<lambda>owner. ([], diagnose True (MissingEndpoint (conn_name conn)) (comp_name owner) (conn_name conn)))
               (nth_opt (components inst) (conn_owner conn))) }"

definition compute_semantic_connections :: "system_instance \<Rightarrow> system_instance option" where
  "compute_semantic_connections inst = do {
     rs \<leftarrow> those (map (semantic_of inst) [0..<length (connections inst)]);
     Some (inst\<lparr>semantic_connections := concat (map fst rs),
                inst_diagnostics := inst_diagnostics inst @ concat (map snd rs)\<rparr>) }"

section \<open>Ultimate ends\<close>


















section \<open>Properties\<close>



abbreviation pairs_of :: "semantic_connection list \<Rightarrow> ((idx \<times> name) \<times> (idx \<times> name)) set" where
  "pairs_of scs \<equiv> (\<lambda>sc. (sc_source sc, sc_destination sc)) ` set scs"












text \<open>A sensor inside \<open>a\<close> connected through the port of \<open>a\<close> to the two elements of the array \<open>b\<close>; the
  connection inside \<open>a\<close> names its port as the declaration at the top does, or in capitals.\<close>

definition demo_end :: "name option \<Rightarrow> name \<Rightarrow> connection_end option" where
  "demo_end sub feat = Some \<lparr>ce_subcomponent = sub, ce_feature = feat\<rparr>"

definition demo_conn :: "name \<Rightarrow> idx \<Rightarrow> connection_end option \<Rightarrow> connection_end option \<Rightarrow> connection_instance" where
  "demo_conn nm owner s d = \<lparr>conn_name = nm, conn_kind = PortConn, conn_is_bidirectional = False, conn_owner = owner,
     conn_src = s, conn_dst = d, conn_in_modes = []\<rparr>"

definition demo_wired :: "name \<Rightarrow> system_instance" where
  "demo_wired port = (demo_inst
     [(demo_component ''top'' System None [1, 2, 3])\<lparr>comp_connections := [0]\<rparr>,
      (demo_component ''a'' System (Some 0) [4])\<lparr>comp_connections := [1]\<rparr>,
      (demo_component ''b[1]'' System (Some 0) [])\<lparr>comp_array_index := Some 1\<rparr>,
      (demo_component ''b[2]'' System (Some 0) [])\<lparr>comp_array_index := Some 2\<rparr>,
      demo_component ''s'' Device (Some 1) []] [])
     \<lparr>connections := [demo_conn ''c0'' 0 (demo_end (Some ''a'') ''q'') (demo_end (Some ''b'') ''p''),
                     demo_conn ''c1'' 1 (demo_end (Some ''s'') ''o'') (demo_end None port)]\<rparr>"

lemma demo_wired_sel:
  "connections (demo_wired port) = [demo_conn ''c0'' 0 (demo_end (Some ''a'') ''q'') (demo_end (Some ''b'') ''p''),
     demo_conn ''c1'' 1 (demo_end (Some ''s'') ''o'') (demo_end None port)]"
  "length (components (demo_wired port)) = 5"
  by (simp_all add: demo_wired_def)

lemma demo_wired_kids:
  "find_children_by_name (demo_wired port) 0 ''a'' = Some [1]" "find_children_by_name (demo_wired port) 0 ''b'' = Some [2, 3]"
  "find_children_by_name (demo_wired port) (Suc 0) ''s'' = Some [4]"
  by (simp_all add: find_children_by_name_def children_of_def demo_wired_def demo_component_def nth_opt_def base_name_of_def
      ascii_eval eval_nat_numeral)

lemma demo_wired_comp:
  "nth_opt (components (demo_wired port)) (Suc 0) = Some ((demo_component ''a'' System (Some 0) [4])\<lparr>comp_connections := [1]\<rparr>)"
  "nth_opt (components (demo_wired port)) 2 = Some ((demo_component ''b[1]'' System (Some 0) [])\<lparr>comp_array_index := Some 1\<rparr>)"
  "nth_opt (components (demo_wired port)) 3 = Some ((demo_component ''b[2]'' System (Some 0) [])\<lparr>comp_array_index := Some 2\<rparr>)"
  "nth_opt (components (demo_wired port)) 4 = Some (demo_component ''s'' Device (Some 1) [])"
  "nth_opt (components (demo_wired port)) 0 = Some ((demo_component ''top'' System None [1, 2, 3])\<lparr>comp_connections := [0]\<rparr>)"
  by (simp_all add: demo_wired_def nth_opt_def)

lemma demo_wired_trace:
  "trace up_end (demo_wired port) (Suc (Suc d)) (Suc 0) ''q'' base
    = Some (if port = ''q'' then [(4, ''o'', base @ [1])] else [(1, ''q'', base)])"
  "trace down_end (demo_wired port) (Suc d) 2 ''p'' base = Some [(2, ''p'', base)]"
  "trace down_end (demo_wired port) (Suc d) 3 ''p'' base = Some [(3, ''p'', base)]"
  by (simp_all add: demo_wired_sel demo_wired_kids demo_wired_comp demo_component_def nth_opt_def [of "[_, _]"]
      up_end_def down_end_def demo_conn_def demo_end_def Let_def)

lemma demo_wired_semantic:
  "map_option (\<lambda>i. pairs_of (semantic_connections i)) (compute_semantic_connections (demo_wired port))
    = Some (if port = ''q'' then {((4, ''o''), (2, ''p'')), ((4, ''o''), (3, ''p''))} else {((1, ''q''), (2, ''p'')), ((1, ''q''), (3, ''p''))})"
proof -
  obtain n where d: "MAX_TRACE_DEPTH = Suc (Suc n)" by (simp add: MAX_TRACE_DEPTH_def eval_nat_numeral)
  have "resolve_connection_pattern (demo_wired port) 0 = AllToAll"
    by (simp add: resolve_connection_pattern_def properties_for_def demo_wired_def get_raw_qualified_def property_map_new_def
      get_def first_usable_def or_else_def)
  then have "semantic_of (demo_wired port) 0 = Some (map (\<lambda>k. semantic (demo_conn ''c0'' 0 (demo_end (Some ''a'') ''q'')
      (demo_end (Some ''b'') ''p'')) (if port = ''q'' then (4, ''o'') else (1, ''q'')) (k, ''p'') (if port = ''q'' then [0, 1] else [0])) [2, 3], [])"
    by (cases "port = ''q''") (simp_all add: semantic_of_def diagnose_def across_connection_def semantic_across_def demo_wired_sel demo_wired_comp(5) demo_conn_def
        demo_end_def nth_opt_def [of "[_, _]"] demo_wired_kids pattern_pairs_def trace_sources_def trace_destinations_def d
        demo_wired_trace merge_paths_def Let_def del: trace.simps)
  moreover have "semantic_of (demo_wired port) (Suc 0) = Some ([], [])"
    by (simp add: semantic_of_def up_connection_def demo_wired_sel demo_wired_comp demo_conn_def demo_end_def
        nth_opt_def [of "[_, _]"] demo_component_def)
  ultimately show ?thesis by (simp add: compute_semantic_connections_def demo_wired_sel semantic_def)
qed


text \<open>Declared in capitals, the port inside \<open>a\<close> is the same port, but tracing compares the names exactly
  and stops at \<open>a\<close>.\<close>

lemma trace_compares_exactly:
  "map_option (\<lambda>i. pairs_of (semantic_connections i)) (compute_semantic_connections (demo_wired ''Q''))
    = Some {((1, ''q''), (2, ''p'')), ((1, ''q''), (3, ''p''))} \<and> eq_ignore_ascii_case ''q'' ''Q''"
  using demo_wired_semantic [of "''Q''"] by (simp add: ascii_eval)

end
