(* ===== verification/Spec2Isabelle.thy ===== *)
theory Spec2Isabelle
  imports Syntax_Tree Tfa Cqf Gcl_Synth Net_Graph Arinc_Partition Mode_Reachability Semantic_Connections
begin

text \<open>
  A verification development for \<^bold>\<open>spar\<close>, an AADL toolchain in Rust. A model is text; the front end turns it
  into a lossless syntax tree (\<^verbatim>\<open>crates/spar-parser\<close>, \<^verbatim>\<open>crates/spar-syntax\<close>), lowering turns the tree into an item
  tree and an instance (\<^verbatim>\<open>crates/spar-hir-def\<close>), the passes of \<^verbatim>\<open>crates/spar-analysis\<close> read the properties of
  the instance and judge it, and \<^verbatim>\<open>crates/spar-network\<close> is the calculus of networks and the synthesis of
  schedules. The theories follow these parts; each opens with the files it models, and its definitions have the
  names of the source where Isabelle allows them.

  \<^bold>\<open>Front end.\<close> \<open>Syntax_Kind\<close> has the token and node kinds (\<^verbatim>\<open>syntax_kind.rs\<close>, as their discriminants) and the
  128-bit sets of them (\<^verbatim>\<open>token_set.rs\<close>). \<open>Aadl_Lexer\<close> is the scanner over the bytes of a valid UTF-8 string
  (\<^verbatim>\<open>lexer.rs\<close>); slicing off a character boundary is \<open>None\<close>. \<open>Parser_Events\<close> is the parser state, its tokens,
  events and markers (\<^verbatim>\<open>parser.rs\<close>, \<^verbatim>\<open>event.rs\<close>, \<^verbatim>\<open>marker.rs\<close>), and the contract of grammar functions: \<open>exec\<close>
  and \<open>keeps\<close> say that a function returns, goes forward, and appends well-nested events with exactly the tokens
  consumed; their rules derive the contract from the text of a function, and the locale \<open>grammar_item\<close> states
  it for separated lists. \<open>Grammar_Names\<close>, \<open>Grammar_Properties\<close>, \<open>Grammar_Sections\<close> and \<open>Grammar_Components\<close> are all
  productions of \<^verbatim>\<open>grammar/\<close>, each with its contract, up to \<open>source_file\<close>. \<open>Syntax_Tree\<close> is \<^verbatim>\<open>parsing.rs\<close>: forward
  parents, trivia and the calls to the tree builder. The results: the lexer and the parser return on every
  valid string, whatever its errors, and lose nothing of it.

  \<^bold>\<open>Model data.\<close> \<open>Property_Map\<close> (property tables with modal bindings, layered construction; the locale
  \<open>override_table\<close>), \<open>Property_Types\<close> (the type checker and unit factors), \<open>Rust_Float\<close> and \<open>Rust_Strings\<close> (the parts
  of \<^verbatim>\<open>f64\<close> and \<^verbatim>\<open>str\<close> used), \<open>Property_Access\<close> (the typed accessors), \<open>Sys_Instance\<close> (arenas, paths, references,
  bindings, activity), \<open>System_Modes\<close> (\<^verbatim>\<open>compute_soms\<close> is the product of the modes up to its cap) and
  \<open>Semantic_Connections\<close> (\<^verbatim>\<open>compute_semantic_connections\<close> finds exactly the traced connections).

  \<^bold>\<open>Analyses.\<close> \<open>Rta_Core\<close> (the response-time recurrences: the driver returns the least fixed point; the locale
  \<open>monotone_recurrence\<close>), \<open>Rta_Analysis\<close> (the pass over an instance; the locale \<open>comparator\<close> for its orders),
  \<open>Arinc_Supply\<close> and \<open>Arinc_Partition\<close> (supply of a partition and the pass), \<open>Mode_Reachability\<close>. The theorem below
  relates the two passes.

  \<^bold>\<open>Networks.\<close> \<open>Curves\<close> (arrival and service curves and their bounds; the locale \<open>bucket_envelope\<close>), \<open>Tfa\<close> (Total
  Flow Analysis; the locale \<open>ascending_iteration\<close>), \<open>Cqf\<close> (cyclic queuing; the locale \<open>cycle_selection\<close>),
  \<open>Gate_Schedule\<close>, \<open>Tas_Service\<close> and \<open>Gcl_Synth\<close> (gate control lists, the service of a gated port and their
  synthesis; the locales \<open>periodic_gate\<close> and \<open>monotone_search\<close>), \<open>Net_Graph\<close>.

  \<^bold>\<open>Conventions.\<close> \<open>Spar_Prelude\<close> has the machine integers: unsigned values are natural numbers with the bounds and
  saturation of the source written out, an unchecked operation that overflows is a panic as in a build with
  overflow checks, \<^verbatim>\<open>as u32\<close> is a remainder. A panic, and for \<open>repeat_loop\<close> also a loop that does not end, is
  \<open>None\<close>; that it does not happen is part of the theorems. Hash tables are association lists in insertion
  order. Event positions, 32 bits in the source, are unbounded.

  \<^bold>\<open>Bounds and fuel.\<close> The fixed-point drivers have the iteration caps of the source (\<^verbatim>\<open>MAX_SOMS\<close>, \<^verbatim>\<open>MAX_TRACE_DEPTH\<close>,
  the caps of TFA and of the fallback supply test), which are behaviour and not fuel. Fuel of the model: the
  response-time loop has one step more than the deadline, enough because an iterate that is not a fixed point
  grows by one at least; the walk to the ancestors of a component has the number of components; classifier
  references, property expressions and property types have one more than the number of tokens, enough because
  every nested call has consumed a token (\<open>enough_fuel\<close>).

  \<^bold>\<open>Not modelled.\<close> The green trees of the \<^verbatim>\<open>rowan\<close> package and the typed views over them, the \<^verbatim>\<open>salsa\<close> database,
  lowering and instantiation (their results are the inputs here), the annex sublanguages, the SysML front end,
  code generation and exporters, solvers (they call external libraries), the tools that print or serve results.
  Passes that only format sums of properties are left out. Multiplication of binary64 numbers is an argument
  of the accessors, with the laws used of it.
\<close>

section \<open>Two passes, one verdict\<close>

text \<open>C11. The two response-time passes never judge the same thread: whatever the model, a thread that has
  a verdict of the response-time pass is bound to a processor, and one that has a diagnostic of the
  ARINC 653 pass is not, so no thread gets two contradicting response times.\<close>

theorem analyses_disjoint:
  assumes "analyze inst = Some ds" "arinc_analyze inst = Some supply_ds" "d \<in> set ds" "is_verdict d" "s \<in> set supply_ds"
  shows "get_processor_binding (properties_for inst (verdict_idx d)) \<noteq> None
    \<and> get_processor_binding (properties_for inst (sd_comp_idx s)) = None \<and> verdict_idx d \<noteq> sd_comp_idx s"
  using rta_verdicts_bound [OF assms(1) [unfolded analyze_def] assms(3,4)] arinc_verdicts_unbound [OF assms(2,5)]
  by auto

text \<open>A bound thread beside a partition with one thread inside.\<close>

definition demo_timed :: "int \<Rightarrow> int \<Rightarrow> property_map" where
  "demo_timed p c = add (demo_typed ''Timing_Properties'' ''Period'' (Integer p None))
     (add (demo_typed ''Timing_Properties'' ''Compute_Execution_Time'' (Integer c None)) property_map_new)"

definition demo_partitioned :: system_instance where
  "demo_partitioned = demo_inst [demo_component ''task'' Thread None [], demo_component ''vp'' VirtualProcessor None [2],
     demo_component ''inner'' Thread (Some 1) []] [(0, demo_task), (1, demo_timed 10 5), (2, demo_timed 100 2)]"

lemma demo_timed_first_usable:
  "first_usable (demo_timed p c) pset nm = (
    if ci_name pset = ''timing_properties'' \<and> ci_name nm = ''period'' then Some (demo_typed ''Timing_Properties'' ''Period'' (Integer p None))
    else if ci_name pset = ''timing_properties'' \<and> ci_name nm = ''compute_execution_time''
      then Some (demo_typed ''Timing_Properties'' ''Compute_Execution_Time'' (Integer c None))
    else None)"
proof -
  have p: "props (demo_timed p c) = [((''timing_properties'', ''compute_execution_time''),
      [demo_typed ''Timing_Properties'' ''Compute_Execution_Time'' (Integer c None)]),
     ((''timing_properties'', ''period''), [demo_typed ''Timing_Properties'' ''Period'' (Integer p None)])]"
    by (simp add: demo_timed_def add_def add_from_def property_map_new_def key_of_def demo_typed_def demo_ref_def
        ci_name_def ascii_eval trim_eval)
  show ?thesis unfolding first_usable_def p by (simp add: value_is_arithmetic_def demo_typed_def)
qed

lemma demo_timed_readings:
  "get_timing_property (demo_timed p c) ''Period'' = Some (Some (i64_as_u64 p))"
  "get_timing_property (demo_timed p c) ''Deadline'' = Some None"
  "get_timing_property (demo_timed p c) ''Poll_Segment_Time'' = Some None"
  "get_timing_property (demo_timed p c) ''Dispatch_Jitter'' = Some None"
  "get_timing_property (demo_timed p c) ''Context_Switch_Time'' = Some None"
  "get_dispatch_jitter (demo_timed p c) = Some None"
  "get_execution_time (demo_timed p c) = Some (Some (i64_as_u64 c))"
  "get_execution_time_or_exec (demo_timed p c) = Some (Some (i64_as_u64 c))"
  "get_execution_time_range (demo_timed p c) = Some (Some (i64_as_u64 c, i64_as_u64 c))"
  "get_isr_priority (demo_timed p c) = None"
  "get_locking_protocol (demo_timed p c) = None"
  "get_processor_binding (demo_timed p c) = None"
  "get_priority (demo_timed p c) = None"
  "get_dispatch_protocol (demo_timed p c) = None"
  by (simp_all add: get_timing_property_def get_dispatch_jitter_def get_execution_time_def get_execution_time_range_def
      get_execution_time_or_exec_def
      get_isr_priority_def get_locking_protocol_def get_processor_binding_def get_priority_def get_dispatch_protocol_def
      get_typed_qualified_def get_raw_qualified_def or_else_def get_typed_def get_def demo_timed_first_usable
      demo_typed_def typed_or_def typed_or_text_def raw_or_none_def extract_time_max_def extract_time_range_ps_def
      ci_name_def ascii_eval trim_eval)

lemma demo_partitioned_properties:
  "properties_for demo_partitioned 0 = demo_task" "properties_for demo_partitioned (Suc 0) = demo_timed 10 5"
  "properties_for demo_partitioned 2 = demo_timed 100 2"
  by (simp_all add: properties_for_def demo_partitioned_def)

lemma demo_partitioned_components:
  "nth_opt (components demo_partitioned) 0 = Some (demo_component ''task'' Thread None [])"
  "nth_opt (components demo_partitioned) (Suc 0) = Some (demo_component ''vp'' VirtualProcessor None [2])"
  "nth_opt (components demo_partitioned) 2 = Some (demo_component ''inner'' Thread (Some (Suc 0)) [])"
  "[0..<length (components demo_partitioned)] = [0, Suc 0, 2]"
  by (simp_all add: demo_partitioned_def nth_opt_def upt_rec)

lemma demo_partitioned_arinc:
  "arinc_analyze demo_partitioned = Some [diagnostic_for \<lparr>it_comp_idx = 2, it_name = ''inner'', it_period = 100, it_exec = 2,
      it_deadline = 100, it_segment = 2, it_extra_jitter = 0, it_priority = None\<rparr> ''vp'' 10 5 (JitterPath 12 2)]"
proof -
  have o: "owning_partition demo_partitioned 2 = Some (Some (Suc 0))"
  proof -
    have "length (components demo_partitioned) = Suc (Suc (Suc 0))" by (simp add: demo_partitioned_def)
    then show ?thesis by (simp add: owning_partition_def demo_partitioned_components demo_component_def)
  qed
  have hd1: "nth_opt [t] 0 = Some t" for t :: inner_task by (simp add: nth_opt_def)
  have "sat_step 2 [] [] 2 = 2" by (simp add: sat_step_def u64_max_def)
  then have "compute_response_time_jittered_blocking 2 5 0 0 [] [] = Some (Converged 2)"
    unfolding blocking_driver_eq by (simp add: periods_pos_def u64_max_def rta_loop_unfold)
  then have "analyze_task 10 5 2 100 0 0 [] [] = Some (JitterPath 12 2)"
    by (simp add: analyze_task_def derived_jitter_def sat_mul_def sat_add_def u64_max_def)
  then show ?thesis
    by (simp add: arinc_analyze_def collect_inner_def inner_timing_def analyze_partition_def analyze_inner_def o
        demo_partitioned_components demo_partitioned_properties demo_timed_readings demo_task_readings demo_component_def
        i64_as_u64_def unwrap_or_def blocking_of_def sort_by_def push_entry_def hd1)
qed

lemma demo_partitioned_binding: "actual_processor_binding demo_partitioned 0 = Some None"
  by (simp add: actual_processor_binding_def inst_reference_context_def reference_context_def resolve_reference_def
      demo_partitioned_properties demo_task_binding)
    (simp add: demo_partitioned_def demo_component_def nth_opt_def demo_task_binding)

lemma demo_partitioned_analyze:
  "analyze demo_partitioned = Some [DeadlineMet 0 ''task'' ''cpu'' 3 10]"
proof -
  let ?g = "\<lparr>pg_display = [(''cpu'', ''cpu'')], pg_resolved = []\<rparr>"
  let ?t = "(demo_ti ''task'' 10 3 None 0)\<lparr>ti_exec_bcet_ps := Some 3\<rparr>"
  let ?u = "(demo_ti ''inner'' 100 2 None 2)\<lparr>ti_exec_bcet_ps := Some 2\<rparr>"
  let ?st = "rta_state_new\<lparr>st_threads := [(''cpu'', [?t]), (UNBOUND, [?u])],
     st_groups := \<lparr>pg_display = [(''cpu'', ''cpu''), (UNBOUND, UNBOUND)], pg_resolved = []\<rparr>\<rparr>"
  have ub: "UNBOUND \<noteq> ''cpu''" "''cpu'' \<noteq> UNBOUND" by (simp_all add: UNBOUND_def)
  have g: "groups_key demo_partitioned 0 (Some ''cpu'') \<lparr>pg_display = [], pg_resolved = []\<rparr> = Some (''cpu'', ?g)"
    by (simp add: groups_key_def demo_partitioned_binding or_insert_def)
  have g': "groups_key demo_partitioned 2 None ?g = Some (UNBOUND, \<lparr>pg_display = [(''cpu'', ''cpu''), (UNBOUND, UNBOUND)], pg_resolved = []\<rparr>)"
    by (simp add: groups_key_def or_insert_def ub)
  have c: "collect demo_partitioned (\<lambda>i. Some (properties_for demo_partitioned i)) (\<lambda>_. Some True) = Some ?st"
    by (simp add: collect_def collect_component_def collect_thread_def demo_partitioned_components demo_partitioned_properties
        g g' ub demo_task_readings demo_timed_readings demo_component_def i64_as_u64_def
        rta_state_new_def emit_if_def unwrap_or_def demo_ti_def push_entry_def sat_add_def sat_mul_def u64_max_def)
  have "analyze_group ?st ''cpu'' = analyze_group demo_collected ''cpu''"
    by (simp add: analyze_group_def demo_collected_def groups_display_def ub)
  moreover have "analyze_group ?st UNBOUND = Some []" by (simp add: analyze_group_def)
  moreover have "sorted_keys (st_groups ?st) (st_threads ?st) = [UNBOUND, ''cpu'']"
    by (simp add: sorted_keys_def sort_by_def groups_display_def ub cmp_string_def) (simp add: UNBOUND_def less_char_def)
  moreover have "tier1 ?st = []" "st_diags ?st = []"
    by (simp_all add: rta_state_new_def sorted_keys_def sort_by_def tier1_def)
  ultimately show ?thesis using demo_collected_group by (simp add: analyze_def analyze_with_def c)
qed

theorem analyses_disjoint_witness:
  "\<exists>ds supply_ds d s. analyze demo_partitioned = Some ds \<and> arinc_analyze demo_partitioned = Some supply_ds
    \<and> d \<in> set ds \<and> is_verdict d \<and> s \<in> set supply_ds \<and> verdict_idx d \<noteq> sd_comp_idx s"
proof -
  have "is_verdict (DeadlineMet 0 ''task'' ''cpu'' 3 10)" by (simp add: is_verdict_def)
  then show ?thesis
    using analyses_disjoint [OF demo_partitioned_analyze demo_partitioned_arinc] demo_partitioned_analyze demo_partitioned_arinc
    by (metis list.set_intros(1))
qed

end
